(* ===== verification/Dom_Prelude.thy ===== *)
theory Dom_Prelude
  imports Main "HOL-Library.Word"
begin

text \<open>
  Shared vocabulary of the development: the machine integer types of the Rust
  sources, the result of a fallible call (a value, an error, or a panic), the
  propagation of errors that Rust writes with the question mark operator,
  checked arithmetic on machine words, and the little- and big-endian byte
  encodings of integers.  The lemmas here are the ones several components use.
\<close>

unbundle bit_operations_syntax

named_theorems dom_consts
named_theorems result_simps

section \<open>Machine types\<close>

type_synonym u8 = "8 word"
type_synonym u16 = "16 word"
type_synonym u32 = "32 word"
type_synonym u64 = "64 word"
type_synonym u128 = "128 word"
type_synonym bytes = "u8 list"

text \<open>
  A \<^verbatim>\<open>usize\<close> is a natural number; where the source checks arithmetic on it the
  64-bit bound is written out.
\<close>

definition USIZE_LIMIT :: nat where
  "USIZE_LIMIT = 2 ^ 64"

definition usize_checked_add :: "nat \<Rightarrow> nat \<Rightarrow> nat option" where
  "usize_checked_add a b = (if a + b < USIZE_LIMIT then Some (a + b) else None)"

definition usize_checked_mul :: "nat \<Rightarrow> nat \<Rightarrow> nat option" where
  "usize_checked_mul a b = (if a * b < USIZE_LIMIT then Some (a * b) else None)"

section \<open>Results of fallible calls\<close>

datatype ('a, 'e) result = Ok 'a | Err 'e | Panic string

fun and_then :: "('a, 'e) result \<Rightarrow> ('a \<Rightarrow> ('b, 'e) result) \<Rightarrow> ('b, 'e) result" where
  "and_then (Ok a) f = f a"
| "and_then (Err e) f = Err e"
| "and_then (Panic s) f = Panic s"

fun map_ok :: "('a \<Rightarrow> 'b) \<Rightarrow> ('a, 'e) result \<Rightarrow> ('b, 'e) result" where
  "map_ok f (Ok a) = Ok (f a)"
| "map_ok f (Err e) = Err e"
| "map_ok f (Panic s) = Panic s"

fun map_err :: "('e \<Rightarrow> 'f) \<Rightarrow> ('a, 'e) result \<Rightarrow> ('a, 'f) result" where
  "map_err f (Ok a) = Ok a"
| "map_err f (Err e) = Err (f e)"
| "map_err f (Panic s) = Panic s"

fun ok_or :: "'a option \<Rightarrow> 'e \<Rightarrow> ('a, 'e) result" where
  "ok_or (Some a) e = Ok a"
| "ok_or None e = Err e"

fun expect :: "'a option \<Rightarrow> string \<Rightarrow> ('a, 'e) result" where
  "expect (Some a) s = Ok a"
| "expect None s = Panic s"

fun expect_ok :: "('a, 'e) result \<Rightarrow> string \<Rightarrow> ('a, 'e) result" where
  "expect_ok (Ok a) s = Ok a"
| "expect_ok (Err e) s = Panic s"
| "expect_ok (Panic p) s = Panic p"

text \<open>The question mark operator in a method that also changes its state.\<close>

definition try_in :: "'s \<Rightarrow> ('a, 'e) result \<Rightarrow> ('a \<Rightarrow> 's \<times> ('b, 'e) result) \<Rightarrow> 's \<times> ('b, 'e) result" where
  "try_in s r f = (case r of Ok x \<Rightarrow> f x | Err e \<Rightarrow> (s, Err e) | Panic p \<Rightarrow> (s, Panic p))"

fun is_ok :: "('a, 'e) result \<Rightarrow> bool" where
  "is_ok (Ok a) = True"
| "is_ok (Err e) = False"
| "is_ok (Panic s) = False"

fun is_panic :: "('a, 'e) result \<Rightarrow> bool" where
  "is_panic (Ok a) = False"
| "is_panic (Err e) = False"
| "is_panic (Panic s) = True"

fun for_each :: "('a \<Rightarrow> (unit, 'e) result) \<Rightarrow> 'a list \<Rightarrow> (unit, 'e) result" where
  "for_each f [] = Ok ()"
| "for_each f (x # xs) = and_then (f x) (\<lambda>_. for_each f xs)"

fun try_fold :: "('b \<Rightarrow> 'a \<Rightarrow> ('b, 'e) result) \<Rightarrow> 'b \<Rightarrow> 'a list \<Rightarrow> ('b, 'e) result" where
  "try_fold f acc [] = Ok acc"
| "try_fold f acc (x # xs) = and_then (f acc x) (\<lambda>acc'. try_fold f acc' xs)"

fun try_map :: "('a \<Rightarrow> ('b, 'e) result) \<Rightarrow> 'a list \<Rightarrow> ('b list, 'e) result" where
  "try_map f [] = Ok []"
| "try_map f (x # xs) = and_then (f x) (\<lambda>y. and_then (try_map f xs) (\<lambda>ys. Ok (y # ys)))"

lemma and_then_eq_Ok [simp, result_simps]:
  "and_then r f = Ok y \<longleftrightarrow> (\<exists>x. r = Ok x \<and> f x = Ok y)"
  by (cases r) auto

lemma and_then_eq_Err [result_simps]:
  "and_then r f = Err e \<longleftrightarrow> r = Err e \<or> (\<exists>x. r = Ok x \<and> f x = Err e)"
  by (cases r) auto

lemma and_then_eq_Panic [result_simps]:
  "and_then r f = Panic s \<longleftrightarrow> r = Panic s \<or> (\<exists>x. r = Ok x \<and> f x = Panic s)"
  by (cases r) auto

lemma and_then_assoc:
  "and_then (and_then r f) g = and_then r (\<lambda>x. and_then (f x) g)"
  by (cases r) auto

lemma and_then_cong [fundef_cong]:
  "r = r' \<Longrightarrow> (\<And>x. r' = Ok x \<Longrightarrow> f x = f' x) \<Longrightarrow> and_then r f = and_then r' f'"
  by (cases r') auto

lemma map_ok_eq_Ok [simp, result_simps]:
  "map_ok f r = Ok y \<longleftrightarrow> (\<exists>x. r = Ok x \<and> f x = y)"
  by (cases r) auto

lemma map_ok_eq_Err [simp, result_simps]: "map_ok f r = Err e \<longleftrightarrow> r = Err e"
  by (cases r) auto

lemma map_ok_eq_Panic [simp, result_simps]: "map_ok f r = Panic s \<longleftrightarrow> r = Panic s"
  by (cases r) auto

lemma map_err_eq_Ok [simp, result_simps]: "map_err f r = Ok y \<longleftrightarrow> r = Ok y"
  by (cases r) auto

lemma map_err_eq_Panic [simp, result_simps]: "map_err f r = Panic s \<longleftrightarrow> r = Panic s"
  by (cases r) auto

lemma ok_or_eq_Ok [simp, result_simps]: "ok_or v e = Ok y \<longleftrightarrow> v = Some y"
  by (cases v) auto

lemma ok_or_eq_Err [simp, result_simps]: "ok_or v e = Err e' \<longleftrightarrow> v = None \<and> e = e'"
  by (cases v) auto

lemma ok_or_not_Panic [simp, result_simps]: "ok_or v e \<noteq> Panic s"
  by (cases v) auto

lemma expect_eq_Ok [simp, result_simps]: "expect v s = Ok y \<longleftrightarrow> v = Some y"
  by (cases v) auto

lemma expect_ok_eq_Ok [simp, result_simps]: "expect_ok r s = Ok y \<longleftrightarrow> r = Ok y"
  by (cases r) auto

lemma expect_ok_not_Err [simp, result_simps]: "expect_ok r s \<noteq> Err e"
  by (cases r) auto

lemma is_ok_iff: "is_ok r \<longleftrightarrow> (\<exists>x. r = Ok x)"
  by (cases r) auto

lemma is_panic_iff: "is_panic r \<longleftrightarrow> (\<exists>s. r = Panic s)"
  by (cases r) auto

lemma for_each_eq_Ok [simp]:
  "for_each f xs = Ok u \<longleftrightarrow> (\<forall>x \<in> set xs. f x = Ok ())"
  by (induction xs) auto

lemma for_each_not_Panic:
  "(\<And>x s. x \<in> set xs \<Longrightarrow> f x \<noteq> Panic s) \<Longrightarrow> for_each f xs \<noteq> Panic s"
  by (induction xs) (auto simp: and_then_eq_Panic)

lemma try_map_eq_Ok:
  "try_map f xs = Ok ys \<longleftrightarrow> list_all2 (\<lambda>x y. f x = Ok y) xs ys"
  by (induction xs arbitrary: ys) (auto simp: list_all2_Cons1)

lemma try_map_append:
  "try_map f (xs @ ys) = and_then (try_map f xs) (\<lambda>as. and_then (try_map f ys) (\<lambda>bs. Ok (as @ bs)))"
proof (induction xs)
  case Nil
  show ?case by (cases "try_map f ys") simp_all
next
  case (Cons x xs)
  then show ?case
    by (cases "f x"; cases "try_map f xs"; cases "try_map f ys") simp_all
qed

lemma try_map_no_panic: "(\<And>x s. f x \<noteq> Panic s) \<Longrightarrow> try_map f xs \<noteq> Panic s"
  by (induction xs) (auto simp: and_then_eq_Panic)

section \<open>Duplicate detection\<close>

text \<open>The loop over a HashSet whose \<^verbatim>\<open>insert\<close> reports a repeated element.\<close>

fun insert_all_new :: "'a set \<Rightarrow> 'a list \<Rightarrow> 'e \<Rightarrow> ('a set, 'e) result" where
  "insert_all_new seen [] e = Ok seen"
| "insert_all_new seen (x # xs) e =
    (if x \<in> seen then Err e else insert_all_new (insert x seen) xs e)"

lemma insert_all_new_Ok:
  "insert_all_new seen xs e = Ok seen' \<longleftrightarrow> distinct xs \<and> set xs \<inter> seen = {} \<and> seen' = seen \<union> set xs"
  by (induction xs arbitrary: seen) auto

lemma insert_all_new_no_panic: "insert_all_new seen xs e \<noteq> Panic s"
  by (induction xs arbitrary: seen) auto

section \<open>Checked arithmetic on machine words\<close>

definition checked_add :: "'a::len word \<Rightarrow> 'a word \<Rightarrow> 'a word option" where
  "checked_add a b = (if unat a + unat b < 2 ^ LENGTH('a) then Some (a + b) else None)"

definition checked_sub :: "'a::len word \<Rightarrow> 'a word \<Rightarrow> 'a word option" where
  "checked_sub a b = (if b \<le> a then Some (a - b) else None)"

definition checked_mul :: "'a::len word \<Rightarrow> 'a word \<Rightarrow> 'a word option" where
  "checked_mul a b = (if unat a * unat b < 2 ^ LENGTH('a) then Some (a * b) else None)"

definition saturating_sub :: "'a::len word \<Rightarrow> 'a word \<Rightarrow> 'a word" where
  "saturating_sub a b = (if b \<le> a then a - b else 0)"

definition saturating_add :: "'a::len word \<Rightarrow> 'a word \<Rightarrow> 'a word" where
  "saturating_add a b = (if unat a + unat b < 2 ^ LENGTH('a) then a + b else - 1)"

lemma unat_add_no_overflow:
  fixes a b :: "'a::len word"
  shows "unat a + unat b < 2 ^ LENGTH('a) \<Longrightarrow> unat (a + b) = unat a + unat b"
  by (simp add: unat_word_ariths)

lemma unat_mul_no_overflow:
  fixes a b :: "'a::len word"
  shows "unat a * unat b < 2 ^ LENGTH('a) \<Longrightarrow> unat (a * b) = unat a * unat b"
  by (simp add: unat_word_ariths)

lemma unat_less_pow [simp]:
  fixes a :: "'a::len word"
  shows "unat a < 2 ^ LENGTH('a)"
  by (rule unsigned_less)

lemma checked_add_eq_Some:
  fixes a b c :: "'a::len word"
  shows "checked_add a b = Some c \<longleftrightarrow> unat c = unat a + unat b"
proof (cases "unat a + unat b < 2 ^ LENGTH('a)")
  case True
  then show ?thesis by (auto simp: checked_add_def unat_add_no_overflow word_unat_eq_iff)
next
  case False
  then have "unat c \<noteq> unat a + unat b" using unsigned_less [of c] by metis
  with False show ?thesis by (simp add: checked_add_def)
qed

lemma checked_sub_eq_Some:
  fixes a b c :: "'a::len word"
  shows "checked_sub a b = Some c \<longleftrightarrow> unat a = unat c + unat b"
  unfolding checked_sub_def
  by (auto simp: unat_sub_if' word_le_nat_alt word_unat_eq_iff)

lemma checked_mul_eq_Some:
  fixes a b c :: "'a::len word"
  shows "checked_mul a b = Some c \<longleftrightarrow> unat c = unat a * unat b"
proof (cases "unat a * unat b < 2 ^ LENGTH('a)")
  case True
  then show ?thesis by (auto simp: checked_mul_def unat_mul_no_overflow word_unat_eq_iff)
next
  case False
  then have "unat c \<noteq> unat a * unat b" using unsigned_less [of c] by metis
  with False show ?thesis by (simp add: checked_mul_def)
qed

lemma checked_add_eq_None:
  fixes a b :: "'a::len word"
  shows "checked_add a b = None \<longleftrightarrow> 2 ^ LENGTH('a) \<le> unat a + unat b"
  by (auto simp: checked_add_def)

lemma checked_sub_eq_None: "checked_sub a b = None \<longleftrightarrow> a < b"
  by (auto simp: checked_sub_def)

lemma checked_mul_eq_None:
  fixes a b :: "'a::len word"
  shows "checked_mul a b = None \<longleftrightarrow> 2 ^ LENGTH('a) \<le> unat a * unat b"
  by (auto simp: checked_mul_def)

lemma unat_ucast_up:
  fixes x :: "'a::len word"
  assumes "LENGTH('a) \<le> LENGTH('b::len)"
  shows "unat (ucast x :: 'b word) = unat x"
proof -
  have "unat x < 2 ^ LENGTH('b)"
    using unat_less_pow [of x] assms by (meson less_le_trans one_le_numeral power_increasing)
  then show ?thesis by (simp add: unsigned_ucast_eq take_bit_nat_eq_self)
qed

section \<open>Byte encodings of integers\<close>

fun nat_to_le :: "nat \<Rightarrow> nat \<Rightarrow> bytes" where
  "nat_to_le 0 v = []"
| "nat_to_le (Suc k) v = of_nat (v mod 256) # nat_to_le k (v div 256)"

fun le_to_nat :: "bytes \<Rightarrow> nat" where
  "le_to_nat [] = 0"
| "le_to_nat (b # bs) = unat b + 256 * le_to_nat bs"

definition nat_to_be :: "nat \<Rightarrow> nat \<Rightarrow> bytes" where
  "nat_to_be k v = rev (nat_to_le k v)"

definition be_to_nat :: "bytes \<Rightarrow> nat" where
  "be_to_nat bs = le_to_nat (rev bs)"

definition u16_to_le :: "u16 \<Rightarrow> bytes" where "u16_to_le v = nat_to_le 2 (unat v)"
definition u32_to_le :: "u32 \<Rightarrow> bytes" where "u32_to_le v = nat_to_le 4 (unat v)"
definition u64_to_le :: "u64 \<Rightarrow> bytes" where "u64_to_le v = nat_to_le 8 (unat v)"
definition u128_to_le :: "u128 \<Rightarrow> bytes" where "u128_to_le v = nat_to_le 16 (unat v)"
definition u32_to_be :: "u32 \<Rightarrow> bytes" where "u32_to_be v = nat_to_be 4 (unat v)"

definition word_from_le :: "bytes \<Rightarrow> 'a::len word" where
  "word_from_le bs = of_nat (le_to_nat bs)"

lemma unat_u8_of_mod [simp]: "unat (of_nat (v mod 256) :: u8) = v mod 256"
  by (simp add: unat_of_nat)

lemma unat_u8_less [simp]: "unat (b :: u8) < 256"
  using unsigned_less [of b] by simp

lemma length_nat_to_le [simp]: "length (nat_to_le k v) = k"
  by (induction k arbitrary: v) auto

lemma nat_to_le_zero: "nat_to_le k 0 = replicate k 0"
  by (induction k) simp_all

lemma length_nat_to_be [simp]: "length (nat_to_be k v) = k"
  by (simp add: nat_to_be_def)

lemma le_to_nat_nat_to_le [simp]: "le_to_nat (nat_to_le k v) = v mod 256 ^ k"
  by (induction k arbitrary: v) (auto simp: mod_mult2_eq)

lemma nat_to_le_le_to_nat: "k = length bs \<Longrightarrow> nat_to_le k (le_to_nat bs) = bs"
  by (induction bs arbitrary: k) auto

lemma le_to_nat_less: "le_to_nat bs < 256 ^ length bs"
proof (induction bs)
  case (Cons b bs)
  have "unat b + 256 * le_to_nat bs < 256 * Suc (le_to_nat bs)"
    using unat_u8_less [of b] by simp
  also have "\<dots> \<le> 256 * 256 ^ length bs"
    using Cons.IH by (intro mult_le_mono2) simp
  finally show ?case by simp
qed simp

lemma le_to_nat_append:
  "le_to_nat (xs @ ys) = le_to_nat xs + 256 ^ length xs * le_to_nat ys"
  by (induction xs) (auto simp: algebra_simps)

lemma le_to_nat_inject:
  "length xs = length ys \<Longrightarrow> le_to_nat xs = le_to_nat ys \<longleftrightarrow> xs = ys"
  by (metis nat_to_le_le_to_nat)

lemma be_to_nat_inject:
  "length xs = length ys \<Longrightarrow> be_to_nat xs = be_to_nat ys \<longleftrightarrow> xs = ys"
  by (simp add: be_to_nat_def le_to_nat_inject)

lemma be_to_nat_less: "be_to_nat bs < 256 ^ length bs"
  using le_to_nat_less [of "rev bs"] by (simp add: be_to_nat_def)

lemma be_to_nat_nat_to_be [simp]: "be_to_nat (nat_to_be k v) = v mod 256 ^ k"
  by (simp add: be_to_nat_def nat_to_be_def)

lemma nat_to_be_be_to_nat: "k = length bs \<Longrightarrow> nat_to_be k (be_to_nat bs) = bs"
  by (simp add: be_to_nat_def nat_to_be_def nat_to_le_le_to_nat)

lemma be_to_nat_Cons: "be_to_nat (b # bs) = unat b * 256 ^ length bs + be_to_nat bs"
  by (simp add: be_to_nat_def le_to_nat_append)

lemma length_to_le [simp]:
  "length (u16_to_le a) = 2" "length (u32_to_le b) = 4"
  "length (u64_to_le c) = 8" "length (u128_to_le d) = 16" "length (u32_to_be b) = 4"
  by (simp_all add: u16_to_le_def u32_to_le_def u64_to_le_def u128_to_le_def u32_to_be_def)

lemma word_from_le_to_le:
  fixes w :: "'a::len word"
  assumes "LENGTH('a) = 8 * k"
  shows "word_from_le (nat_to_le k (unat w)) = w"
proof -
  have "unat w < 256 ^ k"
    using unat_less_pow [of w] assms by (simp add: power_mult)
  then show ?thesis by (simp add: word_from_le_def)
qed

lemma to_le_word_from_le:
  assumes "LENGTH('a::len) = 8 * k" and "length bs = k"
  shows "nat_to_le k (unat (word_from_le bs :: 'a word)) = bs"
proof -
  have "le_to_nat bs < 2 ^ LENGTH('a)"
    using le_to_nat_less [of bs] assms by (simp add: power_mult)
  then have "unat (word_from_le bs :: 'a word) = le_to_nat bs"
    by (simp add: word_from_le_def unat_of_nat)
  then show ?thesis using assms(2) by (simp add: nat_to_le_le_to_nat)
qed

lemma word_le_round_trip [simp]:
  "word_from_le (u16_to_le a) = a" "word_from_le (u32_to_le b) = b"
  "word_from_le (u64_to_le c) = c" "word_from_le (u128_to_le d) = d"
  by (simp_all add: u16_to_le_def u32_to_le_def u64_to_le_def u128_to_le_def word_from_le_to_le)

lemma word_le_round_trip':
  "length bs = 2 \<Longrightarrow> u16_to_le (word_from_le bs) = bs"
  "length bs = 4 \<Longrightarrow> u32_to_le (word_from_le bs) = bs"
  "length bs = 8 \<Longrightarrow> u64_to_le (word_from_le bs) = bs"
  "length bs = 16 \<Longrightarrow> u128_to_le (word_from_le bs) = bs"
  by (simp_all add: u16_to_le_def u32_to_le_def u64_to_le_def u128_to_le_def to_le_word_from_le)

section \<open>Lists cut and joined\<close>

lemma take_drop_split:
  "m \<le> n \<Longrightarrow> n \<le> length xs \<Longrightarrow> drop m (take n xs) @ drop n xs = drop m xs"
  by (metis append_take_drop_id drop_append diff_is_0_eq drop0 length_take min.absorb2)

lemma try_in_cases:
  "try_in s r f = (s', q) \<longleftrightarrow>
    (\<exists>x. r = Ok x \<and> f x = (s', q)) \<or> s' = s \<and> ((\<exists>e. r = Err e \<and> q = Err e) \<or> (\<exists>p. r = Panic p \<and> q = Panic p))"
  by (cases r) (auto simp: try_in_def)

lemma try_in_simps:
  "try_in s (Ok x) f = f x" "try_in s (Err e) f = (s, Err e)" "try_in s (Panic p) f = (s, Panic p)"
  by (simp_all add: try_in_def)

end
