(* ===== verification/Dom_Core.thy ===== *)
theory Dom_Core
  imports Dom_Prelude
begin

text \<open>
  The crate \<^verbatim>\<open>dom-core\<close>: the error taxonomy (error.rs), the consensus constants and the
  genesis gates (constants.rs), the primitive types Hash256, BlockHeight, Timestamp and
  Amount with their checked arithmetic, and the block subsidy (types.rs).  The lemmas
  show that the frozen reward table is the documented 67-percent recurrence, that the
  subsidies of all heights never sum above the supply ceiling, that amount arithmetic is
  exact or refused, and that a node starts only on a pinned genesis identity.
\<close>

section \<open>Errors\<close>

datatype peer_misbehavior =
    AddressFlooding | HandshakeTimeout | HelloTimeout | WriteTimeout | MessageRateLimit
  | WrongChainId | UnexpectedHello | InvalidPow | InvalidSignature

text \<open>The string of an error is the format template of the source, without the interpolated values.\<close>

datatype dom_error =
    Malformed string
  | Invalid string
  | TemporarilyInvalid string
  | Orphan string
  | PolicyRejected string
  | PeerMisbehavior peer_misbehavior string
  | Internal string

type_synonym 'a dom_result = "('a, dom_error) result"

fun increases_ban_score :: "dom_error \<Rightarrow> bool" where
  "increases_ban_score (Malformed _) = True"
| "increases_ban_score (Invalid _) = True"
| "increases_ban_score (PeerMisbehavior _ _) = True"
| "increases_ban_score _ = False"

fun is_retryable :: "dom_error \<Rightarrow> bool" where
  "is_retryable (TemporarilyInvalid _) = True"
| "is_retryable (Orphan _) = True"
| "is_retryable _ = False"

section \<open>Constants\<close>

definition TARGET_SPACING :: u64 where [dom_consts]: "TARGET_SPACING = 120"
definition ASERT_HALF_LIFE_BLOCKS :: u64 where [dom_consts]: "ASERT_HALF_LIFE_BLOCKS = 288"
definition ASERT_HALF_LIFE :: u64 where
  [dom_consts]: "ASERT_HALF_LIFE = TARGET_SPACING * ASERT_HALF_LIFE_BLOCKS"
definition ASERT_RADIX_BITS :: nat where [dom_consts]: "ASERT_RADIX_BITS = 16"
definition ASERT_RADIX :: u64 where [dom_consts]: "ASERT_RADIX = push_bit ASERT_RADIX_BITS 1"

definition GENESIS_TARGET_COMPACT :: u32 where [dom_consts]: "GENESIS_TARGET_COMPACT = 0x1e00ffff"
definition GENESIS_TIMESTAMP_TESTNET :: u64 where
  [dom_consts]: "GENESIS_TIMESTAMP_TESTNET = 1778642633"
definition GENESIS_TIMESTAMP_MAINNET_PLACEHOLDER :: u64 where
  [dom_consts]: "GENESIS_TIMESTAMP_MAINNET_PLACEHOLDER = GENESIS_TIMESTAMP_TESTNET"
definition GENESIS_TIMESTAMP_MAINNET :: u64 where
  [dom_consts]: "GENESIS_TIMESTAMP_MAINNET = 1784071429"
definition GENESIS_TIMESTAMP_REGTEST :: u64 where
  [dom_consts]: "GENESIS_TIMESTAMP_REGTEST = GENESIS_TIMESTAMP_MAINNET"

definition COIN_UNIT :: u64 where [dom_consts]: "COIN_UNIT = 100000000"
definition INITIAL_BLOCK_REWARD :: u64 where [dom_consts]: "INITIAL_BLOCK_REWARD = 33 * COIN_UNIT"
definition HALVING_INTERVAL :: u64 where [dom_consts]: "HALVING_INTERVAL = 330000"
definition HALVING_EPOCHS :: u32 where [dom_consts]: "HALVING_EPOCHS = 55"
definition COINBASE_MATURITY :: u64 where [dom_consts]: "COINBASE_MATURITY = 1000"
definition REGTEST_COINBASE_MATURITY :: u64 where [dom_consts]: "REGTEST_COINBASE_MATURITY = 1"

definition BLOCK_REWARD_TABLE :: "u64 list" where
  "BLOCK_REWARD_TABLE =
    [3300000000, 2211000000, 1481370000, 992517900, 664986993, 445541285, 298512660, 200003482,
     134002332, 89781562, 60153646, 40302942, 27002971, 18091990, 12121633, 8121494,
     5441400, 3645738, 2442644, 1636571, 1096502, 734656, 492219, 329786,
     220956, 148040, 99186, 66454, 44524, 29831, 19986, 13390,
     8971, 6010, 4026, 2697, 1806, 1210, 810, 542,
     363, 243, 162, 108, 72, 48, 32, 21,
     14, 9, 6, 4, 2, 1, 0]"

definition MAX_BLOCK_WEIGHT :: u32 where [dom_consts]: "MAX_BLOCK_WEIGHT = 40000"
definition MAX_TX_WEIGHT :: u32 where [dom_consts]: "MAX_TX_WEIGHT = 4000"
definition MAX_INPUTS_PER_TX :: nat where [dom_consts]: "MAX_INPUTS_PER_TX = 255"
definition MAX_OUTPUTS_PER_TX :: nat where [dom_consts]: "MAX_OUTPUTS_PER_TX = 255"
definition MAX_KERNELS_PER_TX :: nat where [dom_consts]: "MAX_KERNELS_PER_TX = 16"
definition MAX_BLOCK_TXS :: nat where [dom_consts]: "MAX_BLOCK_TXS = 5000"
definition MAX_PROOF_SIZE :: nat where [dom_consts]: "MAX_PROOF_SIZE = 768"
definition RECOVERY_CAPSULE_SIZE :: nat where [dom_consts]: "RECOVERY_CAPSULE_SIZE = 96"
definition MAX_OUTPUT_PROOF_ENVELOPE_SIZE :: nat where
  [dom_consts]: "MAX_OUTPUT_PROOF_ENVELOPE_SIZE = 739 + RECOVERY_CAPSULE_SIZE"
definition MAX_BLOCK_SERIALIZED_SIZE :: nat where
  [dom_consts]: "MAX_BLOCK_SERIALIZED_SIZE = 16 * 1024 * 1024"

definition MAX_FUTURE_BLOCK_TIME :: u64 where [dom_consts]: "MAX_FUTURE_BLOCK_TIME = 120"
definition TESTNET_MAX_FUTURE_BLOCK_TIME :: u64 where
  [dom_consts]: "TESTNET_MAX_FUTURE_BLOCK_TIME = 30"
definition FUTURE_BLOCK_SOFT_BUFFER_SECS :: u64 where
  [dom_consts]: "FUTURE_BLOCK_SOFT_BUFFER_SECS = 60"
definition TESTNET_FUTURE_BLOCK_SOFT_BUFFER_SECS :: u64 where
  [dom_consts]: "TESTNET_FUTURE_BLOCK_SOFT_BUFFER_SECS = 15"
definition MEDIAN_TIME_WINDOW :: nat where [dom_consts]: "MEDIAN_TIME_WINDOW = 11"

definition BLOCK_VERSION_LEGACY :: u32 where [dom_consts]: "BLOCK_VERSION_LEGACY = 2"
definition BLOCK_VERSION_V3 :: u32 where [dom_consts]: "BLOCK_VERSION_V3 = 3"
definition MAINNET_V3_ACTIVATION_HEIGHT :: u64 where
  [dom_consts]: "MAINNET_V3_ACTIVATION_HEIGHT = 12500"
definition TESTNET_V3_ACTIVATION_HEIGHT :: u64 where
  [dom_consts]: "TESTNET_V3_ACTIVATION_HEIGHT = 1"
definition REGTEST_V3_ACTIVATION_HEIGHT :: u64 where
  [dom_consts]: "REGTEST_V3_ACTIVATION_HEIGHT = 1"

definition NETWORK_MAGIC_MAINNET :: u32 where [dom_consts]: "NETWORK_MAGIC_MAINNET = 0x444F4D31"
definition NETWORK_MAGIC_TESTNET :: u32 where [dom_consts]: "NETWORK_MAGIC_TESTNET = 0x444F4D54"
definition NETWORK_MAGIC_REGTEST :: u32 where [dom_consts]: "NETWORK_MAGIC_REGTEST = 0x444F4D52"

definition MIN_RELAY_FEE_RATE :: u64 where [dom_consts]: "MIN_RELAY_FEE_RATE = 1000"

definition MIN_TARGET_BYTES :: bytes where
  [dom_consts]: "MIN_TARGET_BYTES = (replicate 32 0)[26 := 0xff, 27 := 0xff]"
definition MAX_TARGET_BYTES :: bytes where
  [dom_consts]: "MAX_TARGET_BYTES = (replicate 32 0xff)[0 := 0, 1 := 0]"

definition KERNEL_FEAT_PLAIN :: u8 where [dom_consts]: "KERNEL_FEAT_PLAIN = 0"
definition KERNEL_FEAT_COINBASE :: u8 where [dom_consts]: "KERNEL_FEAT_COINBASE = 1"
definition KERNEL_FEAT_HEIGHT_LOCKED :: u8 where [dom_consts]: "KERNEL_FEAT_HEIGHT_LOCKED = 2"
definition WEIGHT_INPUT :: u32 where [dom_consts]: "WEIGHT_INPUT = 1"
definition WEIGHT_OUTPUT :: u32 where [dom_consts]: "WEIGHT_OUTPUT = 21"
definition WEIGHT_KERNEL :: u32 where [dom_consts]: "WEIGHT_KERNEL = 3"
definition WEIGHT_COINBASE_KERNEL :: u32 where [dom_consts]: "WEIGHT_COINBASE_KERNEL = 2"

text \<open>Domain tags are the bytes of an ASCII string.\<close>

definition ascii :: "string \<Rightarrow> bytes" where
  "ascii s = map (\<lambda>c. of_nat (of_char c)) s"

definition TAG_KERNEL_SIG :: bytes where "TAG_KERNEL_SIG = ascii ''DOM:kernel-sig:v1''"
definition TAG_KERNEL_MSG :: bytes where "TAG_KERNEL_MSG = ascii ''DOM:kernel-msg:v1''"
definition TAG_KERNEL_MSG_COINBASE :: bytes where
  "TAG_KERNEL_MSG_COINBASE = ascii ''DOM:kernel-msg:coinbase:v1''"
definition TAG_CHAIN_ID :: bytes where "TAG_CHAIN_ID = ascii ''DOM:chain-id:v1''"
definition TAG_BLOCK_BODY_COMMITMENT :: bytes where
  "TAG_BLOCK_BODY_COMMITMENT = ascii ''DOM:block-body-commitment:v1''"
definition TAG_BOUND_RANGEPROOF_ROOT :: bytes where
  "TAG_BOUND_RANGEPROOF_ROOT = ascii ''DOM:bound-rangeproof-root:v1''"
definition TAG_PMMR_EMPTY :: bytes where "TAG_PMMR_EMPTY = ascii ''DOM:pmmr-empty:v1''"
definition TAG_PMMR_BAG :: bytes where "TAG_PMMR_BAG = ascii ''DOM:pmmr-bag:v1''"
definition TAG_PMMR_LEAF :: bytes where "TAG_PMMR_LEAF = ascii ''DOM:pmmr-leaf:v1''"
definition TAG_PMMR_NODE :: bytes where "TAG_PMMR_NODE = ascii ''DOM:pmmr-node:v1''"

section \<open>Primitive types\<close>

datatype hash256 = Hash256 (as_bytes: bytes)
datatype block_height = BlockHeight (height_val: u64)
datatype timestamp = Timestamp (secs: u64)
datatype amount = Amount (noms: u64)

definition hash256_ok :: "hash256 \<Rightarrow> bool" where
  "hash256_ok h = (length (as_bytes h) = 32)"

definition Hash256_ZERO :: hash256 where "Hash256_ZERO = Hash256 (replicate 32 0)"

instantiation block_height :: linorder
begin

definition less_eq_block_height :: "block_height \<Rightarrow> block_height \<Rightarrow> bool" where
  "less_eq_block_height a b = (height_val a \<le> height_val b)"

definition less_block_height :: "block_height \<Rightarrow> block_height \<Rightarrow> bool" where
  "less_block_height a b = (height_val a < height_val b)"

instance
  by standard (auto simp: less_eq_block_height_def less_block_height_def block_height.expand)

end

instantiation timestamp :: linorder
begin

definition less_eq_timestamp :: "timestamp \<Rightarrow> timestamp \<Rightarrow> bool" where
  "less_eq_timestamp a b = (secs a \<le> secs b)"

definition less_timestamp :: "timestamp \<Rightarrow> timestamp \<Rightarrow> bool" where
  "less_timestamp a b = (secs a < secs b)"

instance
  by standard (auto simp: less_eq_timestamp_def less_timestamp_def timestamp.expand)

end

instantiation amount :: linorder
begin

definition less_eq_amount :: "amount \<Rightarrow> amount \<Rightarrow> bool" where
  "less_eq_amount a b = (noms a \<le> noms b)"

definition less_amount :: "amount \<Rightarrow> amount \<Rightarrow> bool" where
  "less_amount a b = (noms a < noms b)"

instance
  by standard (auto simp: less_eq_amount_def less_amount_def amount.expand)

end

definition BlockHeight_checked_next :: "block_height \<Rightarrow> block_height option" where
  "BlockHeight_checked_next h = map_option BlockHeight (checked_add (height_val h) 1)"

definition halving_epoch :: "block_height \<Rightarrow> u64" where
  "halving_epoch h = height_val h div HALVING_INTERVAL"

definition Timestamp_checked_sub :: "timestamp \<Rightarrow> timestamp \<Rightarrow> u64 option" where
  "Timestamp_checked_sub a b = checked_sub (secs a) (secs b)"

definition Timestamp_checked_add_secs :: "timestamp \<Rightarrow> u64 \<Rightarrow> timestamp option" where
  "Timestamp_checked_add_secs t n = map_option Timestamp (checked_add (secs t) n)"

section \<open>Supply ceiling\<close>

text \<open>
  The \<^verbatim>\<open>while\<close> loop of \<^verbatim>\<open>maximum_supply_from_schedule\<close>: one step per epoch of the table,
  every multiplication and addition checked, a failed check being a panic.
\<close>

function supply_loop :: "nat \<Rightarrow> u64 \<Rightarrow> u64 dom_result" where
  "supply_loop epoch acc =
    (if epoch < length BLOCK_REWARD_TABLE then
       and_then (if epoch = 0 then expect (checked_sub HALVING_INTERVAL 1) ''HALVING_INTERVAL underflow''
                 else Ok HALVING_INTERVAL) (\<lambda>blocks.
       and_then (expect (checked_mul (BLOCK_REWARD_TABLE ! epoch) blocks)
                   ''maximum issuance multiplication overflow'') (\<lambda>issued.
       and_then (expect (checked_add acc issued) ''maximum issuance addition overflow'') (\<lambda>acc'.
       and_then (expect (usize_checked_add epoch 1) ''reward schedule index overflow'') (\<lambda>epoch'.
       supply_loop epoch' acc'))))
     else Ok acc)"
  by pat_completeness auto
termination
  by (relation "measure (\<lambda>(epoch, _). length BLOCK_REWARD_TABLE - epoch)")
    (auto simp: usize_checked_add_def split: if_splits)

declare supply_loop.simps [simp del]

definition maximum_supply_from_schedule :: "u64 dom_result" where
  "maximum_supply_from_schedule = supply_loop 0 0"

definition MAX_SUPPLY_NOMS :: u64 where
  "MAX_SUPPLY_NOMS = (case maximum_supply_from_schedule of Ok v \<Rightarrow> v | _ \<Rightarrow> 0)"

section \<open>Amounts and the block subsidy\<close>

definition is_valid_noms :: "u64 \<Rightarrow> bool" where
  "is_valid_noms n = (n \<le> MAX_SUPPLY_NOMS)"

definition from_noms :: "u64 \<Rightarrow> amount dom_result" where
  "from_noms n =
    (if \<not> is_valid_noms n then Err (Invalid ''amount exceeds MAX_SUPPLY_NOMS'') else Ok (Amount n))"

definition checked_add_noms :: "amount \<Rightarrow> amount \<Rightarrow> u64 option" where
  "checked_add_noms a b =
    (case checked_add (noms a) (noms b) of
       Some s \<Rightarrow> if is_valid_noms s then Some s else None
     | None \<Rightarrow> None)"

definition checked_sub_noms :: "amount \<Rightarrow> amount \<Rightarrow> u64 option" where
  "checked_sub_noms a b = checked_sub (noms a) (noms b)"

definition Amount_checked_add :: "amount \<Rightarrow> amount \<Rightarrow> amount dom_result" where
  "Amount_checked_add a b =
    (case checked_add_noms a b of
       Some s \<Rightarrow> Ok (Amount s)
     | None \<Rightarrow>
         (case checked_add (noms a) (noms b) of
            None \<Rightarrow> Err (Invalid ''amount addition overflow'')
          | Some s \<Rightarrow> Err (Invalid ''amount exceeds MAX_SUPPLY_NOMS'')))"

definition Amount_checked_sub :: "amount \<Rightarrow> amount \<Rightarrow> amount dom_result" where
  "Amount_checked_sub a b =
    ok_or (map_option Amount (checked_sub_noms a b)) (Invalid ''amount subtraction underflow'')"

definition block_reward :: "block_height \<Rightarrow> amount" where
  "block_reward height =
    (let epoch = halving_epoch height in
     if ucast HALVING_EPOCHS \<le> epoch then Amount 0
     else Amount (BLOCK_REWARD_TABLE ! unat epoch))"

section \<open>Block versions\<close>

definition required_block_version :: "u64 \<Rightarrow> u32" where
  "required_block_version height =
    (if MAINNET_V3_ACTIVATION_HEIGHT \<le> height then BLOCK_VERSION_V3 else BLOCK_VERSION_LEGACY)"

definition required_block_version_for_network :: "u32 \<Rightarrow> u64 \<Rightarrow> u32" where
  "required_block_version_for_network network_magic height =
    (let activation_height =
       (if network_magic = NETWORK_MAGIC_TESTNET then TESTNET_V3_ACTIVATION_HEIGHT
        else if network_magic = NETWORK_MAGIC_REGTEST then REGTEST_V3_ACTIVATION_HEIGHT
        else MAINNET_V3_ACTIVATION_HEIGHT)
     in if activation_height \<le> height then BLOCK_VERSION_V3 else BLOCK_VERSION_LEGACY)"

section \<open>Genesis identity gates\<close>

definition GENESIS_HASH_TESTNET :: bytes where
  [dom_consts]: "GENESIS_HASH_TESTNET =
    [0x2a, 0xb5, 0xe6, 0xc7, 0x36, 0x07, 0xe8, 0xbf, 0xbb, 0xec, 0x2d, 0x4c, 0xe3, 0xea, 0x14, 0x19,
     0xcd, 0xa2, 0x9a, 0xe6, 0x89, 0x2e, 0x7f, 0x1c, 0x24, 0xfa, 0xcc, 0x46, 0x5c, 0xd6, 0x58, 0x21]"

definition GENESIS_HASH_MAINNET :: bytes where
  [dom_consts]: "GENESIS_HASH_MAINNET =
    [0x18, 0x2e, 0x10, 0xaf, 0x28, 0xe7, 0xec, 0x07, 0x2f, 0x46, 0x2e, 0x60, 0x44, 0xf5, 0x80, 0xdc,
     0x9d, 0xd8, 0xc8, 0x66, 0xcb, 0x78, 0xdf, 0xc2, 0x93, 0xbb, 0xfa, 0xee, 0x4e, 0x93, 0x25, 0xce]"

definition GENESIS_HASH_REGTEST :: bytes where
  [dom_consts]: "GENESIS_HASH_REGTEST =
    [0xfd, 0xda, 0x02, 0x7e, 0x4a, 0x46, 0xdd, 0x36, 0x67, 0x17, 0xc6, 0xe0, 0xa9, 0x76, 0xbf, 0x3e,
     0x0a, 0x75, 0x12, 0xc5, 0xed, 0xf0, 0x84, 0x70, 0xb0, 0xdc, 0xa9, 0x9d, 0xde, 0xe3, 0xfe, 0x1f]"

definition MAINNET_GENESIS_FINALIZED :: bool where
  [dom_consts]: "MAINNET_GENESIS_FINALIZED = True"

definition is_placeholder_genesis_hash :: "bytes \<Rightarrow> bool" where
  "is_placeholder_genesis_hash hash = list_all (\<lambda>b. b = 0) (take 32 hash)"

definition is_valid_mainnet_genesis_hash :: "bytes \<Rightarrow> bool" where
  "is_valid_mainnet_genesis_hash hash =
    (hash \<noteq> GENESIS_HASH_TESTNET \<and> hash \<noteq> GENESIS_HASH_REGTEST
      \<and> \<not> is_placeholder_genesis_hash hash)"

definition validate_mainnet_genesis_hash :: "bytes \<Rightarrow> unit dom_result" where
  "validate_mainnet_genesis_hash hash =
    (if is_valid_mainnet_genesis_hash hash then Ok ()
     else if hash = GENESIS_HASH_TESTNET then
       Err (Invalid ''mainnet genesis is not finalized: GENESIS_HASH_MAINNET must not alias GENESIS_HASH_TESTNET'')
     else if hash = GENESIS_HASH_REGTEST then
       Err (Invalid ''mainnet genesis is not finalized: GENESIS_HASH_MAINNET must not alias GENESIS_HASH_REGTEST'')
     else
       Err (Invalid ''mainnet genesis is not finalized: GENESIS_HASH_MAINNET is still the zero placeholder''))"

definition genesis_timestamp_for_network_magic :: "u32 \<Rightarrow> u64 dom_result" where
  "genesis_timestamp_for_network_magic network_magic =
    (if network_magic = NETWORK_MAGIC_MAINNET then Ok GENESIS_TIMESTAMP_MAINNET
     else if network_magic = NETWORK_MAGIC_TESTNET then Ok GENESIS_TIMESTAMP_TESTNET
     else if network_magic = NETWORK_MAGIC_REGTEST then Ok GENESIS_TIMESTAMP_REGTEST
     else Err (Invalid ''unknown network magic for genesis timestamp''))"

definition configured_genesis_hash_for_network_magic :: "u32 \<Rightarrow> hash256 dom_result" where
  "configured_genesis_hash_for_network_magic network_magic =
    (if network_magic = NETWORK_MAGIC_MAINNET then Ok (Hash256 GENESIS_HASH_MAINNET)
     else if network_magic = NETWORK_MAGIC_TESTNET then Ok (Hash256 GENESIS_HASH_TESTNET)
     else if network_magic = NETWORK_MAGIC_REGTEST then Ok (Hash256 GENESIS_HASH_REGTEST)
     else Err (Invalid ''unknown network magic for genesis hash''))"

definition ensure_network_genesis_ready :: "u32 \<Rightarrow> unit dom_result" where
  "ensure_network_genesis_ready network_magic =
    (if network_magic = 0 then
       Err (Invalid ''mainnet genesis is not finalized: NETWORK_MAGIC_MAINNET is still the placeholder value'')
     else if network_magic \<noteq> NETWORK_MAGIC_MAINNET then Ok ()
     else if \<not> MAINNET_GENESIS_FINALIZED then
       Err (Invalid ''mainnet genesis is not finalized: genesis ceremony not finalized; see docs/GENESIS_CEREMONY.md'')
     else
       and_then (validate_mainnet_genesis_hash GENESIS_HASH_MAINNET) (\<lambda>_.
       and_then (genesis_timestamp_for_network_magic network_magic) (\<lambda>mainnet_timestamp.
       if mainnet_timestamp = GENESIS_TIMESTAMP_MAINNET_PLACEHOLDER then
         Err (Invalid ''mainnet genesis is not finalized: GENESIS_TIMESTAMP_MAINNET is still the placeholder value'')
       else Ok ())))"

definition startup_genesis_hash_for_network_magic :: "u32 \<Rightarrow> hash256 dom_result" where
  "startup_genesis_hash_for_network_magic network_magic =
    and_then (ensure_network_genesis_ready network_magic) (\<lambda>_.
      configured_genesis_hash_for_network_magic network_magic)"

section \<open>The reward table and the supply ceiling\<close>

lemma length_BLOCK_REWARD_TABLE [simp]: "length BLOCK_REWARD_TABLE = 55"
  by (simp add: BLOCK_REWARD_TABLE_def)

lemma reward_table_head: "BLOCK_REWARD_TABLE ! 0 = 3300000000"
  by (simp add: BLOCK_REWARD_TABLE_def)

lemma reward_table_recurrence_list:
  "map unat (tl BLOCK_REWARD_TABLE) = map (\<lambda>r. unat r * 67 div 100) (butlast BLOCK_REWARD_TABLE)"
  by (simp add: BLOCK_REWARD_TABLE_def)

lemma reward_table_step:
  assumes "Suc e < 55"
  shows "unat (BLOCK_REWARD_TABLE ! Suc e) = unat (BLOCK_REWARD_TABLE ! e) * 67 div 100"
proof -
  have "map unat (tl BLOCK_REWARD_TABLE) ! e
      = map (\<lambda>r. unat r * 67 div 100) (butlast BLOCK_REWARD_TABLE) ! e"
    by (simp only: reward_table_recurrence_list)
  then show ?thesis using assms by (simp add: nth_tl nth_butlast)
qed

lemma reward_table_sum: "sum_list (map unat BLOCK_REWARD_TABLE) = 9999999930"
  by (simp add: BLOCK_REWARD_TABLE_def)

lemma reward_table_last: "BLOCK_REWARD_TABLE ! 54 = 0"
  by (simp add: BLOCK_REWARD_TABLE_def)

lemma reward_table_antimono:
  "i \<le> j \<Longrightarrow> j < 55 \<Longrightarrow> unat (BLOCK_REWARD_TABLE ! j) \<le> unat (BLOCK_REWARD_TABLE ! i)"
proof (induction j)
  case (Suc j)
  show ?case
  proof (cases "i = Suc j")
    case False
    then have "unat (BLOCK_REWARD_TABLE ! j) \<le> unat (BLOCK_REWARD_TABLE ! i)"
      using Suc by simp
    moreover have "unat (BLOCK_REWARD_TABLE ! Suc j) \<le> unat (BLOCK_REWARD_TABLE ! j)"
      using Suc.prems(2) by (simp add: reward_table_step)
    ultimately show ?thesis by simp
  qed simp
qed simp

lemma supply_loop_exact:
  assumes "1 \<le> e" "e \<le> 55"
    and "unat acc + 330000 * sum_list (map unat (drop e BLOCK_REWARD_TABLE)) < 2 ^ 64"
  shows "supply_loop e acc
    = Ok (of_nat (unat acc + 330000 * sum_list (map unat (drop e BLOCK_REWARD_TABLE))))"
  using assms
proof (induction "55 - e" arbitrary: e acc)
  case 0
  then show ?case by (simp add: supply_loop.simps)
next
  case (Suc d)
  then have e: "e < 55" by simp
  define r where "r = BLOCK_REWARD_TABLE ! e"
  define rest where "rest = sum_list (map unat (drop (Suc e) BLOCK_REWARD_TABLE))"
  have split: "sum_list (map unat (drop e BLOCK_REWARD_TABLE)) = unat r + rest"
    using e by (simp add: r_def rest_def Cons_nth_drop_Suc [symmetric])
  have fits: "unat acc + 330000 * unat r + 330000 * rest < 2 ^ 64"
    using Suc.prems(3) by (simp add: split algebra_simps)
  have mul: "checked_mul r HALVING_INTERVAL = Some (r * 330000)"
    using fits by (simp add: checked_mul_def HALVING_INTERVAL_def)
  have unat_mul: "unat (r * 330000) = 330000 * unat r"
    using fits by (simp add: unat_mul_no_overflow)
  have add: "checked_add acc (r * 330000) = Some (acc + r * 330000)"
    using fits by (simp add: checked_add_def unat_mul)
  have unat_add: "unat (acc + r * 330000) = unat acc + 330000 * unat r"
    using fits by (simp add: unat_add_no_overflow unat_mul)
  have "supply_loop e acc = supply_loop (Suc e) (acc + r * 330000)"
    using e Suc.prems(1)
    by (subst supply_loop.simps)
      (simp add: r_def [symmetric] mul add usize_checked_add_def USIZE_LIMIT_def)
  also have "\<dots> = Ok (of_nat (unat (acc + r * 330000) + 330000 * rest))"
    unfolding rest_def by (rule Suc.hyps(1)) (use Suc e fits unat_add in \<open>auto simp: rest_def\<close>)
  also have "unat (acc + r * 330000) + 330000 * rest
      = unat acc + 330000 * sum_list (map unat (drop e BLOCK_REWARD_TABLE))"
    by (simp add: split unat_add algebra_simps)
  finally show ?case .
qed

lemma reward_table_tail_sum: "sum_list (map unat (drop 1 BLOCK_REWARD_TABLE)) = 6699999930"
  by (simp add: BLOCK_REWARD_TABLE_def)

lemma maximum_supply_value: "maximum_supply_from_schedule = Ok 3299996676900000"
proof -
  have "maximum_supply_from_schedule = supply_loop 1 (3300000000 * 329999)"
    unfolding maximum_supply_from_schedule_def
    by (subst supply_loop.simps)
      (simp add: reward_table_head HALVING_INTERVAL_def checked_sub_def checked_mul_def
        checked_add_def usize_checked_add_def USIZE_LIMIT_def)
  also have "\<dots> = Ok 3299996676900000"
    by (subst supply_loop_exact) (simp_all only: reward_table_tail_sum, simp_all)
  finally show ?thesis .
qed

lemma MAX_SUPPLY_NOMS_value [dom_consts]: "MAX_SUPPLY_NOMS = 3299996676900000"
  by (simp add: MAX_SUPPLY_NOMS_def maximum_supply_value)

definition subsidy_at :: "nat \<Rightarrow> nat" where
  "subsidy_at h = (if h div 330000 < 55 then unat (BLOCK_REWARD_TABLE ! (h div 330000)) else 0)"

lemma unat_block_reward: "unat (noms (block_reward (BlockHeight h))) = subsidy_at (unat h)"
proof -
  have epoch: "unat (h div 330000) = unat h div 330000"
    by (simp add: unat_div)
  have "(55 :: u64) \<le> h div 330000 \<longleftrightarrow> 55 \<le> unat h div 330000"
    by (simp add: word_le_nat_alt epoch)
  then show ?thesis
    by (auto simp: block_reward_def halving_epoch_def subsidy_at_def HALVING_INTERVAL_def
        HALVING_EPOCHS_def epoch Let_def not_le)
qed

lemma subsidy_at_antimono: "h \<le> h' \<Longrightarrow> subsidy_at h' \<le> subsidy_at h"
  using div_le_mono [of h h' 330000]
  by (auto simp: subsidy_at_def intro: reward_table_antimono)

lemma subsidy_sum_epochs: "(\<Sum>h < k * 330000. subsidy_at h) = (\<Sum>e < k. 330000 * subsidy_at (e * 330000))"
proof -
  have "(\<Sum>h < k * 330000. subsidy_at h) = (\<Sum>e < k. \<Sum>h = e * 330000..<e * 330000 + 330000. subsidy_at h)"
    by (rule sum.nat_group [symmetric])
  also have "\<dots> = (\<Sum>e < k. \<Sum>h = e * 330000..<e * 330000 + 330000. subsidy_at (e * 330000))"
  proof (intro sum.cong refl)
    fix e h :: nat
    assume "h \<in> {e * 330000..<e * 330000 + 330000}"
    then have "h div 330000 = e" by (auto intro!: div_nat_eqI)
    then show "subsidy_at h = subsidy_at (e * 330000)" by (simp add: subsidy_at_def)
  qed
  finally show ?thesis by simp
qed

lemma subsidy_sum_all: "(\<Sum>h < 55 * 330000. subsidy_at h) = 3299999976900000"
proof -
  have "(\<Sum>h < 55 * 330000. subsidy_at h) = 330000 * (\<Sum>e < 55. unat (BLOCK_REWARD_TABLE ! e))"
    unfolding subsidy_sum_epochs sum_distrib_left
    by (intro sum.cong) (auto simp: subsidy_at_def)
  also have "(\<Sum>e < 55. unat (BLOCK_REWARD_TABLE ! e)) = 9999999930"
    using reward_table_sum by (simp add: sum_list_sum_nth atLeast0LessThan)
  finally show ?thesis by simp
qed

lemma subsidy_zero_late: "54 * 330000 \<le> h \<Longrightarrow> subsidy_at h = 0"
proof -
  assume "54 * 330000 \<le> h"
  then have "54 \<le> h div 330000" by (simp add: less_eq_div_iff_mult_less_eq)
  then have "h div 330000 = 54 \<or> \<not> h div 330000 < 55" by linarith
  then show ?thesis by (auto simp: subsidy_at_def reward_table_last)
qed

lemma subsidy_sum_from_one:
  "54 * 330000 \<le> Suc n \<Longrightarrow> (\<Sum>h = 1..n. subsidy_at h) = 3299996676900000"
proof -
  assume n: "54 * 330000 \<le> Suc n"
  have "(\<Sum>h < Suc n. subsidy_at h) = (\<Sum>h < 54 * 330000. subsidy_at h)"
    using n by (intro sum.mono_neutral_right) (auto simp: not_less intro: subsidy_zero_late)
  also have "\<dots> = (\<Sum>h < 55 * 330000. subsidy_at h)"
    by (intro sum.mono_neutral_left) (auto simp: not_less intro: subsidy_zero_late)
  finally have "(\<Sum>h < Suc n. subsidy_at h) = 3299999976900000"
    by (simp only: subsidy_sum_all)
  moreover have "(\<Sum>h < Suc n. subsidy_at h) = subsidy_at 0 + (\<Sum>h = 1..n. subsidy_at h)"
    by (subst sum.lessThan_Suc_shift) (simp add: sum.atLeast1_atMost_eq)
  moreover have "subsidy_at 0 = 3300000000"
    by (simp add: subsidy_at_def reward_table_head)
  ultimately show ?thesis by simp
qed

lemma subsidy_sum_le: "(\<Sum>h = 1..n. subsidy_at h) \<le> 3299996676900000"
proof -
  have "(\<Sum>h = 1..n. subsidy_at h) \<le> (\<Sum>h = 1..n + 54 * 330000. subsidy_at h)"
    by (intro sum_mono2) auto
  also have "\<dots> = 3299996676900000" by (rule subsidy_sum_from_one) simp
  finally show ?thesis .
qed



lemma subsidy_at_next_epoch: "subsidy_at (h + 330000) = subsidy_at h * 67 div 100"
proof -
  define e where "e = h div 330000"
  have next_epoch: "(h + 330000) div 330000 = Suc e"
    by (simp add: e_def)
  consider "Suc e < 55" | "e = 54" | "55 \<le> e" by linarith
  then show ?thesis
    by cases (simp_all add: subsidy_at_def next_epoch e_def [symmetric] reward_table_step
        reward_table_last del: One_nat_def)
qed

text \<open>
  The subsidy follows the documented recurrence at every height: one halving interval
  later the reward is 67 percent of the current one, rounded down, also across the end of
  the frozen table; the table lookup never leaves the table.
\<close>

theorem block_reward_recurrence:
  assumes "checked_add h HALVING_INTERVAL = Some h'"
  shows "unat (noms (block_reward (BlockHeight h')))
    = unat (noms (block_reward (BlockHeight h))) * 67 div 100"
  using assms
  by (simp add: unat_block_reward checked_add_eq_Some HALVING_INTERVAL_def subsidy_at_next_epoch)

theorem block_reward_recurrence_witness:
  "unat (noms (block_reward (BlockHeight 330000))) = unat (noms (block_reward (BlockHeight 0))) * 67 div 100
   \<and> noms (block_reward (BlockHeight 0)) = INITIAL_BLOCK_REWARD"
  using block_reward_recurrence [of 0 330000]
  by (simp add: checked_add_def HALVING_INTERVAL_def block_reward_def halving_epoch_def
      HALVING_EPOCHS_def reward_table_head INITIAL_BLOCK_REWARD_def COIN_UNIT_def)

lemma block_reward_antimono: "h \<le> h' \<Longrightarrow> block_reward h' \<le> block_reward h"
  using subsidy_at_antimono [of "unat (height_val h)" "unat (height_val h')"]
  by (cases h; cases h')
    (simp add: less_eq_amount_def less_eq_block_height_def word_le_nat_alt unat_block_reward)

lemma block_reward_valid: "is_valid_noms (noms (block_reward h))"
proof -
  obtain h' where h: "h = BlockHeight h'" by (cases h)
  have "subsidy_at (unat h') \<le> subsidy_at 0" by (rule subsidy_at_antimono) simp
  then show ?thesis
    by (simp add: h is_valid_noms_def word_le_nat_alt unat_block_reward MAX_SUPPLY_NOMS_value
        subsidy_at_def reward_table_head)
qed

section \<open>Amount arithmetic\<close>

definition amount_ok :: "amount \<Rightarrow> bool" where
  "amount_ok a = is_valid_noms (noms a)"

lemma from_noms_Ok: "from_noms n = Ok a \<longleftrightarrow> a = Amount n \<and> is_valid_noms n"
  by (auto simp: from_noms_def)

lemma Amount_checked_add_Ok:
  "Amount_checked_add a b = Ok c \<longleftrightarrow> unat (noms c) = unat (noms a) + unat (noms b) \<and> amount_ok c"
proof (cases "checked_add (noms a) (noms b)")
  case None
  then have "unat (noms c) \<noteq> unat (noms a) + unat (noms b)" 
    using checked_add_eq_Some [of "noms a" "noms b" "noms c"] by auto
  with None show ?thesis by (simp add: Amount_checked_add_def checked_add_noms_def)
next
  case (Some s)
  then have s: "unat s = unat (noms a) + unat (noms b)" by (simp add: checked_add_eq_Some)
  with Some show ?thesis
    by (cases c) (auto simp: Amount_checked_add_def checked_add_noms_def amount_ok_def
        word_unat_eq_iff is_valid_noms_def word_le_nat_alt split: if_splits)
qed

lemma Amount_checked_sub_Ok:
  "Amount_checked_sub a b = Ok c \<longleftrightarrow> unat (noms a) = unat (noms c) + unat (noms b)"
  by (cases c) (auto simp: Amount_checked_sub_def checked_sub_noms_def checked_sub_eq_Some)

text \<open>
  Amount arithmetic is exact or refused.  On valid amounts, addition returns the
  mathematical sum when it is within the supply ceiling and an Invalid error otherwise;
  subtraction returns the difference when it is non-negative and an Invalid error
  otherwise; both keep amounts valid and neither wraps or panics.
\<close>

theorem amount_arithmetic_exact:
  assumes "amount_ok a" and "amount_ok b"
  shows "(if unat (noms a) + unat (noms b) \<le> unat MAX_SUPPLY_NOMS
      then Amount_checked_add a b = Ok (Amount (noms a + noms b)) \<and> amount_ok (Amount (noms a + noms b))
        \<and> unat (noms a + noms b) = unat (noms a) + unat (noms b)
      else Amount_checked_add a b = Err (Invalid ''amount exceeds MAX_SUPPLY_NOMS''))
    \<and> (if noms b \<le> noms a
      then Amount_checked_sub a b = Ok (Amount (noms a - noms b)) \<and> amount_ok (Amount (noms a - noms b))
      else Amount_checked_sub a b = Err (Invalid ''amount subtraction underflow''))"
proof -
  have a: "unat (noms a) \<le> 3299996676900000" and b: "unat (noms b) \<le> 3299996676900000"
    using assms by (simp_all add: amount_ok_def is_valid_noms_def word_le_nat_alt MAX_SUPPLY_NOMS_value)
  then have sum: "checked_add (noms a) (noms b) = Some (noms a + noms b)"
      "unat (noms a + noms b) = unat (noms a) + unat (noms b)"
    by (simp_all add: checked_add_def unat_add_no_overflow)
  have diff: "noms b \<le> noms a \<Longrightarrow> unat (noms a - noms b) \<le> unat (noms a)"
    by (simp add: unat_sub word_le_nat_alt)
  show ?thesis
    using a diff
    by (auto simp: Amount_checked_add_def checked_add_noms_def sum amount_ok_def is_valid_noms_def
        word_le_nat_alt MAX_SUPPLY_NOMS_value Amount_checked_sub_def checked_sub_noms_def checked_sub_def
        intro: order_trans)
qed

theorem amount_arithmetic_exact_witness:
  "Amount_checked_add (Amount 5) (Amount 7) = Ok (Amount 12)
   \<and> Amount_checked_sub (Amount 5) (Amount 7) = Err (Invalid ''amount subtraction underflow'')"
  using amount_arithmetic_exact [of "Amount 5" "Amount 7"]
  by (simp add: amount_ok_def is_valid_noms_def MAX_SUPPLY_NOMS_value)

section \<open>Genesis identity\<close>

lemma ensure_network_genesis_ready_iff:
  "ensure_network_genesis_ready m = Ok () \<longleftrightarrow> m \<noteq> 0"
  by (auto simp: ensure_network_genesis_ready_def validate_mainnet_genesis_hash_def
      is_valid_mainnet_genesis_hash_def is_placeholder_genesis_hash_def
      genesis_timestamp_for_network_magic_def dom_consts)

text \<open>
  Startup identity.  A start succeeds exactly for the three known network magics, and
  then returns that network's pinned hash; two magics that both start with the same hash
  are equal, so no network can be booted on another network's genesis.
\<close>

theorem startup_identity_unique:
  "(is_ok (startup_genesis_hash_for_network_magic m) \<longleftrightarrow>
      m \<in> {NETWORK_MAGIC_MAINNET, NETWORK_MAGIC_TESTNET, NETWORK_MAGIC_REGTEST})
   \<and> startup_genesis_hash_for_network_magic NETWORK_MAGIC_MAINNET = Ok (Hash256 GENESIS_HASH_MAINNET)
   \<and> (startup_genesis_hash_for_network_magic m = Ok h \<and> startup_genesis_hash_for_network_magic m' = Ok h
       \<longrightarrow> m = m')"
proof -
  have startup: "startup_genesis_hash_for_network_magic k = Ok g \<longleftrightarrow>
      k \<noteq> 0 \<and> configured_genesis_hash_for_network_magic k = Ok g" for k g
    by (simp add: startup_genesis_hash_for_network_magic_def ensure_network_genesis_ready_iff)
  show ?thesis
    by (auto simp: is_ok_iff startup configured_genesis_hash_for_network_magic_def dom_consts
        split: if_splits)
qed

theorem startup_identity_unique_witness:
  "startup_genesis_hash_for_network_magic NETWORK_MAGIC_TESTNET = Ok (Hash256 GENESIS_HASH_TESTNET)
   \<and> NETWORK_MAGIC_TESTNET = NETWORK_MAGIC_TESTNET"
  using startup_identity_unique [of NETWORK_MAGIC_TESTNET "Hash256 GENESIS_HASH_TESTNET" NETWORK_MAGIC_TESTNET]
  by (simp add: startup_genesis_hash_for_network_magic_def ensure_network_genesis_ready_iff
      configured_genesis_hash_for_network_magic_def dom_consts)

lemma required_block_version_mainnet:
  "m \<noteq> NETWORK_MAGIC_TESTNET \<Longrightarrow> m \<noteq> NETWORK_MAGIC_REGTEST \<Longrightarrow>
    required_block_version_for_network m h = required_block_version h"
  by (simp add: required_block_version_for_network_def required_block_version_def)

end
