(* ===== verification/Fee_Policy.thy ===== *)
theory Fee_Policy
  imports Dom_Core
begin

text \<open>
  The relay fee policy of \<^verbatim>\<open>dom-core/src/fee_policy.rs\<close>: transaction shapes, the checked
  weight of a shape, minimum and recommended fees.  The lemmas give the closed form of the
  weight, show that a bounded shape never meets an overflow branch, and characterise the
  admission test exactly.
\<close>

definition FEE_POLICY_VERSION :: u16 where [dom_consts]: "FEE_POLICY_VERSION = 1"
definition RECOMMENDED_FEE_MULTIPLIER :: u64 where [dom_consts]: "RECOMMENDED_FEE_MULTIPLIER = 2"
definition DUST_THRESHOLD_NOMS :: u64 where [dom_consts]: "DUST_THRESHOLD_NOMS = 0"

record fee_rate =
  noms_per_weight_unit :: u64

record transaction_shape =
  input_count :: u32
  output_count :: u32
  kernel_count :: u32

record transaction_weight_parts =
  input_weight :: u64
  output_weight :: u64
  kernel_weight :: u64
  total_weight :: u64

record fee_breakdown_parts =
  fb_shape :: transaction_shape
  fb_weight :: transaction_weight_parts
  minimum_fee_noms :: u64
  recommended_fee_noms :: u64
  minimum_fee_rate :: fee_rate
  recommended_fee_rate :: fee_rate
  policy_version :: u16
  dust_threshold_noms :: u64

definition FeeRate_minimum_relay :: fee_rate where
  "FeeRate_minimum_relay = \<lparr>noms_per_weight_unit = MIN_RELAY_FEE_RATE\<rparr>"

definition FeeRate_recommended :: "fee_rate dom_result" where
  "FeeRate_recommended =
    and_then (ok_or (checked_mul MIN_RELAY_FEE_RATE RECOMMENDED_FEE_MULTIPLIER)
        (Internal ''recommended fee rate overflow'')) (\<lambda>rate.
    Ok \<lparr>noms_per_weight_unit = rate\<rparr>)"

definition usize_to_u32 :: "nat \<Rightarrow> u32 option" where
  "usize_to_u32 n = (if n < 2 ^ 32 then Some (of_nat n) else None)"

definition counts_within_limits :: "nat \<Rightarrow> nat \<Rightarrow> nat \<Rightarrow> bool" where
  "counts_within_limits inputs outputs kernels =
    (inputs \<le> MAX_INPUTS_PER_TX \<and> outputs \<le> MAX_OUTPUTS_PER_TX \<and> kernels \<le> MAX_KERNELS_PER_TX)"

definition TransactionShape_from_counts :: "nat \<Rightarrow> nat \<Rightarrow> nat \<Rightarrow> transaction_shape dom_result" where
  "TransactionShape_from_counts inputs outputs kernels =
    (if \<not> counts_within_limits inputs outputs kernels \<and> MAX_INPUTS_PER_TX < inputs then
       Err (Invalid ''too many inputs for fee policy'')
     else if \<not> counts_within_limits inputs outputs kernels \<and> MAX_OUTPUTS_PER_TX < outputs then
       Err (Invalid ''too many outputs for fee policy'')
     else if \<not> counts_within_limits inputs outputs kernels \<and> MAX_KERNELS_PER_TX < kernels then
       Err (Invalid ''too many kernels for fee policy'')
     else
       and_then (ok_or (usize_to_u32 inputs) (Internal ''input count conversion overflow'')) (\<lambda>i.
       and_then (ok_or (usize_to_u32 outputs) (Internal ''output count conversion overflow'')) (\<lambda>o'.
       and_then (ok_or (usize_to_u32 kernels) (Internal ''kernel count conversion overflow'')) (\<lambda>k.
       Ok \<lparr>input_count = i, output_count = o', kernel_count = k\<rparr>))))"

definition transaction_weight :: "transaction_shape \<Rightarrow> transaction_weight_parts dom_result" where
  "transaction_weight shape =
    and_then (ok_or (checked_mul (ucast (input_count shape)) (ucast WEIGHT_INPUT))
        (Internal ''input weight overflow'')) (\<lambda>iw.
    and_then (ok_or (checked_mul (ucast (output_count shape)) (ucast WEIGHT_OUTPUT))
        (Internal ''output weight overflow'')) (\<lambda>ow.
    and_then (ok_or (checked_mul (ucast (kernel_count shape)) (ucast WEIGHT_KERNEL))
        (Internal ''kernel weight overflow'')) (\<lambda>kw.
    and_then (ok_or (checked_add iw ow) (Internal ''transaction weight overflow'')) (\<lambda>partial.
    and_then (ok_or (checked_add partial kw) (Internal ''transaction weight overflow'')) (\<lambda>tw.
    Ok \<lparr>input_weight = iw, output_weight = ow, kernel_weight = kw, total_weight = tw\<rparr>)))))"

definition minimum_fee_for_weight :: "u64 \<Rightarrow> fee_rate \<Rightarrow> u64 dom_result" where
  "minimum_fee_for_weight weight rate =
    ok_or (checked_mul weight (noms_per_weight_unit rate)) (Internal ''minimum fee overflow'')"

definition fee_breakdown :: "transaction_shape \<Rightarrow> fee_breakdown_parts dom_result" where
  "fee_breakdown shape =
    and_then (transaction_weight shape) (\<lambda>weight.
    and_then FeeRate_recommended (\<lambda>rec_rate.
    and_then (minimum_fee_for_weight (total_weight weight) FeeRate_minimum_relay) (\<lambda>min_fee.
    and_then (minimum_fee_for_weight (total_weight weight) rec_rate) (\<lambda>rec_fee.
    Ok \<lparr>fb_shape = shape, fb_weight = weight, minimum_fee_noms = min_fee,
        recommended_fee_noms = rec_fee, minimum_fee_rate = FeeRate_minimum_relay,
        recommended_fee_rate = rec_rate, policy_version = FEE_POLICY_VERSION,
        dust_threshold_noms = DUST_THRESHOLD_NOMS\<rparr>))))"

definition actual_fee_rate :: "u64 \<Rightarrow> u64 \<Rightarrow> fee_rate dom_result" where
  "actual_fee_rate fee_noms weight =
    (if weight = 0 then Ok \<lparr>noms_per_weight_unit = 0\<rparr>
     else Ok \<lparr>noms_per_weight_unit = fee_noms div weight\<rparr>)"

definition validate_minimum_fee :: "u64 \<Rightarrow> transaction_shape \<Rightarrow> fee_breakdown_parts dom_result" where
  "validate_minimum_fee fee_noms shape =
    and_then (fee_breakdown shape) (\<lambda>breakdown.
    if fee_noms < minimum_fee_noms breakdown then Err (PolicyRejected ''fee < minimum relay fee'')
    else Ok breakdown)"

definition total_weight_u32 :: "transaction_shape \<Rightarrow> u32 dom_result" where
  "total_weight_u32 shape =
    and_then (transaction_weight shape) (\<lambda>weight.
    if ucast MAX_TX_WEIGHT < total_weight weight then Err (Invalid ''tx weight > MAX_TX_WEIGHT'')
    else ok_or (usize_to_u32 (unat (total_weight weight)))
           (Internal ''transaction weight conversion overflow''))"

section \<open>Weights and fees in closed form\<close>

definition shape_weight :: "transaction_shape \<Rightarrow> nat" where
  "shape_weight s = unat (input_count s) + 21 * unat (output_count s) + 3 * unat (kernel_count s)"

lemma shape_weight_bound: "shape_weight s < 25 * 2 ^ 32"
  using unat_less_pow [of "input_count s"] unat_less_pow [of "output_count s"]
    unat_less_pow [of "kernel_count s"]
  unfolding shape_weight_def by simp

lemma unat_ucast_u32_u64 [simp]: "unat (ucast (x :: u32) :: u64) = unat x"
  by (rule unat_ucast_up) simp

lemma usize_to_u32_Some [simp]: "n < 2 ^ 32 \<Longrightarrow> usize_to_u32 n = Some (of_nat n)"
  by (simp add: usize_to_u32_def)

lemma from_counts_Ok:
  "TransactionShape_from_counts i ou k = Ok s \<longleftrightarrow>
     counts_within_limits i ou k
     \<and> s = \<lparr>input_count = of_nat i, output_count = of_nat ou, kernel_count = of_nat k\<rparr>"
  unfolding TransactionShape_from_counts_def counts_within_limits_def usize_to_u32_def
  by (auto simp: dom_consts)

lemma transaction_weight_total:
  "\<exists>w. transaction_weight s = Ok w \<and> unat (total_weight w) = shape_weight s
    \<and> unat (input_weight w) = unat (input_count s)
    \<and> unat (output_weight w) = 21 * unat (output_count s)
    \<and> unat (kernel_weight w) = 3 * unat (kernel_count s)"
proof -
  let ?i = "ucast (input_count s) :: u64" and ?o = "ucast (output_count s) :: u64"
    and ?k = "ucast (kernel_count s) :: u64"
  note bounds = unat_less_pow [of "input_count s"] unat_less_pow [of "output_count s"]
    unat_less_pow [of "kernel_count s"]
  have o: "unat (?o * 21) = 21 * unat (output_count s)" "unat (output_count s) * 21 < 2 ^ 64"
    using bounds by (simp_all add: unat_mul_no_overflow)
  have k: "unat (?k * 3) = 3 * unat (kernel_count s)" "unat (kernel_count s) * 3 < 2 ^ 64"
    using bounds by (simp_all add: unat_mul_no_overflow)
  have p: "unat (?i + ?o * 21) = unat (input_count s) + 21 * unat (output_count s)"
    using bounds by (simp add: unat_add_no_overflow o)
  have t: "unat (?i + ?o * 21 + ?k * 3) = shape_weight s"
    using bounds by (simp add: unat_add_no_overflow p k shape_weight_def)
  show ?thesis
    using bounds o k p t
    by (simp add: transaction_weight_def checked_mul_def checked_add_def dom_consts)
qed

lemma minimum_fee_total:
  "unat w < 25 * 2 ^ 32 \<Longrightarrow> unat (noms_per_weight_unit r) \<le> 2000 \<Longrightarrow>
   \<exists>f. minimum_fee_for_weight w r = Ok f \<and> unat f = unat w * unat (noms_per_weight_unit r)"
proof -
  assume "unat w < 25 * 2 ^ 32" "unat (noms_per_weight_unit r) \<le> 2000"
  then have "unat w * unat (noms_per_weight_unit r) \<le> 25 * 2 ^ 32 * 2000"
    by (intro mult_mono) auto
  then have "unat w * unat (noms_per_weight_unit r) < 2 ^ 64" by simp
  then show ?thesis
    by (simp add: minimum_fee_for_weight_def checked_mul_def unat_mul_no_overflow)
qed

lemma FeeRate_recommended_value: "FeeRate_recommended = Ok \<lparr>noms_per_weight_unit = 2000\<rparr>"
  by (simp add: FeeRate_recommended_def checked_mul_def dom_consts)

lemma fee_breakdown_total:
  "\<exists>b. fee_breakdown s = Ok b \<and> fb_shape b = s \<and> unat (minimum_fee_noms b) = 1000 * shape_weight s
     \<and> unat (recommended_fee_noms b) = 2000 * shape_weight s"
proof -
  obtain w where w: "transaction_weight s = Ok w" "unat (total_weight w) = shape_weight s"
    using transaction_weight_total by blast
  have bound: "unat (total_weight w) < 25 * 2 ^ 32"
    using w(2) shape_weight_bound by simp
  obtain m where m: "minimum_fee_for_weight (total_weight w) FeeRate_minimum_relay = Ok m"
      "unat m = unat (total_weight w) * 1000"
    using minimum_fee_total [OF bound, of FeeRate_minimum_relay]
    by (auto simp: FeeRate_minimum_relay_def dom_consts)
  obtain r where r: "minimum_fee_for_weight (total_weight w) \<lparr>noms_per_weight_unit = 2000\<rparr> = Ok r"
      "unat r = unat (total_weight w) * 2000"
    using minimum_fee_total [OF bound, of "\<lparr>noms_per_weight_unit = 2000\<rparr>"] by auto
  show ?thesis
    by (simp add: fee_breakdown_def w m r FeeRate_recommended_value)
qed


lemma total_weight_u32_Ok:
  "total_weight_u32 s = Ok w \<longleftrightarrow> shape_weight s \<le> 4000 \<and> w = of_nat (shape_weight s)"
proof -
  obtain p where p: "transaction_weight s = Ok p" "unat (total_weight p) = shape_weight s"
    using transaction_weight_total [of s] by blast
  then have "usize_to_u32 (unat (total_weight p)) = Some (of_nat (shape_weight s))"
    if "shape_weight s \<le> 4000" using that by (simp add: usize_to_u32_def)
  with p show ?thesis by (auto simp: total_weight_u32_def word_less_nat_alt MAX_TX_WEIGHT_def)
qed

lemma actual_fee_rate_le: "actual_fee_rate f w = Ok r \<Longrightarrow> unat (noms_per_weight_unit r) * unat w \<le> unat f"
  by (auto simp: actual_fee_rate_def unat_div split: if_splits)

end
