(* ===== verification/Serialization.thy ===== *)
theory Serialization
  imports Dom_Core
begin

text \<open>
  The crate \<^verbatim>\<open>dom-serialization\<close> (lib.rs): the canonical byte writer and the bounds-checked
  reader, the traits DomSerialize and DomDeserialize, and the instances for the primitive
  types.  The locale \<^verbatim>\<open>codec\<close> is the contract of the two traits: writing appends a fixed
  encoding, and reading succeeds exactly on that encoding.  Its lemmas, proved once, are
  the round trip, canonicality, rejection of trailing bytes and the list codec; every
  serialised type of the protocol is an interpretation of it.
\<close>

section \<open>Writer\<close>

record writer =
  wbuf :: bytes

definition writer_new :: writer where
  "writer_new = \<lparr>wbuf = []\<rparr>"

definition write_bytes :: "writer \<Rightarrow> bytes \<Rightarrow> writer" where
  "write_bytes w data = w\<lparr>wbuf := wbuf w @ data\<rparr>"

definition write_u8 :: "writer \<Rightarrow> u8 \<Rightarrow> writer" where
  "write_u8 w v = w\<lparr>wbuf := wbuf w @ [v]\<rparr>"

definition write_u16 :: "writer \<Rightarrow> u16 \<Rightarrow> writer" where
  "write_u16 w v = w\<lparr>wbuf := wbuf w @ u16_to_le v\<rparr>"

definition write_u32 :: "writer \<Rightarrow> u32 \<Rightarrow> writer" where
  "write_u32 w v = w\<lparr>wbuf := wbuf w @ u32_to_le v\<rparr>"

definition write_u64 :: "writer \<Rightarrow> u64 \<Rightarrow> writer" where
  "write_u64 w v = w\<lparr>wbuf := wbuf w @ u64_to_le v\<rparr>"

definition write_u128 :: "writer \<Rightarrow> u128 \<Rightarrow> writer" where
  "write_u128 w v = w\<lparr>wbuf := wbuf w @ u128_to_le v\<rparr>"

definition len_as_u32 :: "nat \<Rightarrow> u32 option" where
  "len_as_u32 n = (if n < 2 ^ 32 then Some (of_nat n) else None)"

definition write_vec :: "writer \<Rightarrow> bytes \<Rightarrow> writer dom_result" where
  "write_vec w data =
    and_then (ok_or (len_as_u32 (length data)) (Malformed ''vec length exceeds u32'')) (\<lambda>len.
    Ok (write_bytes (write_u32 w len) data))"

definition write_list :: "('a \<Rightarrow> writer \<Rightarrow> writer dom_result) \<Rightarrow> writer \<Rightarrow> 'a list \<Rightarrow> writer dom_result" where
  "write_list serialize w items =
    and_then (ok_or (len_as_u32 (length items)) (Malformed ''list length exceeds u32'')) (\<lambda>len.
    try_fold (\<lambda>w item. serialize item w) (write_u32 w len) items)"

definition writer_finish :: "writer \<Rightarrow> bytes" where
  "writer_finish w = wbuf w"

section \<open>Reader\<close>

datatype read_advance = End nat | Overflow | OutOfBounds

definition classify_read_advance :: "nat \<Rightarrow> nat \<Rightarrow> nat \<Rightarrow> read_advance" where
  "classify_read_advance data_len position count =
    (case usize_checked_add position count of
       None \<Rightarrow> Overflow
     | Some end_pos \<Rightarrow> if data_len < end_pos then OutOfBounds else End end_pos)"

datatype list_budget = BudgetValid nat | ZeroItemSize | BudgetOverflow | Insufficient

definition classify_list_budget :: "nat \<Rightarrow> nat \<Rightarrow> nat \<Rightarrow> list_budget" where
  "classify_list_budget count minimum_item_size remaining_bytes =
    (if minimum_item_size = 0 then ZeroItemSize
     else case usize_checked_mul count minimum_item_size of
       None \<Rightarrow> BudgetOverflow
     | Some required \<Rightarrow> if remaining_bytes < required then Insufficient else BudgetValid required)"

definition length_within_limit :: "nat \<Rightarrow> nat \<Rightarrow> bool" where
  "length_within_limit declared limit = (declared \<le> limit)"

record reader =
  rdata :: bytes
  rpos :: nat

type_synonym 'a parse = "('a \<times> reader) dom_result"

definition reader_new :: "bytes \<Rightarrow> reader" where
  "reader_new data = \<lparr>rdata = data, rpos = 0\<rparr>"

definition remaining :: "reader \<Rightarrow> nat" where
  "remaining r = length (rdata r) - rpos r"

definition consume :: "reader \<Rightarrow> nat \<Rightarrow> bytes parse" where
  "consume r n =
    (case classify_read_advance (length (rdata r)) (rpos r) n of
       Overflow \<Rightarrow> Err (Malformed ''position arithmetic overflow'')
     | OutOfBounds \<Rightarrow> Err (Malformed ''unexpected EOF'')
     | End end_pos \<Rightarrow> Ok (take (end_pos - rpos r) (drop (rpos r) (rdata r)), r\<lparr>rpos := end_pos\<rparr>))"

definition read_u8 :: "reader \<Rightarrow> u8 parse" where
  "read_u8 r = and_then (consume r 1) (\<lambda>(b, r). Ok (b ! 0, r))"

definition read_u16 :: "reader \<Rightarrow> u16 parse" where
  "read_u16 r = and_then (consume r 2) (\<lambda>(b, r). Ok (word_from_le b, r))"

definition read_u32 :: "reader \<Rightarrow> u32 parse" where
  "read_u32 r = and_then (consume r 4) (\<lambda>(b, r). Ok (word_from_le b, r))"

definition read_u64 :: "reader \<Rightarrow> u64 parse" where
  "read_u64 r = and_then (consume r 8) (\<lambda>(b, r). Ok (word_from_le b, r))"

definition read_u128 :: "reader \<Rightarrow> u128 parse" where
  "read_u128 r = and_then (consume r 16) (\<lambda>(b, r). Ok (word_from_le b, r))"

definition read_bytes :: "reader \<Rightarrow> nat \<Rightarrow> bytes parse" where
  "read_bytes r n = consume r n"

definition read_array :: "nat \<Rightarrow> reader \<Rightarrow> bytes parse" where
  "read_array N r = consume r N"

definition read_vec :: "reader \<Rightarrow> nat \<Rightarrow> bytes parse" where
  "read_vec r max_len =
    and_then (read_u32 r) (\<lambda>(len, r).
    if \<not> length_within_limit (unat len) max_len then Err (Malformed ''vec length exceeds limit'')
    else consume r (unat len))"

fun read_items :: "(reader \<Rightarrow> 'a parse) \<Rightarrow> nat \<Rightarrow> reader \<Rightarrow> 'a list parse" where
  "read_items deserialize 0 r = Ok ([], r)"
| "read_items deserialize (Suc n) r =
    and_then (deserialize r) (\<lambda>(item, r).
    and_then (read_items deserialize n r) (\<lambda>(items, r). Ok (item # items, r)))"

definition read_list :: "(reader \<Rightarrow> 'a parse) \<Rightarrow> nat \<Rightarrow> reader \<Rightarrow> nat \<Rightarrow> 'a list parse" where
  "read_list deserialize min_item_size r max_count =
    and_then (read_u32 r) (\<lambda>(count32, r).
    let count = unat count32 in
    if \<not> length_within_limit count max_count then Err (Malformed ''list count exceeds limit'')
    else
      (case classify_list_budget count min_item_size (remaining r) of
         BudgetValid _ \<Rightarrow> read_items deserialize count r
       | ZeroItemSize \<Rightarrow> Err (Internal ''minimum serialized item size must be non-zero'')
       | BudgetOverflow \<Rightarrow> Err (Malformed ''list minimum serialized byte budget overflow'')
       | Insufficient \<Rightarrow>
           and_then (expect (usize_checked_mul count min_item_size)
               ''insufficient budget classification excludes overflow'') (\<lambda>_.
           Err (Malformed ''list count requires more serialized bytes than remain''))))"

definition reader_finish :: "reader \<Rightarrow> unit dom_result" where
  "reader_finish r =
    (if rpos r \<noteq> length (rdata r) then Err (Malformed ''trailing bytes'') else Ok ())"

section \<open>Traits\<close>

definition to_bytes :: "('a \<Rightarrow> writer \<Rightarrow> writer dom_result) \<Rightarrow> 'a \<Rightarrow> bytes dom_result" where
  "to_bytes serialize v = and_then (serialize v writer_new) (\<lambda>w. Ok (writer_finish w))"

definition from_bytes :: "(reader \<Rightarrow> 'a parse) \<Rightarrow> bytes \<Rightarrow> 'a dom_result" where
  "from_bytes deserialize data =
    and_then (deserialize (reader_new data)) (\<lambda>(v, r).
    and_then (reader_finish r) (\<lambda>_. Ok v))"

section \<open>Instances for the primitive types\<close>

definition serialize_hash256 :: "hash256 \<Rightarrow> writer \<Rightarrow> writer dom_result" where
  "serialize_hash256 h w = Ok (write_bytes w (as_bytes h))"

definition deserialize_hash256 :: "reader \<Rightarrow> hash256 parse" where
  "deserialize_hash256 r = and_then (read_array 32 r) (\<lambda>(arr, r). Ok (Hash256 arr, r))"

definition serialize_block_height :: "block_height \<Rightarrow> writer \<Rightarrow> writer dom_result" where
  "serialize_block_height h w = Ok (write_u64 w (height_val h))"

definition deserialize_block_height :: "reader \<Rightarrow> block_height parse" where
  "deserialize_block_height r = and_then (read_u64 r) (\<lambda>(v, r). Ok (BlockHeight v, r))"

definition serialize_timestamp :: "timestamp \<Rightarrow> writer \<Rightarrow> writer dom_result" where
  "serialize_timestamp t w = Ok (write_u64 w (secs t))"

definition deserialize_timestamp :: "reader \<Rightarrow> timestamp parse" where
  "deserialize_timestamp r = and_then (read_u64 r) (\<lambda>(v, r). Ok (Timestamp v, r))"

definition serialize_amount :: "amount \<Rightarrow> writer \<Rightarrow> writer dom_result" where
  "serialize_amount a w = Ok (write_u64 w (noms a))"

definition deserialize_amount :: "reader \<Rightarrow> amount parse" where
  "deserialize_amount r =
    and_then (read_u64 r) (\<lambda>(v, r). and_then (from_noms v) (\<lambda>a. Ok (a, r)))"

section \<open>Reading as a relation\<close>

text \<open>
  \<^verbatim>\<open>reads r bs r'\<close>: the next unread bytes of r are bs and r' is r advanced past them.
\<close>

definition reads :: "reader \<Rightarrow> bytes \<Rightarrow> reader \<Rightarrow> bool" where
  "reads r bs r' \<longleftrightarrow>
     rpos r + length bs < USIZE_LIMIT \<and> rpos r + length bs \<le> length (rdata r)
     \<and> take (length bs) (drop (rpos r) (rdata r)) = bs
     \<and> r' = r\<lparr>rpos := rpos r + length bs\<rparr>"

definition reader_ok :: "reader \<Rightarrow> bool" where
  "reader_ok r \<longleftrightarrow> rpos r \<le> length (rdata r) \<and> rpos r < USIZE_LIMIT"

lemma reads_ok: "reads r bs r' \<Longrightarrow> reader_ok r'"
  by (auto simp: reads_def reader_ok_def)

lemma reads_Nil: "reader_ok r \<Longrightarrow> reads r [] r' \<longleftrightarrow> r' = r"
  by (auto simp: reads_def reader_ok_def)

lemma reads_append: "reads r (a @ b) r'' \<longleftrightarrow> (\<exists>r'. reads r a r' \<and> reads r' b r'')"
proof -
  define d where "d = drop (rpos r) (rdata r)"
  have "take (length a + length b) d = a @ b \<longleftrightarrow>
      take (length a) d = a \<and> take (length b) (drop (length a) d) = b"
    if "length a + length b \<le> length d"
    using that by (auto simp: take_add)
  moreover have "rpos r + (length a + length b) \<le> length (rdata r) \<Longrightarrow> length a + length b \<le> length d"
    by (auto simp: d_def)
  ultimately show ?thesis
    by (auto simp: reads_def d_def add.assoc add.commute add.left_commute)
qed

lemma reads_trans: "reads r a r' \<Longrightarrow> reads r' b r'' \<Longrightarrow> reads r (a @ b) r''"
  by (auto simp: reads_append)

lemma reads_unique_length:
  "reads r a r1 \<Longrightarrow> reads r b r2 \<Longrightarrow> length a = length b \<Longrightarrow> a = b \<and> r1 = r2"
  by (auto simp: reads_def)

lemma consume_iff: "consume r n = Ok (bs, r') \<longleftrightarrow> length bs = n \<and> reads r bs r'"
  unfolding consume_def classify_read_advance_def usize_checked_add_def reads_def
  by (auto split: if_splits)

lemma consume_no_panic: "consume r n \<noteq> Panic s"
  unfolding consume_def by (auto split: read_advance.splits)

lemma read_bytes_iff: "read_bytes r n = Ok (bs, r') \<longleftrightarrow> length bs = n \<and> reads r bs r'"
  by (simp add: read_bytes_def consume_iff)

lemma read_array_iff: "read_array n r = Ok (bs, r') \<longleftrightarrow> length bs = n \<and> reads r bs r'"
  by (simp add: read_array_def consume_iff)

lemma read_u8_iff: "read_u8 r = Ok (v, r') \<longleftrightarrow> reads r [v] r'"
  by (auto simp: read_u8_def consume_iff length_Suc_conv)

lemma read_u16_iff: "read_u16 r = Ok (v, r') \<longleftrightarrow> reads r (u16_to_le v) r'"
  by (force simp: read_u16_def consume_iff word_le_round_trip')

lemma read_u32_iff: "read_u32 r = Ok (v, r') \<longleftrightarrow> reads r (u32_to_le v) r'"
  by (force simp: read_u32_def consume_iff word_le_round_trip')

lemma read_u64_iff: "read_u64 r = Ok (v, r') \<longleftrightarrow> reads r (u64_to_le v) r'"
  by (force simp: read_u64_def consume_iff word_le_round_trip')

lemma read_u128_iff: "read_u128 r = Ok (v, r') \<longleftrightarrow> reads r (u128_to_le v) r'"
  by (force simp: read_u128_def consume_iff word_le_round_trip')

definition enc_vec :: "bytes \<Rightarrow> bytes" where
  "enc_vec data = u32_to_le (of_nat (length data)) @ data"

definition enc_list :: "('a \<Rightarrow> bytes) \<Rightarrow> 'a list \<Rightarrow> bytes" where
  "enc_list enc xs = u32_to_le (of_nat (length xs)) @ concat (map enc xs)"

lemma unat_of_nat_u32: "n < 2 ^ 32 \<Longrightarrow> unat (of_nat n :: u32) = n"
  by (simp add: unat_of_nat)

lemma read_vec_iff:
  assumes "max_len < 2 ^ 32"
  shows "read_vec r max_len = Ok (bs, r') \<longleftrightarrow> length bs \<le> max_len \<and> reads r (enc_vec bs) r'"
proof
  assume "read_vec r max_len = Ok (bs, r')"
  then obtain len r1 where "reads r (u32_to_le len) r1" "unat len \<le> max_len"
      "length bs = unat len" "reads r1 bs r'"
    by (auto simp: read_vec_def read_u32_iff consume_iff length_within_limit_def split: if_splits)
  then show "length bs \<le> max_len \<and> reads r (enc_vec bs) r'"
    by (auto simp: enc_vec_def reads_append)
next
  assume a: "length bs \<le> max_len \<and> reads r (enc_vec bs) r'"
  then obtain r1 where r1: "reads r (u32_to_le (of_nat (length bs))) r1" "reads r1 bs r'"
    by (auto simp: enc_vec_def reads_append)
  have "unat (of_nat (length bs) :: u32) = length bs"
    using a assms by (intro unat_of_nat_u32) simp
  then have "consume r1 (unat (of_nat (length bs) :: u32)) = Ok (bs, r')"
    using r1 by (simp add: consume_iff)
  moreover have "read_u32 r = Ok (of_nat (length bs), r1)"
    using r1 by (simp add: read_u32_iff)
  ultimately show "read_vec r max_len = Ok (bs, r')"
    using a \<open>unat (of_nat (length bs) :: u32) = length bs\<close>
    by (simp add: read_vec_def length_within_limit_def)
qed

lemma read_no_panic [simp]:
  "read_u8 r \<noteq> Panic s" "read_u16 r \<noteq> Panic s" "read_u32 r \<noteq> Panic s" "read_u64 r \<noteq> Panic s"
  "read_u128 r \<noteq> Panic s" "read_bytes r n \<noteq> Panic s" "read_array n r \<noteq> Panic s"
  "read_vec r n \<noteq> Panic s"
  by (auto simp: read_u8_def read_u16_def read_u32_def read_u64_def read_u128_def read_bytes_def
      read_array_def read_vec_def and_then_eq_Panic consume_no_panic split: if_splits)

lemmas reader_simps =
  read_u8_iff read_u16_iff read_u32_iff read_u64_iff read_u128_iff read_bytes_iff read_array_iff

lemmas writer_simps =
  write_bytes_def write_u8_def write_u16_def write_u32_def write_u64_def write_u128_def

lemma write_vec_Ok:
  "length data < 2 ^ 32 \<Longrightarrow> write_vec w data = Ok (w\<lparr>wbuf := wbuf w @ enc_vec data\<rparr>)"
  by (simp add: write_vec_def len_as_u32_def writer_simps enc_vec_def)

section \<open>The codec contract\<close>

locale codec =
  fixes ser :: "'a \<Rightarrow> writer \<Rightarrow> writer dom_result"
    and des :: "reader \<Rightarrow> 'a parse"
    and enc :: "'a \<Rightarrow> bytes"
    and wf :: "'a \<Rightarrow> bool"
    and min_size :: nat
  assumes ser_enc: "wf a \<Longrightarrow> ser a w = Ok (w\<lparr>wbuf := wbuf w @ enc a\<rparr>)"
    and des_iff: "des r = Ok (a, r') \<longleftrightarrow> wf a \<and> reads r (enc a) r'"
    and des_no_panic: "des r \<noteq> Panic s"
    and enc_min: "wf a \<Longrightarrow> min_size \<le> length (enc a)"
    and min_pos: "0 < min_size"
begin

lemma to_bytes_enc: "wf a \<Longrightarrow> to_bytes ser a = Ok (enc a)"
  by (simp add: to_bytes_def ser_enc writer_new_def writer_finish_def)

lemma from_bytes_iff:
  assumes "length bs < USIZE_LIMIT"
  shows "from_bytes des bs = Ok a \<longleftrightarrow> wf a \<and> enc a = bs"
proof -
  have "from_bytes des bs = Ok a \<longleftrightarrow>
      (\<exists>r'. wf a \<and> reads (reader_new bs) (enc a) r' \<and> rpos r' = length (rdata r'))"
    by (auto simp: from_bytes_def des_iff reader_finish_def split: if_splits)
  also have "\<dots> \<longleftrightarrow> wf a \<and> enc a = bs"
    using assms by (auto simp: reads_def reader_new_def)
  finally show ?thesis .
qed

lemma round_trip:
  assumes "wf a" and "length (enc a) < USIZE_LIMIT"
  shows "and_then (to_bytes ser a) (from_bytes des) = Ok a"
  using assms by (simp add: to_bytes_enc from_bytes_iff)

lemma canonical:
  assumes "length bs < USIZE_LIMIT" and "from_bytes des bs = Ok a"
  shows "to_bytes ser a = Ok bs"
  using assms by (auto simp: from_bytes_iff to_bytes_enc)

lemma from_bytes_inj:
  assumes "length bs < USIZE_LIMIT" "length bs' < USIZE_LIMIT"
    and "from_bytes des bs = Ok a" "from_bytes des bs' = Ok a"
  shows "bs = bs'"
  using assms by (auto simp: from_bytes_iff)

lemma enc_prefix_free:
  assumes wf: "wf a" "wf b" and len: "length (enc a @ x) < USIZE_LIMIT"
    and eq: "enc a @ x = enc b @ y"
  shows "a = b \<and> x = y"
proof -
  let ?r = "reader_new (enc a @ x)"
  obtain r1 where "reads ?r (enc a) r1" using len by (auto simp: reads_def reader_new_def)
  then have "des ?r = Ok (a, r1)" using wf by (simp add: des_iff)
  moreover obtain r2 where "reads ?r (enc b) r2"
    using len unfolding eq by (auto simp: reads_def reader_new_def)
  then have "des ?r = Ok (b, r2)" using wf by (simp add: des_iff)
  ultimately have "a = b" by simp
  with eq show ?thesis by simp
qed

lemma trailing_rejected:
  assumes "wf a" "length (enc a @ x) < USIZE_LIMIT" "x \<noteq> []"
  shows "from_bytes des (enc a @ x) = Err (Malformed ''trailing bytes'')"
proof -
  let ?r = "reader_new (enc a @ x)"
  have "des ?r = Ok (a, ?r\<lparr>rpos := length (enc a)\<rparr>)"
    using assms by (auto simp: des_iff reads_def reader_new_def)
  then show ?thesis using assms(3) by (simp add: from_bytes_def reader_finish_def reader_new_def)
qed

lemma from_bytes_no_panic: "from_bytes des bs \<noteq> Panic s"
  by (auto simp: from_bytes_def and_then_eq_Panic des_no_panic reader_finish_def)

lemma ser_items: "list_all wf xs \<Longrightarrow>
  try_fold (\<lambda>w item. ser item w) w xs = Ok (w\<lparr>wbuf := wbuf w @ concat (map enc xs)\<rparr>)"
  by (induction xs arbitrary: w) (auto simp: ser_enc)

lemma read_items_iff: "reader_ok r \<Longrightarrow>
  read_items des n r = Ok (xs, r') \<longleftrightarrow>
    length xs = n \<and> list_all wf xs \<and> reads r (concat (map enc xs)) r'"
proof (induction n arbitrary: r xs)
  case 0
  then show ?case by (auto simp: reads_Nil)
next
  case (Suc n)
  have step: "read_items des (Suc n) r = Ok (x # ys, r') \<longleftrightarrow>
      wf x \<and> (\<exists>r1. reads r (enc x) r1 \<and> read_items des n r1 = Ok (ys, r'))" for x ys
    by (auto simp: des_iff)
  have "reads r (enc x) r1 \<and> read_items des n r1 = Ok (ys, r') \<longleftrightarrow>
      reads r (enc x) r1 \<and> length ys = n \<and> list_all wf ys \<and> reads r1 (concat (map enc ys)) r'"
    for x ys r1
    using Suc.IH [of r1 ys] reads_ok [of r "enc x" r1] by blast
  moreover have "read_items des (Suc n) r \<noteq> Ok ([], r')" by auto
  ultimately show ?case using step
    by (cases xs) (auto simp: reads_append simp del: read_items.simps(2))
qed

lemma concat_enc_min: "list_all wf xs \<Longrightarrow> length xs * min_size \<le> length (concat (map enc xs))"
  by (induction xs) (auto dest: enc_min)

lemma read_items_no_panic: "read_items des n r \<noteq> Panic s"
  by (induction n arbitrary: r) (auto simp: and_then_eq_Panic des_no_panic)

lemma write_list_enc:
  assumes "list_all wf xs" and "length xs < 2 ^ 32"
  shows "write_list ser w xs = Ok (w\<lparr>wbuf := wbuf w @ enc_list enc xs\<rparr>)"
  using assms by (simp add: write_list_def len_as_u32_def ser_items writer_simps enc_list_def)

lemma budget_valid:
  assumes "list_all wf xs" and "reads r (concat (map enc xs)) r'"
  shows "classify_list_budget (length xs) min_size (remaining r) = BudgetValid (length xs * min_size)"
proof -
  have "length xs * min_size \<le> length (concat (map enc xs))"
    by (rule concat_enc_min) fact
  moreover have "length (concat (map enc xs)) < USIZE_LIMIT"
      "length (concat (map enc xs)) \<le> remaining r"
    using assms(2) by (auto simp: reads_def remaining_def)
  ultimately show ?thesis
    using min_pos by (simp add: classify_list_budget_def usize_checked_mul_def)
qed

lemma read_list_iff:
  assumes "max_count < 2 ^ 32"
  shows "read_list des min_size r max_count = Ok (xs, r') \<longleftrightarrow>
    length xs \<le> max_count \<and> list_all wf xs \<and> reads r (enc_list enc xs) r'"
proof
  assume "read_list des min_size r max_count = Ok (xs, r')"
  then obtain c r1 where r1: "reads r (u32_to_le c) r1" "unat c \<le> max_count"
      "read_items des (unat c) r1 = Ok (xs, r')"
    by (auto simp: read_list_def read_u32_iff Let_def length_within_limit_def
        split: if_splits list_budget.splits)
  then have "length xs = unat c \<and> list_all wf xs \<and> reads r1 (concat (map enc xs)) r'"
    using read_items_iff [OF reads_ok] by blast
  with r1 show "length xs \<le> max_count \<and> list_all wf xs \<and> reads r (enc_list enc xs) r'"
    by (auto simp: enc_list_def reads_append)
next
  assume a: "length xs \<le> max_count \<and> list_all wf xs \<and> reads r (enc_list enc xs) r'"
  then obtain r1 where r1: "reads r (u32_to_le (of_nat (length xs))) r1"
      "reads r1 (concat (map enc xs)) r'"
    by (auto simp: enc_list_def reads_append)
  have n: "unat (of_nat (length xs) :: u32) = length xs"
    using a assms by (intro unat_of_nat_u32) simp
  have "read_items des (length xs) r1 = Ok (xs, r')"
    using a r1 read_items_iff [OF reads_ok [OF r1(1)]] by simp
  moreover have "read_u32 r = Ok (of_nat (length xs), r1)"
    using r1 by (simp add: read_u32_iff)
  ultimately show "read_list des min_size r max_count = Ok (xs, r')"
    using a budget_valid [OF _ r1(2)]
    by (simp add: read_list_def Let_def n length_within_limit_def)
qed

lemma read_list_no_panic: "read_list des min_size r max_count \<noteq> Panic s"
proof -
  have "classify_list_budget c min_size k = Insufficient \<Longrightarrow>
      \<exists>q. usize_checked_mul c min_size = Some q" for c k
    by (auto simp: classify_list_budget_def split: if_splits option.splits)
  then show ?thesis
    by (fastforce simp: read_list_def and_then_eq_Panic Let_def read_items_no_panic
        split: if_splits list_budget.splits)
qed

lemma list_codec:
  assumes "max_count < 2 ^ 32"
  shows "codec (\<lambda>xs w. write_list ser w xs) (\<lambda>r. read_list des min_size r max_count) (enc_list enc)
    (\<lambda>xs. length xs \<le> max_count \<and> list_all wf xs) 4"
  using assms
  by unfold_locales
    (auto simp: write_list_enc read_list_iff read_list_no_panic enc_list_def)

end

section \<open>Interpretations for the primitive types\<close>

interpretation hash256: codec serialize_hash256 deserialize_hash256 as_bytes hash256_ok 32
proof unfold_locales
  show "deserialize_hash256 r = Ok (a, r') \<longleftrightarrow> hash256_ok a \<and> reads r (as_bytes a) r'" for r a r'
    by (cases a) (auto simp: deserialize_hash256_def hash256_ok_def reader_simps)
qed (auto simp: serialize_hash256_def writer_simps deserialize_hash256_def and_then_eq_Panic hash256_ok_def)

interpretation block_height: codec serialize_block_height deserialize_block_height
  "\<lambda>h. u64_to_le (height_val h)" "\<lambda>_. True" 8
proof unfold_locales
  show "deserialize_block_height r = Ok (a, r') \<longleftrightarrow> True \<and> reads r (u64_to_le (height_val a)) r'" for r a r'
    by (cases a) (auto simp: deserialize_block_height_def reader_simps)
qed (auto simp: serialize_block_height_def writer_simps deserialize_block_height_def and_then_eq_Panic)

interpretation timestamp: codec serialize_timestamp deserialize_timestamp
  "\<lambda>t. u64_to_le (secs t)" "\<lambda>_. True" 8
proof unfold_locales
  show "deserialize_timestamp r = Ok (a, r') \<longleftrightarrow> True \<and> reads r (u64_to_le (secs a)) r'" for r a r'
    by (cases a) (auto simp: deserialize_timestamp_def reader_simps)
qed (auto simp: serialize_timestamp_def writer_simps deserialize_timestamp_def and_then_eq_Panic)

interpretation amount: codec serialize_amount deserialize_amount
  "\<lambda>a. u64_to_le (noms a)" amount_ok 8
proof unfold_locales
  show "deserialize_amount r = Ok (a, r') \<longleftrightarrow> amount_ok a \<and> reads r (u64_to_le (noms a)) r'" for r a r'
    by (cases a) (auto simp: deserialize_amount_def reader_simps from_noms_Ok amount_ok_def)
qed (auto simp: serialize_amount_def writer_simps deserialize_amount_def and_then_eq_Panic from_noms_def
    split: if_splits)

end
