(* ===== verification/Crypto.thy ===== *)
theory Crypto
  imports Serialization
begin

text \<open>
  The parts of \<^verbatim>\<open>dom-crypto\<close> that consensus calls: tagged hashing (hash.rs), key and scalar
  frontiers (keys.rs, schnorr.rs), Schnorr verification and aggregation (schnorr.rs),
  Pedersen commitments and the balance equations (pedersen.rs), the value generator
  (h_generator.rs), range-proof verification up to the foreign call (bulletproof_bp.rs)
  and the recovery capsule framing (recovery.rs).

  The elliptic-curve, hash and proof libraries are third-party code; they are the fields of
  the record \<^verbatim>\<open>backend\<close>, an argument of every definition that uses them.  Points live in a
  type of class \<^verbatim>\<open>ab_group_add\<close>, whose addition, subtraction and zero stand for those of
  ProjectivePoint; scalars are natural numbers below the curve order.
\<close>

section \<open>The third-party backend\<close>

record 'p backend =
  blake2b :: "bytes \<Rightarrow> bytes"
  hmac_sha256 :: "bytes \<Rightarrow> bytes \<Rightarrow> bytes"
  scalar_from_repr :: "bytes \<Rightarrow> nat option"
  scalar_to_repr :: "nat \<Rightarrow> bytes"
  encoded_point :: "bytes \<Rightarrow> bool"
  affine_of_encoded :: "bytes \<Rightarrow> 'p option"
  compress_point :: "'p \<Rightarrow> bytes"
  point_mul :: "'p \<Rightarrow> nat \<Rightarrow> 'p"
  GENERATOR :: 'p
  hash_to_curve :: "bytes \<Rightarrow> bytes \<Rightarrow> 'p option"
  secp_public_key :: "bytes \<Rightarrow> bytes option"
  secp_secret_key_ok :: "bytes \<Rightarrow> bool"
  secp_public_of_secret :: "bytes \<Rightarrow> bytes"
  y_is_square :: "bytes \<Rightarrow> bool"
  ffi_ready :: "unit dom_result"
  ffi_bulletproof_verify :: "bytes list \<Rightarrow> bytes \<Rightarrow> bytes \<Rightarrow> bool dom_result"

section \<open>Tagged hashing\<close>

definition blake2b_256 :: "'p backend \<Rightarrow> bytes \<Rightarrow> hash256" where
  "blake2b_256 B data = Hash256 (blake2b B data)"

definition blake2b_256_tagged :: "'p backend \<Rightarrow> bytes \<Rightarrow> bytes \<Rightarrow> hash256" where
  "blake2b_256_tagged B tag data =
    Hash256 (blake2b B (u16_to_le (of_nat (length tag)) @ tag @ data))"

section \<open>Scalars\<close>

definition SECP256K1_N :: bytes where
  "SECP256K1_N =
    [0xFF, 0xFF, 0xFF, 0xFF, 0xFF, 0xFF, 0xFF, 0xFF, 0xFF, 0xFF, 0xFF, 0xFF, 0xFF, 0xFF, 0xFF, 0xFE,
     0xBA, 0xAE, 0xDC, 0xE6, 0xAF, 0x48, 0xA0, 0x3B, 0xBF, 0xD2, 0x5E, 0x8C, 0xD0, 0x36, 0x41, 0x41]"

definition curve_order :: nat where
  "curve_order = be_to_nat SECP256K1_N"

text \<open>
  The constant-time comparison walks both arrays with two flags: whether a smaller byte has
  decided the comparison, and whether all bytes so far are equal.
\<close>

fun bytes_lt_ct_loop :: "bool \<Rightarrow> bool \<Rightarrow> bytes \<Rightarrow> bytes \<Rightarrow> bool" where
  "bytes_lt_ct_loop lt still_equal (a # as) (b # bs) =
    (let a_lt_b = 0 < int (unat b) - int (unat a);
         a_gt_b = 0 < int (unat a) - int (unat b)
     in bytes_lt_ct_loop (lt \<or> still_equal \<and> a_lt_b) (still_equal \<and> \<not> (a_lt_b \<or> a_gt_b)) as bs)"
| "bytes_lt_ct_loop lt still_equal _ _ = lt"

definition bytes_lt_ct :: "bytes \<Rightarrow> bytes \<Rightarrow> bool" where
  "bytes_lt_ct a b = bytes_lt_ct_loop False True a b"

definition bytes_eq_zero_ct :: "bytes \<Rightarrow> bool" where
  "bytes_eq_zero_ct bs = (bs = replicate 32 0)"

definition is_scalar_valid :: "bytes \<Rightarrow> bool" where
  "is_scalar_valid bs = (\<not> bytes_eq_zero_ct bs \<and> bytes_lt_ct bs SECP256K1_N)"

definition is_scalar_canonical_allow_zero :: "bytes \<Rightarrow> bool" where
  "is_scalar_canonical_allow_zero bs = bytes_lt_ct bs SECP256K1_N"

definition scalar_from_bytes :: "'p backend \<Rightarrow> bytes \<Rightarrow> nat option" where
  "scalar_from_bytes B bs = (if length bs = 32 then scalar_from_repr B bs else None)"

section \<open>Keys\<close>

datatype public_key = PublicKey (pk_bytes: bytes)
datatype secret_key = SecretKey (sk_bytes: bytes)

datatype compressed_key_frontier = KeyWrongLength | KeyWrongPrefix | KeyCandidate

definition classify_compressed_key_frontier :: "nat \<Rightarrow> u8 \<Rightarrow> compressed_key_frontier" where
  "classify_compressed_key_frontier len prefix =
    (if len \<noteq> 33 then KeyWrongLength
     else if prefix \<noteq> 0x02 \<and> prefix \<noteq> 0x03 then KeyWrongPrefix
     else KeyCandidate)"

definition PublicKey_from_compressed_bytes :: "'p backend \<Rightarrow> bytes \<Rightarrow> public_key dom_result" where
  "PublicKey_from_compressed_bytes B bs =
    (let prefix = (case bs of [] \<Rightarrow> 0 | b # _ \<Rightarrow> b) in
     case classify_compressed_key_frontier (length bs) prefix of
       KeyWrongLength \<Rightarrow> Err (Malformed ''compressed public key must be 33 bytes'')
     | KeyWrongPrefix \<Rightarrow> Err (Malformed ''compressed public key prefix must be 0x02 or 0x03'')
     | KeyCandidate \<Rightarrow>
         ok_or (map_option PublicKey (secp_public_key B bs)) (Invalid ''invalid public key point''))"

definition SecretKey_from_bytes :: "'p backend \<Rightarrow> bytes \<Rightarrow> secret_key dom_result" where
  "SecretKey_from_bytes B bs =
    (if length bs \<noteq> 32 then Err (Malformed ''secret key must be 32 bytes'')
     else if \<not> secp_secret_key_ok B bs then Err (Invalid ''invalid secret key'')
     else Ok (SecretKey bs))"

definition SecretKey_public_key :: "'p backend \<Rightarrow> secret_key \<Rightarrow> public_key dom_result" where
  "SecretKey_public_key B sk =
    (if \<not> secp_secret_key_ok B (sk_bytes sk) then Panic ''already validated''
     else Ok (PublicKey (secp_public_of_secret B (sk_bytes sk))))"

section \<open>Schnorr signatures\<close>

record schnorr_signature =
  r_compressed :: bytes
  sig_s :: bytes

datatype partial_sig = PartialSig (partial_s: bytes)

definition partial_signature_length_is_canonical :: "nat \<Rightarrow> bool" where
  "partial_signature_length_is_canonical len = (len = 32)"

definition signature_length_is_canonical :: "nat \<Rightarrow> bool" where
  "signature_length_is_canonical len = (len = 65)"

definition PartialSig_from_bytes :: "bytes \<Rightarrow> partial_sig dom_result" where
  "PartialSig_from_bytes bs =
    (if \<not> partial_signature_length_is_canonical (length bs) then
       Err (Malformed ''partial signature must be 32 bytes'')
     else if \<not> is_scalar_valid bs then Err (Invalid ''partial signature scalar is zero or >= n'')
     else Ok (PartialSig bs))"

definition SchnorrSignature_from_bytes :: "'p backend \<Rightarrow> bytes \<Rightarrow> schnorr_signature dom_result" where
  "SchnorrSignature_from_bytes B bs =
    (if \<not> signature_length_is_canonical (length bs) then Err (Malformed ''signature must be 65 bytes'')
     else
       let r = take 33 bs; s = drop 33 bs in
       and_then (PublicKey_from_compressed_bytes B r) (\<lambda>_.
       if \<not> is_scalar_valid s then Err (Invalid ''signature scalar s is zero or >= n'')
       else Ok \<lparr>r_compressed = r, sig_s = s\<rparr>))"

definition SchnorrSignature_to_bytes :: "schnorr_signature \<Rightarrow> bytes" where
  "SchnorrSignature_to_bytes sig = r_compressed sig @ sig_s sig"

definition schnorr_challenge :: "'p backend \<Rightarrow> bytes \<Rightarrow> public_key \<Rightarrow> bytes \<Rightarrow> bytes \<Rightarrow> hash256" where
  "schnorr_challenge B r pk chain_id message =
    blake2b_256_tagged B TAG_KERNEL_SIG (r @ pk_bytes pk @ chain_id @ message)"

definition compressed_to_projective :: "'p backend \<Rightarrow> bytes \<Rightarrow> 'p dom_result" where
  "compressed_to_projective B bs =
    (if \<not> encoded_point B bs then Err (Invalid ''invalid compressed point'')
     else ok_or (affine_of_encoded B bs) (Invalid ''point not on curve''))"

definition schnorr_verify ::
  "'p::ab_group_add backend \<Rightarrow> schnorr_signature \<Rightarrow> public_key \<Rightarrow> bytes \<Rightarrow> bytes \<Rightarrow> bool dom_result" where
  "schnorr_verify B sig pk chain_id message =
    (let c_bytes = as_bytes (schnorr_challenge B (r_compressed sig) pk chain_id message) in
     and_then (ok_or (scalar_from_bytes B (sig_s sig)) (Invalid ''s is not a valid scalar'')) (\<lambda>s.
     let sg = point_mul B (GENERATOR B) s in
     and_then (compressed_to_projective B (pk_bytes pk)) (\<lambda>p.
     and_then (ok_or (scalar_from_bytes B c_bytes) (Invalid ''challenge scalar invalid'')) (\<lambda>c.
     let cp = point_mul B p c in
     and_then (compressed_to_projective B (r_compressed sig)) (\<lambda>r.
     Ok (sg = r + cp))))))"

text \<open>\<^verbatim>\<open>copy_from_slice\<close> into a 33-byte array panics on any other length.\<close>

definition copy_33 :: "bytes \<Rightarrow> bytes dom_result" where
  "copy_33 bs = (if length bs = 33 then Ok bs else Panic ''copy_from_slice: length mismatch'')"

definition projective_to_compressed :: "'p backend \<Rightarrow> 'p \<Rightarrow> bytes dom_result" where
  "projective_to_compressed B p = copy_33 (compress_point B p)"

definition scalar_add_mul :: "'p backend \<Rightarrow> bytes \<Rightarrow> bytes \<Rightarrow> bytes \<Rightarrow> bytes dom_result" where
  "scalar_add_mul B a c b =
    and_then (ok_or (scalar_from_bytes B a) (Invalid ''a not valid scalar'')) (\<lambda>a_s.
    and_then (ok_or (scalar_from_bytes B b) (Invalid ''b not valid scalar'')) (\<lambda>b_s.
    and_then (ok_or (scalar_from_bytes B c) (Invalid ''c not valid scalar'')) (\<lambda>c_s.
    Ok (scalar_to_repr B ((a_s + c_s * b_s) mod curve_order)))))"

definition schnorr_add_public_keys :: "'p::ab_group_add backend \<Rightarrow> public_key list \<Rightarrow> public_key dom_result" where
  "schnorr_add_public_keys B public_keys =
    (if public_keys = [] then Err (Malformed ''cannot aggregate an empty public key set'')
     else
       and_then (try_fold (\<lambda>acc pk.
           and_then (compressed_to_projective B (pk_bytes pk)) (\<lambda>p. Ok (acc + p))) 0 public_keys) (\<lambda>total.
       if total = 0 then Err (Invalid ''aggregated public key is the point at infinity'')
       else and_then (projective_to_compressed B total) (\<lambda>compressed.
         PublicKey_from_compressed_bytes B compressed)))"

definition schnorr_partial_sign ::
  "'p backend \<Rightarrow> secret_key \<Rightarrow> secret_key \<Rightarrow> public_key \<Rightarrow> public_key \<Rightarrow> bytes \<Rightarrow> bytes \<Rightarrow> partial_sig dom_result" where
  "schnorr_partial_sign B sk nonce agg_r agg_p chain_id message =
    (let c_bytes = as_bytes (schnorr_challenge B (pk_bytes agg_r) agg_p chain_id message) in
     and_then (scalar_add_mul B (sk_bytes nonce) c_bytes (sk_bytes sk)) (\<lambda>s.
     PartialSig_from_bytes s))"

definition schnorr_aggregate_sigs :: "'p backend \<Rightarrow> partial_sig list \<Rightarrow> public_key \<Rightarrow> schnorr_signature dom_result" where
  "schnorr_aggregate_sigs B partials agg_r =
    (if partials = [] then Err (Malformed ''cannot aggregate an empty partial signature set'')
     else
       and_then (try_fold (\<lambda>acc p.
           and_then (ok_or (scalar_from_bytes B (partial_s p)) (Invalid ''partial signature scalar invalid''))
             (\<lambda>s. Ok ((acc + s) mod curve_order))) 0 partials) (\<lambda>total.
       let s = scalar_to_repr B total in
       if \<not> is_scalar_valid s then Err (Invalid ''aggregated signature scalar is zero or >= n'')
       else Ok \<lparr>r_compressed = pk_bytes agg_r, sig_s = s\<rparr>))"

section \<open>The value generator\<close>

definition H2C_DST :: bytes where
  "H2C_DST = ascii ''DOM:h2c:secp256k1:v6.1''"

definition H_COMPRESSED_FINAL :: bytes where
  "H_COMPRESSED_FINAL =
    [0x02, 0x0e, 0x2c, 0xfc, 0x9a, 0xba, 0x78, 0x45, 0x5f, 0xfd, 0x39, 0x0c, 0xf5, 0xf1, 0xd1, 0x7b,
     0x99, 0x82, 0xd0, 0xee, 0x29, 0xb2, 0x66, 0xbb, 0x3e, 0xa6, 0x21, 0x7b, 0x07, 0x8f, 0x09, 0xd5,
     0x50]"

definition G_COMPRESSED :: bytes where
  "G_COMPRESSED =
    [0x02, 0x79, 0xBE, 0x66, 0x7E, 0xF9, 0xDC, 0xBB, 0xAC, 0x55, 0xA0, 0x62, 0x95, 0xCE, 0x87,
     0x0B, 0x07, 0x02, 0x9B, 0xFC, 0xDB, 0x2D, 0xCE, 0x28, 0xD9, 0x59, 0xF2, 0x81, 0x5B, 0x16,
     0xF8, 0x17, 0x98]"

definition derive_h_generator :: "'p backend \<Rightarrow> bytes dom_result" where
  "derive_h_generator B =
    and_then (ok_or (hash_to_curve B [] H2C_DST) (Internal ''hash_to_curve failed'')) (\<lambda>point.
    let bs = compress_point B point in
    if length bs \<noteq> 33 then Err (Internal ''H encoding error'') else Ok bs)"

definition verify_h_properties :: "'p backend \<Rightarrow> bytes \<Rightarrow> unit dom_result" where
  "verify_h_properties B h =
    and_then (map_err (\<lambda>_. Invalid ''H not valid curve point'') (PublicKey_from_compressed_bytes B h)) (\<lambda>_.
    if h ! 0 \<noteq> 0x02 \<and> h ! 0 \<noteq> 0x03 then Err (Invalid ''H invalid prefix'')
    else if h = G_COMPRESSED then Err (Invalid ''H must not equal G'')
    else Ok ())"

definition h_compressed :: "'p backend \<Rightarrow> bytes dom_result" where
  "h_compressed B =
    and_then (derive_h_generator B) (\<lambda>derived.
    if derived \<noteq> H_COMPRESSED_FINAL then Err (Internal ''H_COMPRESSED_FINAL mismatch'')
    else and_then (verify_h_properties B derived) (\<lambda>_. Ok derived))"

definition h_point :: "'p backend \<Rightarrow> 'p dom_result" where
  "h_point B =
    (case h_compressed B of
       Ok h_bytes \<Rightarrow>
         if \<not> encoded_point B h_bytes then Panic ''h_compressed() guarantees valid encoding''
         else expect (affine_of_encoded B h_bytes) ''h_compressed() guarantees valid curve point''
     | Err e \<Rightarrow> Panic ''H generator not finalized''
     | Panic s \<Rightarrow> Panic s)"

section \<open>Pedersen commitments\<close>

datatype commitment = Commitment (commit_bytes: bytes)

datatype blinding_factor = BlindingFactor (blind_bytes: bytes)

datatype blinding_factor_or_zero = NonZero blinding_factor | Zero

definition Commitment_from_compressed_bytes :: "'p backend \<Rightarrow> bytes \<Rightarrow> commitment dom_result" where
  "Commitment_from_compressed_bytes B bs =
    (if length bs \<noteq> 33 then Err (Malformed ''commitment must be 33 bytes'')
     else if \<not> encoded_point B bs then Err (Invalid ''commitment: invalid SEC1 encoding'')
     else if affine_of_encoded B bs = None then
       Err (Invalid ''commitment: point not on secp256k1 curve'')
     else Ok (Commitment bs))"

definition Commitment_to_projective :: "'p backend \<Rightarrow> commitment \<Rightarrow> 'p dom_result" where
  "Commitment_to_projective B c =
    (if \<not> encoded_point B (commit_bytes c) then Err (Invalid ''invalid commitment encoding'')
     else ok_or (affine_of_encoded B (commit_bytes c)) (Invalid ''commitment point not on curve''))"

definition commit_unblinded :: "'p backend \<Rightarrow> u64 \<Rightarrow> commitment dom_result" where
  "commit_unblinded B v =
    and_then (h_point B) (\<lambda>h.
    and_then (copy_33 (compress_point B (point_mul B h (unat v)))) (\<lambda>bs.
    Ok (Commitment bs)))"

definition Commitment_commit :: "'p::ab_group_add backend \<Rightarrow> u64 \<Rightarrow> blinding_factor \<Rightarrow> commitment dom_result" where
  "Commitment_commit B v blinding =
    and_then (h_point B) (\<lambda>h.
    let vh = point_mul B h (unat v) in
    and_then (expect (scalar_from_bytes B (blind_bytes blinding)) ''blinding factor already validated'') (\<lambda>r.
    let c = vh + point_mul B (GENERATOR B) r in
    and_then (copy_33 (compress_point B c)) (\<lambda>bs. Ok (Commitment bs))))"

definition Commitment_add :: "'p::ab_group_add backend \<Rightarrow> commitment \<Rightarrow> commitment \<Rightarrow> commitment dom_result" where
  "Commitment_add B x y =
    and_then (Commitment_to_projective B x) (\<lambda>a.
    and_then (Commitment_to_projective B y) (\<lambda>b.
    if a + b = 0 then Err (Invalid ''commitment addition produced the identity point'')
    else and_then (copy_33 (compress_point B (a + b))) (\<lambda>bs. Ok (Commitment bs))))"

definition Commitment_sub :: "'p::ab_group_add backend \<Rightarrow> commitment \<Rightarrow> commitment \<Rightarrow> commitment dom_result" where
  "Commitment_sub B x y =
    and_then (Commitment_to_projective B x) (\<lambda>a.
    and_then (Commitment_to_projective B y) (\<lambda>b.
    if a - b = 0 then Err (Invalid ''commitment subtraction produced the identity point'')
    else and_then (copy_33 (compress_point B (a - b))) (\<lambda>bs. Ok (Commitment bs))))"

definition Commitment_verify :: "'p::ab_group_add backend \<Rightarrow> commitment \<Rightarrow> u64 \<Rightarrow> blinding_factor \<Rightarrow> bool dom_result" where
  "Commitment_verify B c v blinding = map_ok (\<lambda>expected. c = expected) (Commitment_commit B v blinding)"

definition BlindingFactor_from_bytes :: "'p backend \<Rightarrow> bytes \<Rightarrow> blinding_factor dom_result" where
  "BlindingFactor_from_bytes B bs =
    (case scalar_from_bytes B bs of
       None \<Rightarrow> Err (Invalid ''blinding factor out of range'')
     | Some s \<Rightarrow> if s = 0 then Err (Invalid ''blinding factor is zero'') else Ok (BlindingFactor bs))"

definition BlindingFactor_add :: "'p backend \<Rightarrow> blinding_factor \<Rightarrow> blinding_factor \<Rightarrow> blinding_factor dom_result" where
  "BlindingFactor_add B x y =
    and_then (ok_or (scalar_from_bytes B (blind_bytes x)) (Invalid ''invalid blinding factor a'')) (\<lambda>a.
    and_then (ok_or (scalar_from_bytes B (blind_bytes y)) (Invalid ''invalid blinding factor b'')) (\<lambda>b.
    let s = (a + b) mod curve_order in
    if s = 0 then Err (Invalid ''blinding factor sum is zero'')
    else Ok (BlindingFactor (scalar_to_repr B s))))"

definition BlindingFactor_sub :: "'p backend \<Rightarrow> blinding_factor \<Rightarrow> blinding_factor \<Rightarrow> blinding_factor_or_zero dom_result" where
  "BlindingFactor_sub B x y =
    and_then (ok_or (scalar_from_bytes B (blind_bytes x)) (Invalid ''invalid blinding factor a'')) (\<lambda>a.
    and_then (ok_or (scalar_from_bytes B (blind_bytes y)) (Invalid ''invalid blinding factor b'')) (\<lambda>b.
    let d = (a + (curve_order - b mod curve_order)) mod curve_order in
    if d = 0 then Ok Zero
    else Ok (NonZero (BlindingFactor (scalar_to_repr B d)))))"

definition BlindingFactor_sub_nonzero :: "'p backend \<Rightarrow> blinding_factor \<Rightarrow> blinding_factor \<Rightarrow> blinding_factor dom_result" where
  "BlindingFactor_sub_nonzero B x y =
    and_then (BlindingFactor_sub B x y) (\<lambda>d.
    case d of NonZero bf \<Rightarrow> Ok bf | Zero \<Rightarrow> Err (Invalid ''blinding factor difference is zero''))"

definition derive_complement_commitment :: "'p::ab_group_add backend \<Rightarrow> commitment \<Rightarrow> u64 \<Rightarrow> commitment dom_result" where
  "derive_complement_commitment B c max_value =
    and_then (commit_unblinded B max_value) (\<lambda>max_commit. Commitment_sub B max_commit c)"

definition sum_projective :: "'p::ab_group_add backend \<Rightarrow> commitment list \<Rightarrow> 'p dom_result" where
  "sum_projective B commits =
    try_fold (\<lambda>acc c. and_then (Commitment_to_projective B c) (\<lambda>p. Ok (acc + p))) 0 commits"

definition verify_balance_equation ::
  "'p::ab_group_add backend \<Rightarrow> commitment list \<Rightarrow> commitment list \<Rightarrow> commitment list \<Rightarrow> bytes \<Rightarrow> u64 \<Rightarrow> bool dom_result" where
  "verify_balance_equation B output_commits input_commits kernel_excesses offset total_fee =
    and_then (sum_projective B output_commits) (\<lambda>sum_outputs.
    and_then (sum_projective B input_commits) (\<lambda>sum_inputs.
    let lhs = sum_outputs - sum_inputs in
    and_then (if 0 < total_fee
              then and_then (h_point B) (\<lambda>h. Ok (lhs + point_mul B h (unat total_fee)))
              else Ok lhs) (\<lambda>lhs.
    and_then (sum_projective B kernel_excesses) (\<lambda>rhs.
    and_then (if offset \<noteq> replicate 32 0
              then and_then (ok_or (scalar_from_bytes B offset) (Invalid ''invalid offset scalar''))
                     (\<lambda>s. Ok (rhs + point_mul B (GENERATOR B) s))
              else Ok rhs) (\<lambda>rhs.
    Ok (lhs = rhs))))))"

definition verify_block_balance_equation ::
  "'p::ab_group_add backend \<Rightarrow> commitment list \<Rightarrow> commitment list \<Rightarrow> commitment list \<Rightarrow> bytes \<Rightarrow> u64 \<Rightarrow> bool dom_result" where
  "verify_block_balance_equation B all_outputs all_inputs all_excesses kernel_offset reward =
    and_then (sum_projective B all_outputs) (\<lambda>sum_outputs.
    and_then (sum_projective B all_inputs) (\<lambda>sum_inputs.
    let lhs = sum_outputs - sum_inputs in
    and_then (sum_projective B all_excesses) (\<lambda>rhs.
    and_then (if kernel_offset \<noteq> replicate 32 0
              then and_then (ok_or (scalar_from_bytes B kernel_offset)
                       (Invalid ''invalid block kernel_offset scalar''))
                     (\<lambda>s. Ok (rhs + point_mul B (GENERATOR B) s))
              else Ok rhs) (\<lambda>rhs.
    and_then (if 0 < reward
              then and_then (h_point B) (\<lambda>h. Ok (rhs + point_mul B h (unat reward)))
              else Ok rhs) (\<lambda>rhs.
    Ok (lhs = rhs))))))"

section \<open>Range proofs\<close>

definition MAX_PROVABLE_VALUE :: u64 where
  [dom_consts]: "MAX_PROVABLE_VALUE = push_bit 52 1 - 1"

definition RANGE_PROOF_SIZE :: nat where
  [dom_consts]: "RANGE_PROOF_SIZE = 739"

definition range_proof_length_is_canonical :: "nat \<Rightarrow> bool" where
  "range_proof_length_is_canonical len = (len = RANGE_PROOF_SIZE)"

definition proof_has_valid_curve_points :: "'p backend \<Rightarrow> bytes \<Rightarrow> bool" where
  "proof_has_valid_curve_points B proof =
    (if length proof < 64 + 1 + 4 * 32 then False
     else
       let parity = proof ! 64 in
       list_all (\<lambda>i.
         let prefix = (if parity AND push_bit i 1 = 0 then 0x02 else 0x03) in
         secp_public_key B (prefix # take 32 (drop (65 + i * 32) proof)) \<noteq> None) [0..<4])"

definition zkp_prefix_from_y :: "'p backend \<Rightarrow> bytes \<Rightarrow> u8" where
  "zkp_prefix_from_y B sec1 = (if y_is_square B sec1 then 0x08 else 0x09)"

definition sec1_to_zkp :: "'p backend \<Rightarrow> bytes \<Rightarrow> bytes dom_result" where
  "sec1_to_zkp B sec1 =
    (if secp_public_key B sec1 = None then Err (Invalid ''invalid SEC1'')
     else Ok (sec1[0 := zkp_prefix_from_y B sec1]))"

definition bp_verify :: "'p::ab_group_add backend \<Rightarrow> bytes \<Rightarrow> bytes \<Rightarrow> bool dom_result" where
  "bp_verify B commitment_sec1 proof =
    (if proof = [] then Err (Malformed ''range proof is empty'')
     else if \<not> range_proof_length_is_canonical (length proof) then
       Err (Malformed ''invalid range proof length'')
     else if \<not> proof_has_valid_curve_points B proof then Ok False
     else
       and_then (ffi_ready B) (\<lambda>_.
       and_then (Commitment_from_compressed_bytes B commitment_sec1) (\<lambda>c.
       and_then (derive_complement_commitment B c MAX_PROVABLE_VALUE) (\<lambda>complement.
       and_then (sec1_to_zkp B commitment_sec1) (\<lambda>z1.
       and_then (sec1_to_zkp B (commit_bytes complement)) (\<lambda>z2.
       ffi_bulletproof_verify B [z1, z2] proof []))))))"

definition bp_verify_with_extra_commit :: "'p::ab_group_add backend \<Rightarrow> bytes \<Rightarrow> bytes \<Rightarrow> bytes \<Rightarrow> bool dom_result" where
  "bp_verify_with_extra_commit B commitment_sec1 proof extra =
    (if extra = [] then Err (Malformed ''range proof extra commitment must not be empty'')
     else if \<not> range_proof_length_is_canonical (length proof) then
       Err (Malformed ''range proof length'')
     else
       and_then (ffi_ready B) (\<lambda>_.
       and_then (Commitment_from_compressed_bytes B commitment_sec1) (\<lambda>c.
       and_then (derive_complement_commitment B c MAX_PROVABLE_VALUE) (\<lambda>complement.
       and_then (sec1_to_zkp B commitment_sec1) (\<lambda>z1.
       and_then (sec1_to_zkp B (commit_bytes complement)) (\<lambda>z2.
       ffi_bulletproof_verify B [z1, z2] proof extra))))))"

section \<open>Recovery capsules\<close>

definition RECOVERY_VERSION :: u16 where [dom_consts]: "RECOVERY_VERSION = 1"
definition RECOVERY_CIPHERTEXT_SIZE :: nat where [dom_consts]: "RECOVERY_CIPHERTEXT_SIZE = 64 + 16"

datatype recovery_capsule = RecoveryCapsule (capsule_bytes: bytes)

datatype recovery_capsule_frontier =
  CapsuleWrongLength | CapsuleUnsupportedVersion | CapsuleWrongCiphertextLength | CapsuleCandidate

definition classify_recovery_capsule_frontier :: "nat \<Rightarrow> u16 \<Rightarrow> nat \<Rightarrow> recovery_capsule_frontier" where
  "classify_recovery_capsule_frontier len version ciphertext_length =
    (if len \<noteq> RECOVERY_CAPSULE_SIZE then CapsuleWrongLength
     else if version \<noteq> RECOVERY_VERSION then CapsuleUnsupportedVersion
     else if ciphertext_length \<noteq> RECOVERY_CIPHERTEXT_SIZE then CapsuleWrongCiphertextLength
     else CapsuleCandidate)"

definition RecoveryCapsule_from_bytes :: "bytes \<Rightarrow> recovery_capsule dom_result" where
  "RecoveryCapsule_from_bytes bs =
    (let version = (if 2 \<le> length bs then word_from_le [bs ! 0, bs ! 1] else 0);
         ciphertext_len = (if 16 \<le> length bs then unat (word_from_le [bs ! 14, bs ! 15] :: u16) else 0)
     in case classify_recovery_capsule_frontier (length bs) version ciphertext_len of
          CapsuleWrongLength \<Rightarrow> Err (Malformed ''recovery capsule length'')
        | CapsuleUnsupportedVersion \<Rightarrow> Err (Malformed ''unsupported recovery capsule version'')
        | CapsuleWrongCiphertextLength \<Rightarrow> Err (Malformed ''recovery ciphertext length'')
        | CapsuleCandidate \<Rightarrow> Ok (RecoveryCapsule bs))"

section \<open>Byte comparison against the curve order\<close>

lemma bytes_lt_ct_loop_True: "bytes_lt_ct_loop True e xs ys"
  by (induction True e xs ys rule: bytes_lt_ct_loop.induct) (auto simp: Let_def)

lemma bytes_lt_ct_loop_decided: "\<not> bytes_lt_ct_loop False False xs ys"
  by (induction False False xs ys rule: bytes_lt_ct_loop.induct) (auto simp: Let_def)

lemma be_to_nat_lt_digit:
  assumes "length xs = length ys" "a < b"
  shows "be_to_nat (a # xs) < be_to_nat (b # ys)"
proof -
  have "be_to_nat (a # xs) < unat a * 256 ^ length xs + 256 ^ length xs"
    using be_to_nat_less [of xs] by (simp add: be_to_nat_Cons)
  also have "\<dots> = Suc (unat a) * 256 ^ length xs" by simp
  also have "\<dots> \<le> unat b * 256 ^ length xs"
    using assms(2) by (intro mult_le_mono1) (simp add: word_less_nat_alt)
  also have "\<dots> \<le> be_to_nat (b # ys)"
    using assms(1) by (simp add: be_to_nat_Cons)
  finally show ?thesis .
qed

lemma bytes_lt_ct_loop_iff:
  "length xs = length ys \<Longrightarrow> bytes_lt_ct_loop False True xs ys \<longleftrightarrow> be_to_nat xs < be_to_nat ys"
proof (induction xs ys rule: list_induct2)
  case Nil
  then show ?case by simp
next
  case (Cons a xs b ys)
  consider "a < b" | "b < a" | "a = b" by fastforce
  then show ?case
  proof cases
    case 1
    then show ?thesis
      using be_to_nat_lt_digit [OF Cons.hyps 1]
      by (simp add: bytes_lt_ct_loop_True word_less_def Let_def)
  next
    case 2
    then have "be_to_nat (b # ys) < be_to_nat (a # xs)"
      using Cons.hyps by (intro be_to_nat_lt_digit) simp_all
    with 2 show ?thesis by (simp add: bytes_lt_ct_loop_decided word_less_def Let_def)
  next
    case 3
    then show ?thesis using Cons by (simp add: be_to_nat_Cons)
  qed
qed

lemma length_SECP256K1_N [simp]: "length SECP256K1_N = 32"
  by (simp add: SECP256K1_N_def)

lemma bytes_lt_ct_iff: "length a = length b \<Longrightarrow> bytes_lt_ct a b \<longleftrightarrow> be_to_nat a < be_to_nat b"
  by (simp add: bytes_lt_ct_def bytes_lt_ct_loop_iff)

lemma be_to_nat_replicate_0: "be_to_nat (replicate n 0) = 0"
proof -
  have "le_to_nat (replicate n 0) = 0" by (induction n) simp_all
  then show ?thesis by (simp add: be_to_nat_def)
qed

text \<open>
  The constant-time scalar test is the mathematical range test: on 32 bytes it accepts
  exactly the big-endian numbers strictly between zero and the curve order, although it
  never exits early.
\<close>

theorem is_scalar_valid_range:
  assumes "length bs = 32"
  shows "is_scalar_valid bs \<longleftrightarrow> 0 < be_to_nat bs \<and> be_to_nat bs < curve_order"
proof -
  have "bs = replicate 32 0 \<longleftrightarrow> be_to_nat bs = be_to_nat (replicate 32 0)"
    using assms by (subst be_to_nat_inject) simp_all
  then show ?thesis
    using assms
    by (auto simp: is_scalar_valid_def bytes_eq_zero_ct_def bytes_lt_ct_iff curve_order_def
        be_to_nat_replicate_0)
qed

theorem is_scalar_valid_range_witness:
  "is_scalar_valid (replicate 31 0 @ [7]) \<longleftrightarrow>
    0 < be_to_nat (replicate 31 0 @ [7]) \<and> be_to_nat (replicate 31 0 @ [7]) < curve_order"
  by (rule is_scalar_valid_range) simp

section \<open>Scalar multiplication\<close>

primrec smul :: "nat \<Rightarrow> 'p::ab_group_add \<Rightarrow> 'p" where
  "smul 0 P = 0"
| "smul (Suc k) P = P + smul k P"

definition mul_law :: "'p::ab_group_add backend \<Rightarrow> bool" where
  "mul_law B \<longleftrightarrow> (\<forall>P k. point_mul B P k = smul k P)"

lemma smul_add: "smul (a + b) P = smul a P + smul b P"
  by (induction a) (simp_all add: algebra_simps)

lemma smul_add_right: "smul k (P + Q) = smul k P + smul k Q"
  by (induction k) (simp_all add: algebra_simps)

lemma smul_zero [simp]: "smul k (0 :: 'p::ab_group_add) = 0"
  by (induction k) simp_all

lemma smul_mult: "smul (a * b) P = smul a (smul b P)"
  by (induction a) (simp_all add: smul_add)

lemma smul_sum_list: "smul (sum_list ks) P = sum_list (map (\<lambda>k. smul k P) ks)"
  by (induction ks) (simp_all add: smul_add)

lemma smul_mod:
  assumes "smul n P = (0 :: 'p::ab_group_add)"
  shows "smul (k mod n) P = smul k P"
proof -
  have "smul k P = smul (k div n * n + k mod n) P" by simp
  also have "\<dots> = smul (k mod n) P" by (simp only: smul_add smul_mult assms smul_zero add_0)
  finally show ?thesis by simp
qed

section \<open>The balance equations as group equations\<close>

definition points_of :: "'p backend \<Rightarrow> commitment list \<Rightarrow> 'p list \<Rightarrow> bool" where
  "points_of B cs ps \<longleftrightarrow> try_map (Commitment_to_projective B) cs = Ok ps"

lemma sum_fold_eq:
  fixes a :: "'p::ab_group_add"
  shows "try_fold (\<lambda>acc c. and_then (f c) (\<lambda>p. Ok (acc + p))) a cs = map_ok (\<lambda>ps. a + sum_list ps) (try_map f cs)"
proof (induction cs arbitrary: a)
  case (Cons c cs)
  then show ?case by (cases "f c"; cases "try_map f cs") (simp_all add: add.assoc)
qed simp

lemma sum_projective_Ok:
  "sum_projective B cs = Ok P \<longleftrightarrow> (\<exists>ps. points_of B cs ps \<and> sum_list ps = P)"
  by (simp add: sum_projective_def sum_fold_eq points_of_def)

lemma points_of_unique: "points_of B cs ps \<Longrightarrow> points_of B cs qs \<Longrightarrow> ps = qs"
  by (simp add: points_of_def)

lemma points_of_append:
  "points_of B (xs @ ys) ps \<longleftrightarrow> (\<exists>as bs. ps = as @ bs \<and> points_of B xs as \<and> points_of B ys bs)"
  by (auto simp: points_of_def try_map_append)

lemma points_of_Nil [simp]: "points_of B [] ps \<longleftrightarrow> ps = []"
  by (auto simp: points_of_def)

lemma points_of_Cons:
  "points_of B (c # cs) ps \<longleftrightarrow>
    (\<exists>p qs. ps = p # qs \<and> Commitment_to_projective B c = Ok p \<and> points_of B cs qs)"
  by (auto simp: points_of_def)

lemma Commitment_to_projective_no_panic: "Commitment_to_projective B c \<noteq> Panic s"
  by (simp add: Commitment_to_projective_def)

lemma sum_projective_no_panic: "sum_projective B cs \<noteq> Panic s"
  by (simp add: sum_projective_def sum_fold_eq try_map_no_panic Commitment_to_projective_no_panic)

definition offset_point :: "'p::ab_group_add backend \<Rightarrow> bytes \<Rightarrow> 'p \<Rightarrow> bool" where
  "offset_point B offset P \<longleftrightarrow>
    (if offset = replicate 32 0 then P = 0
     else \<exists>s. scalar_from_bytes B offset = Some s \<and> P = point_mul B (GENERATOR B) s)"

definition value_point :: "'p::ab_group_add backend \<Rightarrow> u64 \<Rightarrow> 'p \<Rightarrow> bool" where
  "value_point B v P \<longleftrightarrow>
    (if v = 0 then P = 0 else \<exists>h. h_point B = Ok h \<and> P = point_mul B h (unat v))"

lemma verify_balance_equation_True:
  "verify_balance_equation B outs ins excs offset fee = Ok True \<longleftrightarrow>
    (\<exists>os is es F D. points_of B outs os \<and> points_of B ins is \<and> points_of B excs es
      \<and> value_point B fee F \<and> offset_point B offset D
      \<and> sum_list os - sum_list is + F = sum_list es + D)"
  unfolding verify_balance_equation_def value_point_def offset_point_def
  by (cases "fee = 0"; cases "offset = replicate 32 0")
    (auto simp: sum_projective_Ok Let_def word_gt_0 | metis)+

lemma verify_block_balance_equation_True:
  "verify_block_balance_equation B outs ins excs offset reward = Ok True \<longleftrightarrow>
    (\<exists>os is es F D. points_of B outs os \<and> points_of B ins is \<and> points_of B excs es
      \<and> value_point B reward F \<and> offset_point B offset D
      \<and> sum_list os - sum_list is = sum_list es + D + F)"
  unfolding verify_block_balance_equation_def value_point_def offset_point_def
  by (cases "reward = 0"; cases "offset = replicate 32 0")
    (auto simp: sum_projective_Ok Let_def word_gt_0 | metis)+

section \<open>Openings and conservation of value\<close>

text \<open>
  An opening of a commitment is a value in the range the proof attests and a blinding
  scalar; a kernel excess opens to a multiple of the generator alone, which is what its
  signature attests.  Two openings of one point with different values are a break of the
  commitment scheme.
\<close>

definition opens :: "'p::ab_group_add backend \<Rightarrow> 'p \<Rightarrow> commitment \<Rightarrow> nat \<times> nat \<Rightarrow> bool" where
  "opens B H c vr \<longleftrightarrow> fst vr \<le> unat MAX_PROVABLE_VALUE
    \<and> Commitment_to_projective B c = Ok (smul (fst vr) H + smul (snd vr) (GENERATOR B))"

definition opens_excess :: "'p::ab_group_add backend \<Rightarrow> commitment \<Rightarrow> nat \<Rightarrow> bool" where
  "opens_excess B c e \<longleftrightarrow> Commitment_to_projective B c = Ok (smul e (GENERATOR B))"

definition double_opening :: "'p::ab_group_add backend \<Rightarrow> 'p \<Rightarrow> nat \<times> nat \<Rightarrow> nat \<times> nat \<Rightarrow> bool" where
  "double_opening B H x y \<longleftrightarrow> fst x mod curve_order \<noteq> fst y mod curve_order
    \<and> smul (fst x) H + smul (snd x) (GENERATOR B) = smul (fst y) H + smul (snd y) (GENERATOR B)"

definition value_sum :: "(nat \<times> nat) list \<Rightarrow> nat" where
  "value_sum os = sum_list (map fst os)"

definition blind_sum :: "(nat \<times> nat) list \<Rightarrow> nat" where
  "blind_sum os = sum_list (map snd os)"

definition offset_scalar :: "'p backend \<Rightarrow> bytes \<Rightarrow> nat" where
  "offset_scalar B offset =
    (if offset = replicate 32 0 then 0
     else case scalar_from_bytes B offset of Some s \<Rightarrow> s | None \<Rightarrow> 0)"

lemma opens_points:
  assumes "list_all2 (opens B H) cs os"
  shows "\<exists>ps. points_of B cs ps \<and> sum_list ps = smul (value_sum os) H + smul (blind_sum os) (GENERATOR B)"
  using assms
proof (induction cs os rule: list_all2_induct)
  case Nil
  then show ?case by (simp add: value_sum_def blind_sum_def)
next
  case (Cons c cs vr os)
  then obtain ps where "points_of B cs ps"
      "sum_list ps = smul (value_sum os) H + smul (blind_sum os) (GENERATOR B)"
    by blast
  with Cons.hyps(1) show ?case
    by (auto simp: points_of_Cons opens_def value_sum_def blind_sum_def smul_add algebra_simps)
qed

lemma opens_excess_points:
  assumes "list_all2 (opens_excess B) cs es"
  shows "\<exists>ps. points_of B cs ps \<and> sum_list ps = smul (sum_list es) (GENERATOR B)"
  using assms
proof (induction cs es rule: list_all2_induct)
  case (Cons c cs e es)
  then show ?case by (auto simp: points_of_Cons opens_excess_def smul_add)
qed simp

lemma value_sum_bound:
  "list_all2 (opens B H) cs os \<Longrightarrow> value_sum os \<le> length cs * unat MAX_PROVABLE_VALUE"
  by (induction cs os rule: list_all2_induct) (auto simp: value_sum_def opens_def)

lemma opens_sum:
  "list_all2 (opens B H) cs os \<Longrightarrow> points_of B cs ps \<Longrightarrow>
    sum_list ps = smul (value_sum os) H + smul (blind_sum os) (GENERATOR B)"
  by (drule opens_points) (auto dest: points_of_unique)

lemma opens_excess_sum:
  "list_all2 (opens_excess B) cs es \<Longrightarrow> points_of B cs ps \<Longrightarrow>
    sum_list ps = smul (sum_list es) (GENERATOR B)"
  by (drule opens_excess_points) (auto dest: points_of_unique)

lemma offset_point_smul:
  "mul_law B \<Longrightarrow> offset_point B offset D \<Longrightarrow> D = smul (offset_scalar B offset) (GENERATOR B)"
  by (auto simp: offset_point_def offset_scalar_def mul_law_def split: if_splits)

lemma value_point_smul:
  "mul_law B \<Longrightarrow> h_point B = Ok H \<Longrightarrow> value_point B v F \<Longrightarrow> F = smul (unat v) H"
  by (auto simp: value_point_def mul_law_def split: if_splits)

lemma unat_MAX_PROVABLE_VALUE [simp]: "unat MAX_PROVABLE_VALUE = 2 ^ 52 - 1"
  by (simp add: MAX_PROVABLE_VALUE_def push_bit_eq_mult)

lemma value_sum_less:
  assumes "list_all2 (opens B H) cs os" "length cs < 2 ^ 64"
  shows "value_sum os < 2 ^ 116"
proof -
  have "value_sum os \<le> length cs * (2 ^ 52 - 1)"
    using value_sum_bound [OF assms(1)] by simp
  also have "\<dots> \<le> 2 ^ 64 * (2 ^ 52 - 1)"
    using assms(2) by (intro mult_le_mono1) simp
  finally show ?thesis by simp
qed

lemma curve_order_large: "2 ^ 200 < curve_order"
  by (simp add: curve_order_def SECP256K1_N_def be_to_nat_def)

lemma double_openingI:
  assumes "smul v H + smul r (GENERATOR B) = smul v' H + smul r' (GENERATOR B)"
    and "v < 2 ^ 200" "v' < 2 ^ 200"
  shows "v = v' \<or> double_opening B H (v, r) (v', r')"
  using assms curve_order_large by (auto simp: double_opening_def)

lemma balance_conserves:
  assumes law: "mul_law B" "h_point B = Ok H"
    and outs: "list_all2 (opens B H) outs oo" and ins: "list_all2 (opens B H) ins ii"
    and excs: "list_all2 (opens_excess B) excs ee"
    and few: "length outs < 2 ^ 64" "length ins < 2 ^ 64"
    and valid: "verify_balance_equation B outs ins excs offset fee = Ok True"
  shows "value_sum oo + unat fee = value_sum ii
    \<or> double_opening B H (value_sum oo + unat fee, blind_sum oo)
        (value_sum ii, blind_sum ii + sum_list ee + offset_scalar B offset)"
proof (rule double_openingI)
  obtain os ip es F D where p: "points_of B outs os" "points_of B ins ip" "points_of B excs es"
      "value_point B fee F" "offset_point B offset D"
      and eq: "sum_list os - sum_list ip + F = sum_list es + D"
    using valid by (auto simp: verify_balance_equation_True)
  have "sum_list os = smul (value_sum oo) H + smul (blind_sum oo) (GENERATOR B)"
      "sum_list ip = smul (value_sum ii) H + smul (blind_sum ii) (GENERATOR B)"
      "sum_list es = smul (sum_list ee) (GENERATOR B)"
    using opens_sum [OF outs p(1)] opens_sum [OF ins p(2)] opens_excess_sum [OF excs p(3)] by simp_all
  moreover have "F = smul (unat fee) H" "D = smul (offset_scalar B offset) (GENERATOR B)"
    using p law by (auto dest: value_point_smul offset_point_smul)
  ultimately show "smul (value_sum oo + unat fee) H + smul (blind_sum oo) (GENERATOR B)
      = smul (value_sum ii) H
        + smul (blind_sum ii + sum_list ee + offset_scalar B offset) (GENERATOR B)"
    using eq by (simp add: smul_add algebra_simps)
next
  show "value_sum oo + unat fee < 2 ^ 200"
    using value_sum_less [OF outs few(1)] unat_less_pow [of fee] by simp
next
  show "value_sum ii < 2 ^ 200" using value_sum_less [OF ins few(2)] by simp
qed

lemma block_balance_conserves:
  assumes law: "mul_law B" "h_point B = Ok H"
    and outs: "list_all2 (opens B H) outs oo" and ins: "list_all2 (opens B H) ins ii"
    and excs: "list_all2 (opens_excess B) excs ee"
    and few: "length outs < 2 ^ 64" "length ins < 2 ^ 64"
    and valid: "verify_block_balance_equation B outs ins excs offset reward = Ok True"
  shows "value_sum oo = value_sum ii + unat reward
    \<or> double_opening B H (value_sum oo, blind_sum oo)
        (value_sum ii + unat reward, blind_sum ii + sum_list ee + offset_scalar B offset)"
proof (rule double_openingI)
  obtain os ip es F D where p: "points_of B outs os" "points_of B ins ip" "points_of B excs es"
      "value_point B reward F" "offset_point B offset D"
      and eq: "sum_list os - sum_list ip = sum_list es + D + F"
    using valid by (auto simp: verify_block_balance_equation_True)
  have "sum_list os = smul (value_sum oo) H + smul (blind_sum oo) (GENERATOR B)"
      "sum_list ip = smul (value_sum ii) H + smul (blind_sum ii) (GENERATOR B)"
      "sum_list es = smul (sum_list ee) (GENERATOR B)"
    using opens_sum [OF outs p(1)] opens_sum [OF ins p(2)] opens_excess_sum [OF excs p(3)] by simp_all
  moreover have "F = smul (unat reward) H" "D = smul (offset_scalar B offset) (GENERATOR B)"
    using p law by (auto dest: value_point_smul offset_point_smul)
  ultimately show "smul (value_sum oo) H + smul (blind_sum oo) (GENERATOR B)
      = smul (value_sum ii + unat reward) H
        + smul (blind_sum ii + sum_list ee + offset_scalar B offset) (GENERATOR B)"
    using eq by (simp add: smul_add algebra_simps)
next
  show "value_sum oo < 2 ^ 200" using value_sum_less [OF outs few(1)] by simp
next
  show "value_sum ii + unat reward < 2 ^ 200"
    using value_sum_less [OF ins few(2)] unat_less_pow [of reward] by simp
qed

section \<open>A concrete backend\<close>

text \<open>
  An instance of the backend on the integers, with generator one and value generator
  seven.  It satisfies the laws the properties assume and is the input of their witnesses.
\<close>

definition demo_backend :: "int backend" where
  "demo_backend =
    \<lparr>blake2b = (\<lambda>bs. take 32 (bs @ replicate 32 0)), hmac_sha256 = (\<lambda>k m. replicate 32 1),
     scalar_from_repr = (\<lambda>bs. if be_to_nat bs < curve_order then Some (be_to_nat bs) else None),
     scalar_to_repr = (\<lambda>s. nat_to_be 32 s),
     encoded_point = (\<lambda>bs. True),
     affine_of_encoded = (\<lambda>bs. Some (if bs = H_COMPRESSED_FINAL then 7 else int (be_to_nat (tl bs)))),
     compress_point = (\<lambda>p. if p = 7 then H_COMPRESSED_FINAL else 0x02 # nat_to_be 32 (nat p)),
     point_mul = (\<lambda>p k. smul k p), GENERATOR = 1,
     hash_to_curve = (\<lambda>m d. Some 7),
     secp_public_key = (\<lambda>bs. Some bs), secp_secret_key_ok = (\<lambda>bs. True),
     secp_public_of_secret = (\<lambda>bs. 0x02 # bs), y_is_square = (\<lambda>bs. True),
     ffi_ready = Ok (), ffi_bulletproof_verify = (\<lambda>cs p x. Ok True)\<rparr>"

end
