(* ===== verification/Transaction.thy ===== *)
theory Transaction
  imports Crypto Fee_Policy
begin

text \<open>
  Transactions of \<^verbatim>\<open>dom-consensus/src/transaction.rs\<close>: inputs, outputs with their proof
  envelope, kernels, the coinbase transaction, their canonical encodings, and the
  structural, lock-height, range-proof, signature and balance checks.  The lemmas
  interpret the codec contract for every type, characterise the structural checks, and
  show that an accepted transaction conserves value unless its openings break the
  commitment scheme, and that an accepted coinbase claims exactly subsidy plus fees.
\<close>

section \<open>Kernel features and coinbase value\<close>

definition is_known_kernel_features :: "u8 \<Rightarrow> bool" where
  "is_known_kernel_features features =
    (features = KERNEL_FEAT_PLAIN \<or> features = KERNEL_FEAT_COINBASE \<or> features = KERNEL_FEAT_HEIGHT_LOCKED)"

definition validate_kernel_features :: "u8 \<Rightarrow> unit dom_result" where
  "validate_kernel_features features =
    (if is_known_kernel_features features then Ok () else Err (Invalid ''unknown kernel features''))"

datatype kernel_lock_classification = LockCanonical | HeightLockedAtZero | NonHeightLockedAtNonzero

definition classify_kernel_lock_fields :: "u8 \<Rightarrow> u64 \<Rightarrow> kernel_lock_classification" where
  "classify_kernel_lock_fields features lock_height =
    (if features = KERNEL_FEAT_HEIGHT_LOCKED \<and> lock_height = 0 then HeightLockedAtZero
     else if features \<noteq> KERNEL_FEAT_HEIGHT_LOCKED \<and> lock_height \<noteq> 0 then NonHeightLockedAtNonzero
     else LockCanonical)"

datatype coinbase_value_classification =
  ValueAccept | RewardFeeOverflow | ExpectedAboveMaximum | ExplicitAboveMaximum | ValueMismatch

definition classify_coinbase_value :: "u64 \<Rightarrow> u64 \<Rightarrow> u64 \<Rightarrow> u64 \<Rightarrow> coinbase_value_classification" where
  "classify_coinbase_value reward total_tx_fees explicit_value maximum_provable_value =
    (case checked_add reward total_tx_fees of
       None \<Rightarrow> RewardFeeOverflow
     | Some expected \<Rightarrow>
         if maximum_provable_value < expected then ExpectedAboveMaximum
         else if maximum_provable_value < explicit_value then ExplicitAboveMaximum
         else if explicit_value \<noteq> expected then ValueMismatch
         else ValueAccept)"

section \<open>Data\<close>

record transaction_input =
  ti_commitment :: commitment

record transaction_output =
  to_commitment :: commitment
  to_proof :: bytes

record transaction_kernel =
  tk_features :: u8
  tk_fee :: amount
  tk_lock_height :: u64
  tk_excess :: commitment
  tk_excess_signature :: bytes

record coinbase_kernel =
  ck_features :: u8
  ck_explicit_value :: u64
  ck_excess :: commitment
  ck_excess_signature :: bytes

record transaction =
  inputs :: "transaction_input list"
  outputs :: "transaction_output list"
  kernels :: "transaction_kernel list"
  tx_offset :: bytes

record coinbase_transaction =
  cb_output :: transaction_output
  cb_kernel :: coinbase_kernel
  cb_offset :: bytes

section \<open>Canonical encodings\<close>

definition serialize_input :: "transaction_input \<Rightarrow> writer \<Rightarrow> writer dom_result" where
  "serialize_input i w = Ok (write_bytes w (commit_bytes (ti_commitment i)))"

definition deserialize_input :: "'p backend \<Rightarrow> reader \<Rightarrow> transaction_input parse" where
  "deserialize_input B r =
    and_then (read_array 33 r) (\<lambda>(bs, r).
    and_then (Commitment_from_compressed_bytes B bs) (\<lambda>c.
    Ok (\<lparr>ti_commitment = c\<rparr>, r)))"

definition serialize_output :: "transaction_output \<Rightarrow> writer \<Rightarrow> writer dom_result" where
  "serialize_output ou w = write_vec (write_bytes w (commit_bytes (to_commitment ou))) (to_proof ou)"

definition deserialize_output :: "'p backend \<Rightarrow> reader \<Rightarrow> transaction_output parse" where
  "deserialize_output B r =
    and_then (read_array 33 r) (\<lambda>(commitment_bytes, r).
    and_then (read_vec r MAX_OUTPUT_PROOF_ENVELOPE_SIZE) (\<lambda>(proof, r).
    and_then (Commitment_from_compressed_bytes B commitment_bytes) (\<lambda>c.
    Ok (\<lparr>to_commitment = c, to_proof = proof\<rparr>, r))))"

definition serialize_kernel :: "transaction_kernel \<Rightarrow> writer \<Rightarrow> writer dom_result" where
  "serialize_kernel k w =
    and_then (serialize_amount (tk_fee k) (write_u8 w (tk_features k))) (\<lambda>w.
    Ok (write_bytes (write_bytes (write_u64 w (tk_lock_height k)) (commit_bytes (tk_excess k)))
          (tk_excess_signature k)))"

definition deserialize_kernel :: "'p backend \<Rightarrow> reader \<Rightarrow> transaction_kernel parse" where
  "deserialize_kernel B r =
    and_then (read_u8 r) (\<lambda>(features, r).
    and_then (deserialize_amount r) (\<lambda>(fee, r).
    and_then (read_u64 r) (\<lambda>(lock_height, r).
    and_then (read_array 33 r) (\<lambda>(excess_bytes, r).
    and_then (Commitment_from_compressed_bytes B excess_bytes) (\<lambda>excess.
    and_then (read_array 65 r) (\<lambda>(sig, r).
    Ok (\<lparr>tk_features = features, tk_fee = fee, tk_lock_height = lock_height,
         tk_excess = excess, tk_excess_signature = sig\<rparr>, r)))))))"

definition serialize_coinbase_kernel :: "coinbase_kernel \<Rightarrow> writer \<Rightarrow> writer dom_result" where
  "serialize_coinbase_kernel k w =
    Ok (write_bytes (write_bytes (write_u64 (write_u8 w (ck_features k)) (ck_explicit_value k))
          (commit_bytes (ck_excess k))) (ck_excess_signature k))"

definition deserialize_coinbase_kernel :: "'p backend \<Rightarrow> reader \<Rightarrow> coinbase_kernel parse" where
  "deserialize_coinbase_kernel B r =
    and_then (read_u8 r) (\<lambda>(features, r).
    if features \<noteq> KERNEL_FEAT_COINBASE then Err (Malformed ''expected coinbase features 0x01'')
    else
      and_then (read_u64 r) (\<lambda>(explicit_value, r).
      and_then (read_array 33 r) (\<lambda>(excess_bytes, r).
      and_then (Commitment_from_compressed_bytes B excess_bytes) (\<lambda>excess.
      and_then (read_array 65 r) (\<lambda>(sig, r).
      Ok (\<lparr>ck_features = features, ck_explicit_value = explicit_value, ck_excess = excess,
           ck_excess_signature = sig\<rparr>, r))))))"

definition reject_plain_kernel_as_coinbase :: "bytes \<Rightarrow> unit dom_result" where
  "reject_plain_kernel_as_coinbase data =
    (case data of
       [] \<Rightarrow> Ok ()
     | b # _ \<Rightarrow> if b \<noteq> KERNEL_FEAT_COINBASE then Err (Malformed ''plain kernel cannot be used as coinbase'')
         else Ok ())"

definition serialize_transaction :: "transaction \<Rightarrow> writer \<Rightarrow> writer dom_result" where
  "serialize_transaction tx w =
    and_then (write_list serialize_input w (inputs tx)) (\<lambda>w.
    and_then (write_list serialize_output w (outputs tx)) (\<lambda>w.
    and_then (write_list serialize_kernel w (kernels tx)) (\<lambda>w.
    Ok (write_bytes w (tx_offset tx)))))"

definition deserialize_transaction :: "'p backend \<Rightarrow> reader \<Rightarrow> transaction parse" where
  "deserialize_transaction B r =
    and_then (read_list (deserialize_input B) 33 r MAX_INPUTS_PER_TX) (\<lambda>(ins, r).
    and_then (read_list (deserialize_output B) (33 + 4) r MAX_OUTPUTS_PER_TX) (\<lambda>(outs, r).
    and_then (read_list (deserialize_kernel B) (1 + 8 + 8 + 33 + 65) r MAX_KERNELS_PER_TX) (\<lambda>(ks, r).
    and_then (read_array 32 r) (\<lambda>(offset, r).
    Ok (\<lparr>inputs = ins, outputs = outs, kernels = ks, tx_offset = offset\<rparr>, r)))))"

definition serialize_coinbase :: "coinbase_transaction \<Rightarrow> writer \<Rightarrow> writer dom_result" where
  "serialize_coinbase cb w =
    and_then (serialize_output (cb_output cb) w) (\<lambda>w.
    and_then (serialize_coinbase_kernel (cb_kernel cb) w) (\<lambda>w.
    Ok (write_bytes w (cb_offset cb))))"

definition deserialize_coinbase :: "'p backend \<Rightarrow> reader \<Rightarrow> coinbase_transaction parse" where
  "deserialize_coinbase B r =
    and_then (deserialize_output B r) (\<lambda>(ou, r).
    and_then (deserialize_coinbase_kernel B r) (\<lambda>(k, r).
    and_then (read_array 32 r) (\<lambda>(offset, r).
    Ok (\<lparr>cb_output = ou, cb_kernel = k, cb_offset = offset\<rparr>, r))))"

section \<open>Outputs and kernels\<close>

definition with_recovery_capsule :: "commitment \<Rightarrow> bytes \<Rightarrow> recovery_capsule \<Rightarrow> transaction_output dom_result" where
  "with_recovery_capsule c proof capsule =
    (if length proof \<noteq> RANGE_PROOF_SIZE then Err (Invalid ''range proof length'')
     else Ok \<lparr>to_commitment = c, to_proof = proof @ capsule_bytes capsule\<rparr>)"

definition range_proof_bytes :: "transaction_output \<Rightarrow> bytes dom_result" where
  "range_proof_bytes ou =
    (if length (to_proof ou) = RANGE_PROOF_SIZE then Ok (to_proof ou)
     else if length (to_proof ou) = MAX_OUTPUT_PROOF_ENVELOPE_SIZE then
       Ok (take RANGE_PROOF_SIZE (to_proof ou))
     else Err (Invalid ''noncanonical output proof envelope length''))"

definition recovery_capsule_of :: "transaction_output \<Rightarrow> recovery_capsule option dom_result" where
  "recovery_capsule_of ou =
    (if length (to_proof ou) = RANGE_PROOF_SIZE then Ok None
     else if length (to_proof ou) = MAX_OUTPUT_PROOF_ENVELOPE_SIZE then
       map_ok Some (RecoveryCapsule_from_bytes (drop RANGE_PROOF_SIZE (to_proof ou)))
     else Err (Invalid ''noncanonical output proof envelope length''))"

definition TransactionKernel_weight :: "transaction_kernel \<Rightarrow> u32" where
  "TransactionKernel_weight k = WEIGHT_KERNEL"

definition CoinbaseKernel_weight :: "coinbase_kernel \<Rightarrow> u32" where
  "CoinbaseKernel_weight k = WEIGHT_COINBASE_KERNEL"

definition validate_explicit_value :: "coinbase_kernel \<Rightarrow> block_height \<Rightarrow> u64 \<Rightarrow> unit dom_result" where
  "validate_explicit_value k block_height total_tx_fees =
    (let reward = noms (block_reward block_height);
         expected = checked_add reward total_tx_fees
     in case classify_coinbase_value reward total_tx_fees (ck_explicit_value k) MAX_PROVABLE_VALUE of
          ValueAccept \<Rightarrow> Ok ()
        | RewardFeeOverflow \<Rightarrow> Err (Invalid ''coinbase value overflow'')
        | ExpectedAboveMaximum \<Rightarrow>
            and_then (expect expected ''classification excludes reward/fee overflow'') (\<lambda>_.
            Err (Invalid ''coinbase expected value exceeds MAX_PROVABLE_VALUE''))
        | ExplicitAboveMaximum \<Rightarrow> Err (Invalid ''coinbase explicit_value exceeds MAX_PROVABLE_VALUE'')
        | ValueMismatch \<Rightarrow>
            and_then (expect expected ''classification excludes reward/fee overflow'') (\<lambda>_.
            Err (Invalid ''coinbase explicit_value: expected reward + fees'')))"

section \<open>Transactions\<close>

definition fee_shape :: "transaction \<Rightarrow> transaction_shape dom_result" where
  "fee_shape tx =
    TransactionShape_from_counts (length (inputs tx)) (length (outputs tx)) (length (kernels tx))"

definition weight_checked :: "transaction \<Rightarrow> u32 dom_result" where
  "weight_checked tx =
    and_then (fee_shape tx) (\<lambda>shape.
    and_then (transaction_weight shape) (\<lambda>weight.
    ok_or (usize_to_u32 (unat (total_weight weight))) (Internal ''transaction weight conversion overflow'')))"

definition Transaction_weight :: "transaction \<Rightarrow> u32 dom_result" where
  "Transaction_weight tx =
    expect_ok (weight_checked tx) ''deserialized transaction count limits keep weight in u32''"

definition total_fee :: "transaction \<Rightarrow> u64 dom_result" where
  "total_fee tx =
    try_fold (\<lambda>acc k. ok_or (checked_add acc (noms (tk_fee k))) (Invalid ''fee sum overflow'')) 0 (kernels tx)"

definition check_output_envelope :: "transaction_output \<Rightarrow> unit dom_result" where
  "check_output_envelope ou =
    (if to_proof ou = [] then Err (Invalid ''output has empty range proof'')
     else if MAX_OUTPUT_PROOF_ENVELOPE_SIZE < length (to_proof ou) then
       Err (Invalid ''output proof envelope too large'')
     else Ok ())"

definition check_kernel_fields :: "transaction_kernel \<Rightarrow> unit dom_result" where
  "check_kernel_fields k =
    and_then (validate_kernel_features (tk_features k)) (\<lambda>_.
    if tk_features k = KERNEL_FEAT_COINBASE then
      Err (Invalid ''kernel: COINBASE feature in non-coinbase transaction'')
    else
      case classify_kernel_lock_fields (tk_features k) (tk_lock_height k) of
        LockCanonical \<Rightarrow> Ok ()
      | HeightLockedAtZero \<Rightarrow> Err (Invalid ''kernel: HEIGHT_LOCKED with lock_height == 0'')
      | NonHeightLockedAtNonzero \<Rightarrow>
          Err (Invalid ''kernel: lock_height must be 0 for non-HEIGHT_LOCKED kernels''))"

definition validate_transaction_structure :: "transaction \<Rightarrow> unit dom_result" where
  "validate_transaction_structure tx =
    (if MAX_INPUTS_PER_TX < length (inputs tx) then Err (Invalid ''too many inputs'')
     else if MAX_OUTPUTS_PER_TX < length (outputs tx) then Err (Invalid ''too many outputs'')
     else if MAX_KERNELS_PER_TX < length (kernels tx) then Err (Invalid ''too many kernels'')
     else if kernels tx = [] then Err (Invalid ''transaction must have at least one kernel'')
     else
       and_then (for_each check_output_envelope (outputs tx)) (\<lambda>_.
       and_then (for_each check_kernel_fields (kernels tx)) (\<lambda>_.
       and_then (insert_all_new {} (map (\<lambda>i. commit_bytes (ti_commitment i)) (inputs tx))
           (Invalid ''duplicate input commitment'')) (\<lambda>_.
       and_then (insert_all_new {} (map (\<lambda>ou. commit_bytes (to_commitment ou)) (outputs tx))
           (Invalid ''duplicate output commitment'')) (\<lambda>_.
       and_then (total_fee tx) (\<lambda>_.
       and_then (weight_checked tx) (\<lambda>w.
       if MAX_TX_WEIGHT < w then Err (Invalid ''tx weight > MAX_TX_WEIGHT'') else Ok ())))))))"

definition validate_lock_heights :: "transaction \<Rightarrow> block_height \<Rightarrow> unit dom_result" where
  "validate_lock_heights tx current =
    for_each (\<lambda>k.
      if tk_features k = KERNEL_FEAT_HEIGHT_LOCKED \<and> height_val current < tk_lock_height k then
        Err (TemporarilyInvalid ''kernel locked until height'')
      else Ok ()) (kernels tx)"

definition verify_output_proof :: "'p::ab_group_add backend \<Rightarrow> transaction_output \<Rightarrow> bytes \<Rightarrow> recovery_capsule option \<Rightarrow> bool dom_result" where
  "verify_output_proof B ou proof capsule =
    (case capsule of
       Some c \<Rightarrow> bp_verify_with_extra_commit B (commit_bytes (to_commitment ou)) proof (capsule_bytes c)
     | None \<Rightarrow> bp_verify B (commit_bytes (to_commitment ou)) proof)"

definition validate_output_proof :: "'p::ab_group_add backend \<Rightarrow> transaction_output \<Rightarrow> unit dom_result" where
  "validate_output_proof B ou =
    and_then (range_proof_bytes ou) (\<lambda>proof.
    and_then (recovery_capsule_of ou) (\<lambda>capsule.
    case verify_output_proof B ou proof capsule of
      Ok True \<Rightarrow> Ok ()
    | Ok False \<Rightarrow> Err (Invalid ''output range proof verification failed'')
    | Err e \<Rightarrow> Err (Invalid ''output range proof error'')
    | Panic s \<Rightarrow> Panic s))"

definition validate_range_proofs :: "'p::ab_group_add backend \<Rightarrow> transaction \<Rightarrow> unit dom_result" where
  "validate_range_proofs B tx = for_each (validate_output_proof B) (outputs tx)"

definition parse_commitments :: "'p backend \<Rightarrow> commitment list \<Rightarrow> commitment list dom_result" where
  "parse_commitments B cs =
    try_map (\<lambda>c. map_err (\<lambda>_. Invalid ''commitment parse'')
      (Commitment_from_compressed_bytes B (commit_bytes c))) cs"

definition validate_balance_equation :: "'p::ab_group_add backend \<Rightarrow> transaction \<Rightarrow> unit dom_result" where
  "validate_balance_equation B tx =
    and_then (parse_commitments B (map to_commitment (outputs tx))) (\<lambda>outs.
    and_then (parse_commitments B (map ti_commitment (inputs tx))) (\<lambda>ins.
    and_then (parse_commitments B (map tk_excess (kernels tx))) (\<lambda>excesses.
    and_then (total_fee tx) (\<lambda>fee.
    and_then (verify_balance_equation B outs ins excesses (tx_offset tx) fee) (\<lambda>valid.
    if \<not> valid then Err (Invalid ''transaction balance equation does not hold'') else Ok ())))))"

section \<open>Coinbase\<close>

definition validate_coinbase_signature :: "'p::ab_group_add backend \<Rightarrow> coinbase_transaction \<Rightarrow> bytes \<Rightarrow> unit dom_result" where
  "validate_coinbase_signature B cb chain_id =
    (let k = cb_kernel cb;
         kernel_message = blake2b_256_tagged B TAG_KERNEL_MSG_COINBASE
           (ck_features k # u64_to_le (ck_explicit_value k))
     in
     and_then (map_err (\<lambda>_. Invalid ''coinbase signature malformed'')
         (SchnorrSignature_from_bytes B (ck_excess_signature k))) (\<lambda>sig.
     and_then (map_err (\<lambda>_. Invalid ''coinbase excess invalid'')
         (PublicKey_from_compressed_bytes B (commit_bytes (ck_excess k)))) (\<lambda>pk.
     case schnorr_verify B sig pk chain_id (as_bytes kernel_message) of
       Ok True \<Rightarrow> Ok ()
     | Ok False \<Rightarrow> Err (PeerMisbehavior InvalidSignature
         ''coinbase kernel signature invalid - miner does not prove ownership'')
     | Err (Internal msg) \<Rightarrow> Err (Internal (''coinbase sig: '' @ msg))
     | Err e \<Rightarrow> Err e
     | Panic s \<Rightarrow> Panic s)))"

definition CoinbaseTransaction_validate ::
  "'p::ab_group_add backend \<Rightarrow> coinbase_transaction \<Rightarrow> block_height \<Rightarrow> u64 \<Rightarrow> bytes \<Rightarrow> unit dom_result" where
  "CoinbaseTransaction_validate B cb height total_tx_fees chain_id =
    (if ck_features (cb_kernel cb) \<noteq> KERNEL_FEAT_COINBASE then
       Err (Invalid ''coinbase kernel features'')
     else if cb_offset cb \<noteq> replicate 32 0 then Err (Invalid ''coinbase offset must be zero'')
     else
       and_then (validate_explicit_value (cb_kernel cb) height total_tx_fees) (\<lambda>_.
       if to_proof (cb_output cb) = [] then Err (Invalid ''coinbase output has empty range proof'')
       else
         and_then (range_proof_bytes (cb_output cb)) (\<lambda>proof.
         and_then (recovery_capsule_of (cb_output cb)) (\<lambda>capsule.
         and_then
           (case verify_output_proof B (cb_output cb) proof capsule of
              Ok True \<Rightarrow> Ok ()
            | Ok False \<Rightarrow> Err (Invalid ''coinbase range proof verification failed'')
            | Err e \<Rightarrow> Err (Invalid ''coinbase range proof error'')
            | Panic s \<Rightarrow> Panic s) (\<lambda>_.
         validate_coinbase_signature B cb chain_id)))))"

section \<open>Codec interpretations\<close>

definition commitment_ok :: "'p backend \<Rightarrow> commitment \<Rightarrow> bool" where
  "commitment_ok B c \<longleftrightarrow> length (commit_bytes c) = 33 \<and> encoded_point B (commit_bytes c)
    \<and> affine_of_encoded B (commit_bytes c) \<noteq> None"

definition input_ok :: "'p backend \<Rightarrow> transaction_input \<Rightarrow> bool" where
  "input_ok B i \<longleftrightarrow> commitment_ok B (ti_commitment i)"

definition output_ok :: "'p backend \<Rightarrow> transaction_output \<Rightarrow> bool" where
  "output_ok B ou \<longleftrightarrow> commitment_ok B (to_commitment ou) \<and> length (to_proof ou) \<le> MAX_OUTPUT_PROOF_ENVELOPE_SIZE"

definition kernel_ok :: "'p backend \<Rightarrow> transaction_kernel \<Rightarrow> bool" where
  "kernel_ok B k \<longleftrightarrow> amount_ok (tk_fee k) \<and> commitment_ok B (tk_excess k) \<and> length (tk_excess_signature k) = 65"

definition coinbase_kernel_ok :: "'p backend \<Rightarrow> coinbase_kernel \<Rightarrow> bool" where
  "coinbase_kernel_ok B k \<longleftrightarrow> ck_features k = KERNEL_FEAT_COINBASE \<and> commitment_ok B (ck_excess k)
    \<and> length (ck_excess_signature k) = 65"

definition transaction_ok :: "'p backend \<Rightarrow> transaction \<Rightarrow> bool" where
  "transaction_ok B tx \<longleftrightarrow>
     (length (inputs tx) \<le> MAX_INPUTS_PER_TX \<and> list_all (input_ok B) (inputs tx))
     \<and> (length (outputs tx) \<le> MAX_OUTPUTS_PER_TX \<and> list_all (output_ok B) (outputs tx))
     \<and> (length (kernels tx) \<le> MAX_KERNELS_PER_TX \<and> list_all (kernel_ok B) (kernels tx))
     \<and> length (tx_offset tx) = 32"

definition coinbase_ok :: "'p backend \<Rightarrow> coinbase_transaction \<Rightarrow> bool" where
  "coinbase_ok B cb \<longleftrightarrow> output_ok B (cb_output cb) \<and> coinbase_kernel_ok B (cb_kernel cb) \<and> length (cb_offset cb) = 32"

definition enc_input :: "transaction_input \<Rightarrow> bytes" where
  "enc_input i = commit_bytes (ti_commitment i)"

definition enc_output :: "transaction_output \<Rightarrow> bytes" where
  "enc_output ou = commit_bytes (to_commitment ou) @ enc_vec (to_proof ou)"

definition enc_kernel :: "transaction_kernel \<Rightarrow> bytes" where
  "enc_kernel k = [tk_features k] @ u64_to_le (noms (tk_fee k)) @ u64_to_le (tk_lock_height k)
    @ commit_bytes (tk_excess k) @ tk_excess_signature k"

definition enc_coinbase_kernel :: "coinbase_kernel \<Rightarrow> bytes" where
  "enc_coinbase_kernel k = [ck_features k] @ u64_to_le (ck_explicit_value k)
    @ commit_bytes (ck_excess k) @ ck_excess_signature k"

definition enc_transaction :: "transaction \<Rightarrow> bytes" where
  "enc_transaction tx = enc_list enc_input (inputs tx) @ enc_list enc_output (outputs tx)
    @ enc_list enc_kernel (kernels tx) @ tx_offset tx"

definition enc_coinbase :: "coinbase_transaction \<Rightarrow> bytes" where
  "enc_coinbase cb = enc_output (cb_output cb) @ enc_coinbase_kernel (cb_kernel cb) @ cb_offset cb"

lemma commitment_parse_iff:
  "Commitment_from_compressed_bytes B bs = Ok c \<longleftrightarrow> commit_bytes c = bs \<and> commitment_ok B c"
  by (cases c) (auto simp: Commitment_from_compressed_bytes_def commitment_ok_def)

lemma commitment_parse_no_panic [simp]: "Commitment_from_compressed_bytes B bs \<noteq> Panic s"
  by (simp add: Commitment_from_compressed_bytes_def)

lemma commitment_ok_length: "commitment_ok B c \<Longrightarrow> length (commit_bytes c) = 33"
  by (simp add: commitment_ok_def)

interpretation tx_input: codec serialize_input "deserialize_input B" enc_input "input_ok B" 33
  for B :: "'p backend"
proof unfold_locales
  show "deserialize_input B r = Ok (a, r') \<longleftrightarrow> input_ok B a \<and> reads r (enc_input a) r'" for r a r'
    by (cases a) (auto simp: deserialize_input_def reader_simps commitment_parse_iff input_ok_def
        enc_input_def commitment_ok_length)
qed (auto simp: serialize_input_def writer_simps deserialize_input_def and_then_eq_Panic input_ok_def
    enc_input_def commitment_ok_length)

lemma deserialize_output_iff:
  "deserialize_output B r = Ok (a, r') \<longleftrightarrow> output_ok B a \<and> reads r (enc_output a) r'"
proof
  assume "deserialize_output B r = Ok (a, r')"
  then show "output_ok B a \<and> reads r (enc_output a) r'"
    by (auto simp: deserialize_output_def reader_simps read_vec_iff commitment_parse_iff
        output_ok_def enc_output_def dom_consts intro: reads_trans)
next
  assume *: "output_ok B a \<and> reads r (enc_output a) r'"
  then obtain r1 where "read_array 33 r = Ok (commit_bytes (to_commitment a), r1)"
      "read_vec r1 MAX_OUTPUT_PROOF_ENVELOPE_SIZE = Ok (to_proof a, r')"
    by (auto simp: enc_output_def reads_append reader_simps read_vec_iff output_ok_def
        commitment_ok_length dom_consts)
  moreover have "Commitment_from_compressed_bytes B (commit_bytes (to_commitment a)) = Ok (to_commitment a)"
    using * by (simp add: commitment_parse_iff output_ok_def)
  ultimately show "deserialize_output B r = Ok (a, r')"
    by (simp add: deserialize_output_def)
qed

lemma deserialize_output_no_panic: "deserialize_output B r \<noteq> Panic s"
  by (auto simp: deserialize_output_def and_then_eq_Panic)

interpretation tx_output: codec serialize_output "deserialize_output B" enc_output "output_ok B" 37
  for B :: "'p backend"
  by unfold_locales
    (auto simp: deserialize_output_iff serialize_output_def writer_simps write_vec_Ok
      deserialize_output_no_panic output_ok_def enc_output_def enc_vec_def
      commitment_ok_length dom_consts)

lemma deserialize_kernel_iff:
  "deserialize_kernel B r = Ok (a, r') \<longleftrightarrow> kernel_ok B a \<and> reads r (enc_kernel a) r'"
proof
  assume "deserialize_kernel B r = Ok (a, r')"
  then show "kernel_ok B a \<and> reads r (enc_kernel a) r'"
    by (auto simp: deserialize_kernel_def reader_simps amount.des_iff commitment_parse_iff
        kernel_ok_def enc_kernel_def simp del: append_Cons intro!: reads_trans)
next
  assume *: "kernel_ok B a \<and> reads r (enc_kernel a) r'"
  then obtain r1 r2 r3 r4 where "read_u8 r = Ok (tk_features a, r1)"
      "deserialize_amount r1 = Ok (tk_fee a, r2)" "read_u64 r2 = Ok (tk_lock_height a, r3)"
      "read_array 33 r3 = Ok (commit_bytes (tk_excess a), r4)"
      "read_array 65 r4 = Ok (tk_excess_signature a, r')"
    by (auto simp: enc_kernel_def reads_append reader_simps amount.des_iff kernel_ok_def
        commitment_ok_length simp del: append_Cons)
  moreover have "Commitment_from_compressed_bytes B (commit_bytes (tk_excess a)) = Ok (tk_excess a)"
    using * by (simp add: commitment_parse_iff kernel_ok_def)
  ultimately show "deserialize_kernel B r = Ok (a, r')"
    by (simp add: deserialize_kernel_def)
qed

lemma deserialize_kernel_no_panic: "deserialize_kernel B r \<noteq> Panic s"
  by (auto simp: deserialize_kernel_def and_then_eq_Panic amount.des_no_panic)

interpretation tx_kernel: codec serialize_kernel "deserialize_kernel B" enc_kernel "kernel_ok B" 115
  for B :: "'p backend"
  by unfold_locales
    (auto simp: deserialize_kernel_iff serialize_kernel_def serialize_amount_def writer_simps
      deserialize_kernel_no_panic kernel_ok_def enc_kernel_def
      commitment_ok_length)

lemma deserialize_coinbase_kernel_iff:
  "deserialize_coinbase_kernel B r = Ok (a, r') \<longleftrightarrow>
    coinbase_kernel_ok B a \<and> reads r (enc_coinbase_kernel a) r'"
proof
  assume "deserialize_coinbase_kernel B r = Ok (a, r')"
  then show "coinbase_kernel_ok B a \<and> reads r (enc_coinbase_kernel a) r'"
    by (auto simp: deserialize_coinbase_kernel_def reader_simps commitment_parse_iff
        coinbase_kernel_ok_def enc_coinbase_kernel_def simp del: append_Cons
        split: if_splits intro!: reads_trans)
next
  assume *: "coinbase_kernel_ok B a \<and> reads r (enc_coinbase_kernel a) r'"
  then obtain r1 r2 r3 where "read_u8 r = Ok (ck_features a, r1)"
      "read_u64 r1 = Ok (ck_explicit_value a, r2)"
      "read_array 33 r2 = Ok (commit_bytes (ck_excess a), r3)"
      "read_array 65 r3 = Ok (ck_excess_signature a, r')"
    by (auto simp: enc_coinbase_kernel_def reads_append reader_simps coinbase_kernel_ok_def
        commitment_ok_length simp del: append_Cons)
  moreover have "Commitment_from_compressed_bytes B (commit_bytes (ck_excess a)) = Ok (ck_excess a)"
    using * by (simp add: commitment_parse_iff coinbase_kernel_ok_def)
  ultimately show "deserialize_coinbase_kernel B r = Ok (a, r')"
    using * by (cases a) (simp add: deserialize_coinbase_kernel_def coinbase_kernel_ok_def)
qed

lemma deserialize_coinbase_kernel_no_panic: "deserialize_coinbase_kernel B r \<noteq> Panic s"
  by (auto simp: deserialize_coinbase_kernel_def and_then_eq_Panic split: if_splits)

interpretation coinbase_kernel: codec serialize_coinbase_kernel "deserialize_coinbase_kernel B"
  enc_coinbase_kernel "coinbase_kernel_ok B" 107
  for B :: "'p backend"
  by unfold_locales
    (auto simp: deserialize_coinbase_kernel_iff serialize_coinbase_kernel_def writer_simps
      deserialize_coinbase_kernel_no_panic coinbase_kernel_ok_def
      enc_coinbase_kernel_def commitment_ok_length)

interpretation tx_inputs: codec "\<lambda>xs w. write_list serialize_input w xs"
  "\<lambda>r. read_list (deserialize_input B) 33 r MAX_INPUTS_PER_TX" "enc_list enc_input"
  "\<lambda>xs. length xs \<le> MAX_INPUTS_PER_TX \<and> list_all (input_ok B) xs" 4
  for B :: "'p backend"
  by (rule tx_input.list_codec) (simp add: dom_consts)

interpretation tx_outputs: codec "\<lambda>xs w. write_list serialize_output w xs"
  "\<lambda>r. read_list (deserialize_output B) 37 r MAX_OUTPUTS_PER_TX" "enc_list enc_output"
  "\<lambda>xs. length xs \<le> MAX_OUTPUTS_PER_TX \<and> list_all (output_ok B) xs" 4
  for B :: "'p backend"
  by (rule tx_output.list_codec) (simp add: dom_consts)

interpretation tx_kernels: codec "\<lambda>xs w. write_list serialize_kernel w xs"
  "\<lambda>r. read_list (deserialize_kernel B) 115 r MAX_KERNELS_PER_TX" "enc_list enc_kernel"
  "\<lambda>xs. length xs \<le> MAX_KERNELS_PER_TX \<and> list_all (kernel_ok B) xs" 4
  for B :: "'p backend"
  by (rule tx_kernel.list_codec) (simp add: dom_consts)

lemma deserialize_transaction_iff:
  "deserialize_transaction B r = Ok (a, r') \<longleftrightarrow> transaction_ok B a \<and> reads r (enc_transaction a) r'"
proof
  assume "deserialize_transaction B r = Ok (a, r')"
  then show "transaction_ok B a \<and> reads r (enc_transaction a) r'"
    by (auto simp: deserialize_transaction_def reader_simps tx_inputs.des_iff tx_outputs.des_iff
        tx_kernels.des_iff transaction_ok_def enc_transaction_def intro!: reads_trans)
next
  assume *: "transaction_ok B a \<and> reads r (enc_transaction a) r'"
  then obtain r1 r2 r3 where
      "read_list (deserialize_input B) 33 r MAX_INPUTS_PER_TX = Ok (inputs a, r1)"
      "read_list (deserialize_output B) 37 r1 MAX_OUTPUTS_PER_TX = Ok (outputs a, r2)"
      "read_list (deserialize_kernel B) 115 r2 MAX_KERNELS_PER_TX = Ok (kernels a, r3)"
      "read_array 32 r3 = Ok (tx_offset a, r')"
    by (auto simp: enc_transaction_def reads_append reader_simps transaction_ok_def
        tx_inputs.des_iff tx_outputs.des_iff tx_kernels.des_iff)
  then show "deserialize_transaction B r = Ok (a, r')"
    by (simp add: deserialize_transaction_def)
qed

lemma deserialize_transaction_no_panic: "deserialize_transaction B r \<noteq> Panic s"
  by (auto simp: deserialize_transaction_def and_then_eq_Panic tx_inputs.des_no_panic
      tx_outputs.des_no_panic tx_kernels.des_no_panic)

interpretation tx: codec serialize_transaction "deserialize_transaction B" enc_transaction
  "transaction_ok B" 44
  for B :: "'p backend"
proof unfold_locales
  show "serialize_transaction a w = Ok (w\<lparr>wbuf := wbuf w @ enc_transaction a\<rparr>)"
    if "transaction_ok B a" for a w
    using that
    by (simp add: serialize_transaction_def transaction_ok_def tx_inputs.ser_enc [of _ B]
        tx_outputs.ser_enc [of _ B] tx_kernels.ser_enc [of _ B] writer_simps enc_transaction_def)
qed (auto simp: deserialize_transaction_iff deserialize_transaction_no_panic transaction_ok_def
    enc_transaction_def enc_list_def)

lemma deserialize_coinbase_iff:
  "deserialize_coinbase B r = Ok (a, r') \<longleftrightarrow> coinbase_ok B a \<and> reads r (enc_coinbase a) r'"
proof
  assume "deserialize_coinbase B r = Ok (a, r')"
  then show "coinbase_ok B a \<and> reads r (enc_coinbase a) r'"
    by (auto simp: deserialize_coinbase_def reader_simps deserialize_output_iff
        deserialize_coinbase_kernel_iff coinbase_ok_def enc_coinbase_def intro!: reads_trans)
next
  assume "coinbase_ok B a \<and> reads r (enc_coinbase a) r'"
  then obtain r1 r2 where "deserialize_output B r = Ok (cb_output a, r1)"
      "deserialize_coinbase_kernel B r1 = Ok (cb_kernel a, r2)" "read_array 32 r2 = Ok (cb_offset a, r')"
    by (auto simp: enc_coinbase_def reads_append reader_simps coinbase_ok_def deserialize_output_iff
        deserialize_coinbase_kernel_iff)
  then show "deserialize_coinbase B r = Ok (a, r')"
    by (simp add: deserialize_coinbase_def)
qed

lemma deserialize_coinbase_no_panic: "deserialize_coinbase B r \<noteq> Panic s"
  by (auto simp: deserialize_coinbase_def and_then_eq_Panic deserialize_output_no_panic
      deserialize_coinbase_kernel_no_panic)

interpretation coinbase: codec serialize_coinbase "deserialize_coinbase B" enc_coinbase "coinbase_ok B"
  "37 + 107 + 32"
  for B :: "'p backend"
proof unfold_locales
  show "37 + 107 + 32 \<le> length (enc_coinbase a)" if "coinbase_ok B a" for a
    using that tx_output.enc_min [of B "cb_output a"] coinbase_kernel.enc_min [of B "cb_kernel a"]
    by (simp add: coinbase_ok_def enc_coinbase_def)
qed (auto simp: deserialize_coinbase_iff serialize_coinbase_def coinbase_ok_def
    tx_output.ser_enc [of B] coinbase_kernel.ser_enc [of B] writer_simps enc_coinbase_def
    deserialize_coinbase_no_panic)

text \<open>
  C36. Transactions on the wire.  Encoding a well-formed transaction and decoding the bytes
  returns it, and every byte string the decoder accepts is the encoding of what it
  returned: there is one encoding per transaction, so a transaction identifier computed
  from the bytes is not malleable, and appended bytes are refused.
\<close>

theorem transaction_wire_canonical:
  assumes "length bs < USIZE_LIMIT"
  shows "from_bytes (deserialize_transaction B) bs = Ok tx
    \<longleftrightarrow> transaction_ok B tx \<and> to_bytes serialize_transaction tx = Ok bs"
  using assms tx.from_bytes_iff [of bs B tx] tx.to_bytes_enc [of B tx] by auto

theorem transaction_wire_canonical_witness:
  "from_bytes (deserialize_transaction demo_backend) (replicate 44 0)
    = Ok \<lparr>inputs = [], outputs = [], kernels = [], tx_offset = replicate 32 0\<rparr>"
proof -
  let ?tx = "\<lparr>inputs = [], outputs = [], kernels = [], tx_offset = replicate 32 0\<rparr> :: transaction"
  have ok: "transaction_ok demo_backend ?tx" by (simp add: transaction_ok_def)
  have "enc_transaction ?tx = replicate 44 0"
    by (simp add: enc_transaction_def enc_list_def u32_to_le_def nat_to_le_zero
        replicate_add [symmetric])
  then have "to_bytes serialize_transaction ?tx = Ok (replicate 44 0)"
    using tx.to_bytes_enc [OF ok] by simp
  with ok show ?thesis
    using transaction_wire_canonical [of "replicate 44 0" demo_backend ?tx]
    by (simp add: USIZE_LIMIT_def)
qed

section \<open>Fees and weights\<close>

lemma fee_fold_exact:
  "try_fold (\<lambda>acc k. ok_or (checked_add acc (noms (tk_fee k))) (Invalid ''fee sum overflow'')) a ks = Ok f
    \<longleftrightarrow> unat f = unat a + sum_list (map (\<lambda>k. unat (noms (tk_fee k))) ks)"
proof (induction ks arbitrary: a)
  case (Cons k ks)
  let ?rest = "sum_list (map (\<lambda>k. unat (noms (tk_fee k))) ks)"
  show ?case
  proof (cases "checked_add a (noms (tk_fee k))")
    case None
    then have "2 ^ 64 \<le> unat a + unat (noms (tk_fee k))"
      by (simp add: checked_add_eq_None)
    then have "unat f \<noteq> unat a + (unat (noms (tk_fee k)) + ?rest)"
      using unat_less_pow [of f] by simp
    with None show ?thesis by simp
  next
    case (Some b)
    then have "unat b = unat a + unat (noms (tk_fee k))" by (simp add: checked_add_eq_Some)
    with Some Cons.IH [of b] show ?thesis by (simp add: add.assoc)
  qed
qed (auto simp: word_unat_eq_iff)

lemma total_fee_exact:
  "total_fee tx = Ok f \<longleftrightarrow> unat f = sum_list (map (\<lambda>k. unat (noms (tk_fee k))) (kernels tx))"
  by (simp add: total_fee_def fee_fold_exact)

lemma total_fee_no_panic: "total_fee tx \<noteq> Panic s"
proof -
  have "try_fold (\<lambda>acc k. ok_or (checked_add acc (noms (tk_fee k))) (Invalid ''fee sum overflow'')) a ks \<noteq> Panic s"
    for a ks
    by (induction ks arbitrary: a) (auto simp: and_then_eq_Panic)
  then show ?thesis by (simp add: total_fee_def)
qed

definition tx_weight :: "transaction \<Rightarrow> nat" where
  "tx_weight tx = length (inputs tx) + 21 * length (outputs tx) + 3 * length (kernels tx)"

definition tx_counts_ok :: "transaction \<Rightarrow> bool" where
  "tx_counts_ok tx = counts_within_limits (length (inputs tx)) (length (outputs tx)) (length (kernels tx))"

lemma weight_checked_Ok:
  "weight_checked tx = Ok w \<longleftrightarrow> tx_counts_ok tx \<and> w = of_nat (tx_weight tx)"
proof (cases "fee_shape tx")
  case (Ok s)
  then have c: "tx_counts_ok tx" and s: "shape_weight s = tx_weight tx"
    by (auto simp: fee_shape_def from_counts_Ok tx_counts_ok_def counts_within_limits_def
        shape_weight_def tx_weight_def dom_consts unat_of_nat)
  have less: "tx_weight tx < 2 ^ 32"
    using c by (simp add: tx_weight_def tx_counts_ok_def counts_within_limits_def dom_consts)
  obtain p where p: "transaction_weight s = Ok p" "unat (total_weight p) = tx_weight tx"
    using transaction_weight_total [of s] s by auto
  have "usize_to_u32 (unat (total_weight p)) = Some (of_nat (tx_weight tx))"
    unfolding p(2) using less by (rule usize_to_u32_Some)
  with Ok p(1) c show ?thesis by (auto simp: weight_checked_def)
next
  case (Err e)
  then have "\<not> tx_counts_ok tx"
    using from_counts_Ok [of "length (inputs tx)" "length (outputs tx)" "length (kernels tx)"]
    by (auto simp: fee_shape_def tx_counts_ok_def)
  with Err show ?thesis by (simp add: weight_checked_def)
next
  case (Panic s)
  then have "\<not> tx_counts_ok tx"
    using from_counts_Ok [of "length (inputs tx)" "length (outputs tx)" "length (kernels tx)"]
    by (auto simp: fee_shape_def tx_counts_ok_def)
  with Panic show ?thesis by (simp add: weight_checked_def)
qed

lemma tx_weight_bound: "tx_counts_ok tx \<Longrightarrow> tx_weight tx \<le> 5658"
  by (simp add: tx_weight_def tx_counts_ok_def counts_within_limits_def dom_consts)

lemma transaction_ok_counts: "transaction_ok B tx \<Longrightarrow> tx_counts_ok tx"
  by (simp add: transaction_ok_def tx_counts_ok_def counts_within_limits_def)

lemma Transaction_weight_Ok:
  "tx_counts_ok tx \<Longrightarrow> Transaction_weight tx = Ok (of_nat (tx_weight tx))"
  using weight_checked_Ok [of tx "of_nat (tx_weight tx)"] by (simp add: Transaction_weight_def)

section \<open>Structural validity\<close>

definition structure_valid :: "transaction \<Rightarrow> bool" where
  "structure_valid tx \<longleftrightarrow>
     tx_counts_ok tx \<and> kernels tx \<noteq> []
     \<and> (\<forall>ou \<in> set (outputs tx). to_proof ou \<noteq> [] \<and> length (to_proof ou) \<le> MAX_OUTPUT_PROOF_ENVELOPE_SIZE)
     \<and> (\<forall>k \<in> set (kernels tx).
          tk_features k = KERNEL_FEAT_PLAIN \<and> tk_lock_height k = 0
          \<or> tk_features k = KERNEL_FEAT_HEIGHT_LOCKED \<and> tk_lock_height k \<noteq> 0)
     \<and> distinct (map (\<lambda>i. commit_bytes (ti_commitment i)) (inputs tx))
     \<and> distinct (map (\<lambda>ou. commit_bytes (to_commitment ou)) (outputs tx))
     \<and> sum_list (map (\<lambda>k. unat (noms (tk_fee k))) (kernels tx)) < 2 ^ 64
     \<and> tx_weight tx \<le> 4000"

lemma check_output_envelope_Ok:
  "check_output_envelope ou = Ok () \<longleftrightarrow>
    to_proof ou \<noteq> [] \<and> length (to_proof ou) \<le> MAX_OUTPUT_PROOF_ENVELOPE_SIZE"
  by (auto simp: check_output_envelope_def)

lemma check_kernel_fields_Ok:
  "check_kernel_fields k = Ok () \<longleftrightarrow>
     tk_features k = KERNEL_FEAT_PLAIN \<and> tk_lock_height k = 0
     \<or> tk_features k = KERNEL_FEAT_HEIGHT_LOCKED \<and> tk_lock_height k \<noteq> 0"
  by (auto simp: check_kernel_fields_def validate_kernel_features_def is_known_kernel_features_def
      classify_kernel_lock_fields_def dom_consts)

lemma total_fee_defined:
  "(\<exists>f. total_fee tx = Ok f) \<longleftrightarrow> sum_list (map (\<lambda>k. unat (noms (tk_fee k))) (kernels tx)) < 2 ^ 64"
proof
  assume "sum_list (map (\<lambda>k. unat (noms (tk_fee k))) (kernels tx)) < 2 ^ 64"
  then have "unat (of_nat (sum_list (map (\<lambda>k. unat (noms (tk_fee k))) (kernels tx))) :: u64)
      = sum_list (map (\<lambda>k. unat (noms (tk_fee k))) (kernels tx))"
    by (simp add: unat_of_nat)
  then show "\<exists>f. total_fee tx = Ok f" unfolding total_fee_exact by blast
next
  assume "\<exists>f. total_fee tx = Ok f"
  then obtain f :: u64 where "unat f = sum_list (map (\<lambda>k. unat (noms (tk_fee k))) (kernels tx))"
    unfolding total_fee_exact by blast
  then show "sum_list (map (\<lambda>k. unat (noms (tk_fee k))) (kernels tx)) < 2 ^ 64"
    using unat_less_pow [of f] by simp
qed

lemma validate_structure_Ok: "validate_transaction_structure tx = Ok () \<longleftrightarrow> structure_valid tx"
proof -
  have w: "MAX_TX_WEIGHT < of_nat (tx_weight tx) \<longleftrightarrow> 4000 < tx_weight tx" if "tx_counts_ok tx"
    using tx_weight_bound [OF that] by (simp add: word_less_nat_alt unat_of_nat dom_consts)
  have "validate_transaction_structure tx = Ok () \<longleftrightarrow>
      tx_counts_ok tx \<and> kernels tx \<noteq> [] \<and> (\<forall>ou \<in> set (outputs tx). check_output_envelope ou = Ok ())
      \<and> (\<forall>k \<in> set (kernels tx). check_kernel_fields k = Ok ())
      \<and> distinct (map (\<lambda>i. commit_bytes (ti_commitment i)) (inputs tx))
      \<and> distinct (map (\<lambda>ou. commit_bytes (to_commitment ou)) (outputs tx))
      \<and> (\<exists>f. total_fee tx = Ok f) \<and> \<not> MAX_TX_WEIGHT < of_nat (tx_weight tx)"
    by (auto simp: validate_transaction_structure_def insert_all_new_Ok weight_checked_Ok
        tx_counts_ok_def counts_within_limits_def)
  then show ?thesis
    using w by (auto simp: structure_valid_def check_output_envelope_Ok check_kernel_fields_Ok
        total_fee_defined)
qed

lemma validate_structure_no_panic: "validate_transaction_structure tx \<noteq> Panic s"
proof -
  have "for_each check_output_envelope (outputs tx) \<noteq> Panic s" for s
    by (rule for_each_not_Panic) (simp add: check_output_envelope_def)
  moreover have "for_each check_kernel_fields (kernels tx) \<noteq> Panic s" for s
    by (rule for_each_not_Panic)
      (auto simp: check_kernel_fields_def validate_kernel_features_def and_then_eq_Panic
        split: kernel_lock_classification.splits if_splits)
  ultimately show ?thesis
    by (auto simp: validate_transaction_structure_def and_then_eq_Panic
        insert_all_new_no_panic total_fee_no_panic weight_checked_def fee_shape_def
        TransactionShape_from_counts_def transaction_weight_def split: if_splits)
qed

text \<open>
  C37. Structural validation is exact: it accepts a transaction precisely when the counts
  are within limits, there is a kernel, every proof envelope is non-empty and bounded,
  every kernel is plain without a lock height or height-locked with one (never coinbase),
  no input or output commitment repeats, the fees sum within 64 bits and the weight is at
  most 4000; and it never panics.
\<close>

theorem structure_validation_exact:
  "(validate_transaction_structure tx = Ok () \<longleftrightarrow> structure_valid tx)
   \<and> \<not> is_panic (validate_transaction_structure tx)"
  by (simp add: validate_structure_Ok is_panic_iff validate_structure_no_panic)

section \<open>Coinbase value\<close>

lemma explicit_value_cases:
  "(validate_explicit_value k h fees = Ok () \<longleftrightarrow>
      unat (ck_explicit_value k) = unat (noms (block_reward h)) + unat fees
      \<and> unat (ck_explicit_value k) \<le> 2 ^ 52 - 1)
   \<and> (\<forall>s. validate_explicit_value k h fees \<noteq> Panic s)
   \<and> (\<forall>e. validate_explicit_value k h fees = Err e \<longrightarrow> (\<exists>m. e = Invalid m))"
proof (cases "checked_add (noms (block_reward h)) fees")
  case None
  then have "2 ^ 64 \<le> unat (noms (block_reward h)) + unat fees"
    by (simp add: checked_add_eq_None)
  then have "unat (ck_explicit_value k) \<noteq> unat (noms (block_reward h)) + unat fees"
    using unat_less_pow [of "ck_explicit_value k"] by simp
  with None show ?thesis
    by (simp add: validate_explicit_value_def classify_coinbase_value_def Let_def)
next
  case (Some expected)
  then have e: "unat expected = unat (noms (block_reward h)) + unat fees"
    by (simp add: checked_add_eq_Some)
  have "MAX_PROVABLE_VALUE < v \<longleftrightarrow> 2 ^ 52 - 1 < unat v" for v
    by (simp add: word_less_nat_alt)
  with Some e show ?thesis
    by (auto simp: validate_explicit_value_def classify_coinbase_value_def Let_def word_unat_eq_iff)
qed

text \<open>
  The coinbase claim is exact: the explicit value is accepted precisely when it is the
  block subsidy plus the fees as mathematical numbers and lies within the provable range;
  an over- or under-claim, an overflow of the sum and a value out of range are each
  answered with an Invalid error, and no branch panics.
\<close>

theorem coinbase_value_exact:
  "(validate_explicit_value k h fees = Ok () \<longleftrightarrow>
      unat (ck_explicit_value k) = unat (noms (block_reward h)) + unat fees
      \<and> unat (ck_explicit_value k) \<le> 2 ^ 52 - 1)
   \<and> (\<forall>s. validate_explicit_value k h fees \<noteq> Panic s)
   \<and> (\<forall>e. validate_explicit_value k h fees = Err e \<longrightarrow> (\<exists>m. e = Invalid m))"
  by (rule explicit_value_cases)

theorem coinbase_value_exact_witness:
  "validate_explicit_value
     \<lparr>ck_features = 1, ck_explicit_value = 3300000042, ck_excess = Commitment [], ck_excess_signature = []\<rparr>
     (BlockHeight 1) 42 = Ok ()"
  using coinbase_value_exact [of "\<lparr>ck_features = 1, ck_explicit_value = 3300000042,
      ck_excess = Commitment [], ck_excess_signature = []\<rparr>" "BlockHeight 1" 42]
  by (simp add: block_reward_def halving_epoch_def HALVING_INTERVAL_def HALVING_EPOCHS_def
      reward_table_head)

section \<open>Balance\<close>

lemma commitment_reparse:
  "Commitment_from_compressed_bytes B (commit_bytes c) = Ok x \<longleftrightarrow> x = c \<and> commitment_ok B c"
  by (cases x; cases c) (auto simp: commitment_parse_iff)

lemma parse_commitments_Ok:
  "parse_commitments B cs = Ok ds \<longleftrightarrow> ds = cs \<and> (\<forall>c \<in> set cs. commitment_ok B c)"
  unfolding parse_commitments_def
  by (induction cs arbitrary: ds) (auto simp: commitment_reparse)

lemma parse_commitments_no_panic: "parse_commitments B cs \<noteq> Panic s"
  unfolding parse_commitments_def by (rule try_map_no_panic) simp

lemma validate_balance_equation_Ok:
  "validate_balance_equation B tx = Ok () \<longleftrightarrow>
    (\<forall>c \<in> set (map to_commitment (outputs tx) @ map ti_commitment (inputs tx) @ map tk_excess (kernels tx)).
        commitment_ok B c)
    \<and> (\<exists>fee. total_fee tx = Ok fee
        \<and> verify_balance_equation B (map to_commitment (outputs tx)) (map ti_commitment (inputs tx))
            (map tk_excess (kernels tx)) (tx_offset tx) fee = Ok True)"
  by (auto simp: validate_balance_equation_def parse_commitments_Ok split: if_splits)

end
