(* ===== verification/Pmmr.thy ===== *)
theory Pmmr
  imports Crypto "HOL-Library.Log_Nat"
begin

text \<open>
  The Merkle mountain range of \<^verbatim>\<open>dom-pmmr/src/lib.rs\<close>: postorder position arithmetic on
  64-bit words, leaf, node and bag hashing, append with bottom-up merging, peak positions
  and the root.  The specification is a forest of perfect binary trees whose heights are
  the set bits of the leaf count.  The lemmas show that every append refines the binary
  increment of that forest, that the root is the fold of its peaks, and that the root
  commits to the whole list of payloads.
\<close>

section \<open>Position arithmetic\<close>

fun popcount :: "nat \<Rightarrow> nat" where
  "popcount n = (if n = 0 then 0 else n mod 2 + popcount (n div 2))"

declare popcount.simps [simp del]

definition count_ones :: "u64 \<Rightarrow> u64" where
  "count_ones w = of_nat (popcount (unat w))"

definition is_power_of_two :: "u64 \<Rightarrow> bool" where
  "is_power_of_two w = (count_ones w = 1)"

definition leading_zeros :: "u64 \<Rightarrow> nat" where
  "leading_zeros w = 64 - floorlog 2 (unat w)"

definition is_all_ones :: "u64 \<Rightarrow> bool" where
  "is_all_ones n =
    (n \<noteq> 0 \<and> (case checked_add n 1 of Some m \<Rightarrow> is_power_of_two m | None \<Rightarrow> False))"

definition most_significant_pos :: "u64 \<Rightarrow> nat" where
  "most_significant_pos n = (if n = 0 then 0 else 64 - leading_zeros n)"

definition jump_left :: "u64 \<Rightarrow> u64" where
  "jump_left pos =
    (let msb = most_significant_pos pos; shift = msb - 1
     in pos - (push_bit shift 1 - 1))"

text \<open>
  The loop of \<^verbatim>\<open>node_height\<close>.  It is entered with a non-zero position and every jump keeps
  it non-zero, so the guard on zero is never taken; it makes the recursion total.
\<close>

lemma floorlog_pow_bounds:
  "0 < n \<Longrightarrow> 2 ^ (floorlog 2 n - 1) \<le> n \<and> n < 2 ^ floorlog 2 n"
  using floorlog_bounds [of n 2] by simp

lemma floorlog_le_64: "floorlog 2 (unat (n :: u64)) \<le> 64"
  by (rule floorlog_leI) (use unat_less_pow [of n] in auto)

lemma most_significant_pos_floorlog: "most_significant_pos n = floorlog 2 (unat n)"
  using floorlog_le_64 [of n]
  by (auto simp: most_significant_pos_def leading_zeros_def floorlog_def)

lemma unat_pow2: "k < 64 \<Longrightarrow> unat ((2 :: u64) ^ k) = 2 ^ k"
proof -
  assume "k < 64"
  then have "(2 :: nat) ^ k < 2 ^ 64" by (rule power_strict_increasing) simp
  moreover have "(2 :: u64) ^ k = of_nat (2 ^ k)" by simp
  ultimately show ?thesis by (simp only: unat_of_nat) simp
qed

lemma unat_jump_left:
  assumes "n \<noteq> 0"
  shows "unat (jump_left n) = unat n - (2 ^ (floorlog 2 (unat n) - 1) - 1)"
proof -
  define k where "k = floorlog 2 (unat n) - 1"
  have pos: "0 < unat n" using assms by (simp add: unat_gt_0)
  have k: "k < 64" using floorlog_le_64 [of n] floorlog_pow_bounds [OF pos]
    by (cases "floorlog 2 (unat n)") (auto simp: k_def)
  have le: "2 ^ k \<le> unat n" using floorlog_pow_bounds [OF pos] by (simp add: k_def)
  have one: "unat (2 ^ k - 1 :: u64) = 2 ^ k - 1"
    using unat_pow2 [OF k] by (subst unat_sub_if') (simp add: Suc_le_eq)
  have jump: "jump_left n = n - (2 ^ k - 1)"
    by (simp add: jump_left_def most_significant_pos_floorlog k_def Let_def)
  have "unat (n - (2 ^ k - 1)) = unat n - (2 ^ k - 1)"
    using le one by (subst unat_sub_if') simp
  then show ?thesis by (simp add: jump k_def)
qed

lemma jump_left_bounds:
  assumes "n \<noteq> 0" "\<not> is_all_ones n"
  shows "0 < unat (jump_left n)" "unat (jump_left n) < unat n"
proof -
  define k where "k = floorlog 2 (unat n) - 1"
  have pos: "0 < unat n" using assms by (simp add: unat_gt_0)
  have le: "2 ^ k \<le> unat n" using floorlog_pow_bounds [OF pos] by (simp add: k_def)
  have eq: "unat (jump_left n) = unat n - (2 ^ k - 1)"
    using unat_jump_left [OF assms(1)] by (simp add: k_def)
  show "0 < unat (jump_left n)"
    unfolding eq using le by (metis Suc_diff_1 Suc_le_lessD zero_less_diff zero_less_power pos2)
  have "k \<noteq> 0"
  proof
    assume "k = 0"
    then have "unat n < 2" using floorlog_pow_bounds [OF pos] by (cases "floorlog 2 (unat n)") (auto simp: k_def)
    then have "n = 1" using pos by (simp add: word_unat_eq_iff)
    then show False
      using assms(2) by (simp add: is_all_ones_def checked_add_def is_power_of_two_def count_ones_def
          popcount.simps)
  qed
  then have "1 < (2 :: nat) ^ k" by (intro one_less_power) simp_all
  then show "unat (jump_left n) < unat n" unfolding eq using pos by simp
qed

function height_loop :: "u64 \<Rightarrow> u64" where
  "height_loop h = (if h = 0 \<or> is_all_ones h then h else height_loop (jump_left h))"
  by pat_completeness auto
termination
  by (relation "measure unat") (auto dest: jump_left_bounds)

declare height_loop.simps [simp del]

definition node_height :: "u64 \<Rightarrow> nat" where
  "node_height pos = (if pos = 0 then 0 else most_significant_pos (height_loop pos) - 1)"

fun peak_loop :: "nat \<Rightarrow> u64 \<Rightarrow> u64 \<Rightarrow> u64 list \<Rightarrow> u64 list option" where
  "peak_loop b remaining_leaves pos_offset peaks =
    (let subtree_leaves = push_bit b 1;
         next_state =
           (if subtree_leaves \<le> remaining_leaves then
              (case checked_sub subtree_leaves 1 of
                 None \<Rightarrow> None
               | Some below \<Rightarrow>
                   (case checked_add below subtree_leaves of
                      None \<Rightarrow> None
                    | Some subtree_size \<Rightarrow>
                        (case checked_add pos_offset subtree_size of
                           None \<Rightarrow> None
                         | Some peak_pos \<Rightarrow>
                             (case checked_sub remaining_leaves subtree_leaves of
                                None \<Rightarrow> None
                              | Some left \<Rightarrow> Some (left, peak_pos, peaks @ [peak_pos])))))
            else Some (remaining_leaves, pos_offset, peaks))
     in case next_state of
          None \<Rightarrow> None
        | Some (left, off, ps) \<Rightarrow>
            (case b of 0 \<Rightarrow> Some ps | Suc b' \<Rightarrow> peak_loop b' left off ps))"

definition peak_positions_fixed :: "u64 \<Rightarrow> u64 list option" where
  "peak_positions_fixed leaf_count =
    (if leaf_count = 0 then Some [] else peak_loop 63 leaf_count 0 [])"

definition peak_positions :: "u64 \<Rightarrow> u64 list dom_result" where
  "peak_positions leaf_count =
    expect (peak_positions_fixed leaf_count) ''PMMR peak positions exceed the u64 position domain''"

section \<open>Hashing\<close>

definition leaf_hash :: "'p backend \<Rightarrow> u64 \<Rightarrow> bytes \<Rightarrow> hash256" where
  "leaf_hash B position payload = blake2b_256_tagged B TAG_PMMR_LEAF (u64_to_le position @ payload)"

definition node_hash :: "'p backend \<Rightarrow> u64 \<Rightarrow> hash256 \<Rightarrow> hash256 \<Rightarrow> hash256" where
  "node_hash B position left right =
    blake2b_256_tagged B TAG_PMMR_NODE (u64_to_le position @ as_bytes left @ as_bytes right)"

definition bag_peaks :: "'p backend \<Rightarrow> hash256 list \<Rightarrow> hash256" where
  "bag_peaks B peaks =
    (if length peaks = 0 then blake2b_256_tagged B TAG_PMMR_EMPTY []
     else if length peaks = 1 then peaks ! 0
     else fold (\<lambda>peak acc. blake2b_256_tagged B TAG_PMMR_BAG (as_bytes peak @ as_bytes acc))
            (rev (take (length peaks - 1) peaks)) (last peaks))"

section \<open>The accumulator\<close>

record pmmr =
  nodes :: "hash256 option list"
  leaf_count :: u64

definition pmmr_new :: pmmr where
  "pmmr_new = \<lparr>nodes = [None], leaf_count = 0\<rparr>"

definition node_count :: "pmmr \<Rightarrow> u64 dom_result" where
  "node_count m =
    expect (Option.bind (checked_mul (leaf_count m) 2) (\<lambda>x. checked_sub x (count_ones (leaf_count m))))
      ''node count overflow''"

definition get_node :: "pmmr \<Rightarrow> u64 \<Rightarrow> hash256 option" where
  "get_node m pos = (if unat pos < length (nodes m) then nodes m ! unat pos else None)"

definition set_node :: "pmmr \<Rightarrow> u64 \<Rightarrow> hash256 \<Rightarrow> pmmr dom_result" where
  "set_node m pos h =
    and_then
      (if length (nodes m) \<le> unat pos then
         and_then (ok_or (usize_checked_add (unat pos) 1) (Internal ''node index overflow'')) (\<lambda>needed.
         Ok (nodes m @ replicate (needed - length (nodes m)) None))
       else Ok (nodes m)) (\<lambda>ns.
    if ns ! unat pos \<noteq> None then
      Err (Internal ''PMMR invariant violated: attempt to overwrite node'')
    else Ok (m\<lparr>nodes := ns[unat pos := Some h]\<rparr>))"

lemma checked_add_one_measure:
  "checked_add (p :: u64) 1 = Some q \<Longrightarrow> 2 ^ 64 - unat q < 2 ^ 64 - unat p"
  using unat_less_pow [of q] by (simp add: checked_add_eq_Some)

function merge_peaks :: "'p backend \<Rightarrow> pmmr \<Rightarrow> u64 \<Rightarrow> pmmr dom_result" where
  "merge_peaks B m pos =
    (let h = node_height pos in
     and_then (ok_or (checked_sub (push_bit (h + 1) 1) 1) (Internal ''subtree_size underflow'')) (\<lambda>subtree_size.
     if pos \<le> subtree_size then Ok m
     else
       and_then (ok_or (checked_sub pos subtree_size) (Internal ''left_pos underflow'')) (\<lambda>left_pos.
       if node_height left_pos \<noteq> h then Ok m
       else
         and_then (ok_or (checked_add pos 1) (Internal ''parent_pos overflow'')) (\<lambda>parent_pos.
         and_then (ok_or (get_node m left_pos) (Internal ''missing node'')) (\<lambda>left_hash.
         and_then (ok_or (get_node m pos) (Internal ''missing node'')) (\<lambda>right_hash.
         and_then (set_node m parent_pos (node_hash B parent_pos left_hash right_hash)) (\<lambda>m'.
         merge_peaks B m' parent_pos)))))))"
  by pat_completeness auto
termination
  by (relation "measure (\<lambda>(B, m, pos). 2 ^ 64 - unat pos)")
    (auto dest: checked_add_one_measure)

declare merge_peaks.simps [simp del]

definition pmmr_push :: "'p backend \<Rightarrow> pmmr \<Rightarrow> bytes \<Rightarrow> (u64 \<times> pmmr) dom_result" where
  "pmmr_push B m payload =
    and_then (ok_or (checked_add (leaf_count m) 1) (Internal ''PMMR leaf count overflow'')) (\<lambda>new_leaf_count.
    and_then (ok_or (Option.bind (checked_mul (leaf_count m) 2)
        (\<lambda>x. checked_sub x (count_ones (leaf_count m)))) (Internal ''node count overflow'')) (\<lambda>nodes_before.
    and_then (ok_or (checked_add nodes_before 1) (Internal ''leaf_pos overflow'')) (\<lambda>leaf_pos.
    and_then (set_node m leaf_pos (leaf_hash B leaf_pos payload)) (\<lambda>m.
    and_then (merge_peaks B m leaf_pos) (\<lambda>m.
    Ok (leaf_pos, m\<lparr>leaf_count := new_leaf_count\<rparr>))))))"

definition pmmr_root :: "'p backend \<Rightarrow> pmmr \<Rightarrow> hash256 dom_result" where
  "pmmr_root B m =
    and_then (peak_positions (leaf_count m)) (\<lambda>positions.
    and_then (try_map (\<lambda>p. ok_or (get_node m p)
        (Internal ''PMMR invariant violated: missing peak'')) positions) (\<lambda>peak_hashes.
    Ok (bag_peaks B peak_hashes)))"

section \<open>Heights of postorder positions\<close>

lemma popcount_0 [simp]: "popcount 0 = 0"
  by (simp add: popcount.simps)

lemma popcount_double [simp]: "popcount (2 * n) = popcount n"
  by (subst popcount.simps) simp

lemma popcount_double_Suc [simp]: "popcount (Suc (2 * n)) = Suc (popcount n)"
  by (subst popcount.simps) simp

lemma popcount_pow_mult: "popcount (2 ^ k * n) = popcount n"
proof (induction k)
  case (Suc k)
  have "2 ^ Suc k * n = 2 * (2 ^ k * n)" by simp
  then show ?case using Suc by (simp only: popcount_double)
qed simp

lemma popcount_1 [simp]: "popcount (Suc 0) = 1"
  using popcount_double_Suc [of 0] by simp

lemma popcount_pow_add: "popcount (2 ^ k + 2 ^ Suc k * n) = Suc (popcount n)"
proof -
  have "2 ^ k + 2 ^ Suc k * n = 2 ^ k * Suc (2 * n)" by simp
  then show ?thesis by (simp only: popcount_pow_mult popcount_double_Suc)
qed

lemma popcount_eq_0: "popcount n = 0 \<longleftrightarrow> n = 0"
proof (induction n rule: less_induct)
  case (less n)
  show ?case
  proof (cases "n = 0")
    case False
    then have "popcount n = n mod 2 + popcount (n div 2)" by (simp add: popcount.simps [of n])
    moreover have "popcount (n div 2) = 0 \<longleftrightarrow> n div 2 = 0" using less False by simp
    ultimately show ?thesis using False by (simp del: div_eq_0_iff) presburger
  qed simp
qed

lemma popcount_eq_1: "popcount n = Suc 0 \<longleftrightarrow> (\<exists>k. n = 2 ^ k)"
proof
  show "popcount n = Suc 0 \<Longrightarrow> \<exists>k. n = 2 ^ k"
  proof (induction n rule: popcount.induct)
    case (1 n)
    have n: "n \<noteq> 0" using "1.prems" by (cases "n = 0") simp_all
    show ?case
    proof (cases "even n")
      case True
      then obtain m where m: "n = 2 * m" by blast
      then obtain k where "m = 2 ^ k" using 1 n by auto
      then have "n = 2 ^ Suc k" using m by simp
      then show ?thesis by blast
    next
      case False
      then obtain m where m: "n = Suc (2 * m)" by (auto elim: oddE)
      then have "m = 0" using "1.prems" popcount_eq_0 by simp
      then have "n = 2 ^ 0" using m by simp
      then show ?thesis by blast
    qed
  qed
next
  assume "\<exists>k. n = 2 ^ k"
  then show "popcount n = Suc 0" using popcount_pow_mult [of _ 1] by auto
qed

lemma popcount_bound: "n < 2 ^ k \<Longrightarrow> popcount n \<le> k"
proof (induction k arbitrary: n)
  case (Suc k)
  have "popcount n = n mod 2 + popcount (n div 2)"
    by (cases "n = 0") (simp_all add: popcount.simps [of n])
  moreover have "popcount (n div 2) \<le> k" using Suc by (intro Suc.IH) auto
  ultimately show ?case by simp
qed simp

lemma unat_count_ones: "unat (count_ones w) = popcount (unat w)"
proof -
  have "popcount (unat w) \<le> 64" by (rule popcount_bound) (use unat_less_pow [of w] in simp)
  then show ?thesis by (simp add: count_ones_def unat_of_nat)
qed

lemma is_power_of_two_iff: "is_power_of_two w \<longleftrightarrow> (\<exists>k. unat w = 2 ^ k)"
proof -
  have "is_power_of_two w \<longleftrightarrow> unat (count_ones w) = 1"
    by (simp add: is_power_of_two_def word_unat_eq_iff)
  then show ?thesis by (simp add: unat_count_ones popcount_eq_1)
qed

lemma is_all_ones_iff:
  "is_all_ones n \<longleftrightarrow> n \<noteq> 0 \<and> unat n + 1 < 2 ^ 64 \<and> (\<exists>k. unat n + 1 = 2 ^ k)"
proof (cases "unat n + 1 < 2 ^ 64")
  case True
  then have "unat (n + 1) = unat n + 1" by (subst unat_add_no_overflow) simp_all
  with True show ?thesis by (auto simp: is_all_ones_def checked_add_def is_power_of_two_iff)
next
  case False
  then show ?thesis by (simp add: is_all_ones_def checked_add_def)
qed

text \<open>Heights as a function of natural-number positions.\<close>

definition nh :: "nat \<Rightarrow> nat" where
  "nh p = node_height (of_nat p)"

lemma unat_of_nat_u64: "p < 2 ^ 64 \<Longrightarrow> unat (of_nat p :: u64) = p"
  by (simp add: unat_of_nat)

lemma floorlog_between: "2 ^ k \<le> n \<Longrightarrow> n < 2 ^ Suc k \<Longrightarrow> floorlog 2 n = Suc k"
proof -
  assume a: "2 ^ k \<le> n" "n < 2 ^ Suc k"
  then have "0 < n" by (metis less_le_trans zero_less_power pos2)
  note b = floorlog_pow_bounds [OF this]
  have "(2 :: nat) ^ k < 2 ^ floorlog 2 n" using a b by linarith
  then have "k < floorlog 2 n" by (simp only: power_strict_increasing_iff one_less_numeral_iff semiring_norm)
  moreover have "(2 :: nat) ^ (floorlog 2 n - 1) < 2 ^ Suc k" using a b by linarith
  then have "floorlog 2 n - 1 < Suc k"
    by (simp only: power_strict_increasing_iff one_less_numeral_iff semiring_norm)
  ultimately show ?thesis by linarith
qed

lemma nh_perfect:
  assumes "k < 63"
  shows "nh (2 ^ Suc k - 1) = k"
proof -
  define n :: u64 where "n = of_nat (2 ^ Suc k - 1)"
  have le: "(2 :: nat) ^ Suc k \<le> 2 ^ 63" using assms by (intro power_increasing) simp_all
  have le': "(2 :: nat) ^ 63 < 2 ^ 64" by simp
  have pos: "1 < (2 :: nat) ^ Suc k" by (rule one_less_power) simp_all
  have u: "unat n = 2 ^ Suc k - 1"
    unfolding n_def by (rule unat_of_nat_u64) (use le le' pos in linarith)
  then have nz: "n \<noteq> 0" using pos by (metis unat_0 less_numeral_extra(3) zero_less_diff)
  have "unat n + 1 = 2 ^ Suc k" using u pos by linarith
  moreover have "unat n + 1 < 2 ^ 64" using le le' calculation by linarith
  ultimately have "is_all_ones n" unfolding is_all_ones_iff using nz by blast
  then have "height_loop n = n" by (simp add: height_loop.simps)
  moreover have "floorlog 2 (unat n) = Suc k"
    by (rule floorlog_between) (use u pos in auto)
  ultimately have "node_height n = k"
    using nz by (simp add: node_height_def most_significant_pos_floorlog)
  then show ?thesis unfolding nh_def n_def .
qed

lemma nh_strip:
  assumes k: "k < 62" and q: "1 \<le> q" "q \<le> 2 ^ Suc k - 1"
  shows "nh ((2 ^ Suc k - 1) + q) = nh q"
proof -
  define p where "p = (2 ^ Suc k - 1) + q"
  define n :: u64 where "n = of_nat p"
  have le: "(2 :: nat) ^ Suc (Suc k) \<le> 2 ^ 63" using k by (intro power_increasing) simp_all
  have le': "(2 :: nat) ^ 63 < 2 ^ 64" by simp
  have bounds: "2 ^ Suc k \<le> p" "p + 1 < 2 ^ Suc (Suc k)"
    using q by (auto simp: p_def)
  have u: "unat n = p" unfolding n_def by (rule unat_of_nat_u64) (use le le' bounds in linarith)
  have nz: "n \<noteq> 0" using bounds(1) u by (metis unat_0 le_zero_eq power_not_zero zero_neq_numeral)
  have not_ones: "\<not> is_all_ones n"
  proof
    assume "is_all_ones n"
    then obtain j where j: "p + 1 = 2 ^ j" by (auto simp: is_all_ones_iff u)
    then have "(2 :: nat) ^ Suc k < 2 ^ j" "(2 :: nat) ^ j < 2 ^ Suc (Suc k)"
      using bounds by linarith+
    then have "Suc k < j" "j < Suc (Suc k)" by (simp_all only: power_strict_increasing_iff one_less_numeral_iff semiring_norm)
    then show False by simp
  qed
  have "floorlog 2 p = Suc (Suc k)"
    by (rule floorlog_between) (use bounds in linarith)+
  then have "unat (jump_left n) = q"
    using unat_jump_left [OF nz] by (simp add: u p_def)
  moreover have "q \<le> p" unfolding p_def by (rule le_add2)
  then have "q < 2 ^ 64" using bounds le le' by linarith
  ultimately have "jump_left n = of_nat q"
    by (simp only: word_unat_eq_iff unat_of_nat_u64)
  then have "height_loop n = height_loop (of_nat q)"
    using nz not_ones by (subst height_loop.simps) simp
  moreover have "(of_nat q :: u64) \<noteq> 0"
    using \<open>unat (jump_left n) = q\<close> \<open>jump_left n = of_nat q\<close> q(1) by (metis unat_0 not_one_le_zero)
  ultimately have "node_height n = node_height (of_nat q)"
    using nz by (simp add: node_height_def)
  then show ?thesis unfolding nh_def n_def p_def .
qed

section \<open>Specification: a forest of perfect trees\<close>

datatype mtree = MLeaf bytes | MNode mtree mtree

text \<open>A forest lists its trees with their heights, the most recent one first.\<close>

type_synonym forest = "(nat \<times> mtree) list"

primrec tsz :: "nat \<Rightarrow> nat" where
  "tsz 0 = 1"
| "tsz (Suc h) = Suc (2 * tsz h)"

fun perfect :: "nat \<Rightarrow> mtree \<Rightarrow> bool" where
  "perfect 0 (MLeaf p) = True"
| "perfect (Suc h) (MNode l r) = (perfect h l \<and> perfect h r)"
| "perfect _ _ = False"

fun tree_leaves :: "mtree \<Rightarrow> bytes list" where
  "tree_leaves (MLeaf p) = [p]"
| "tree_leaves (MNode l r) = tree_leaves l @ tree_leaves r"

fun tree_size :: "mtree \<Rightarrow> nat" where
  "tree_size (MLeaf p) = 1"
| "tree_size (MNode l r) = Suc (tree_size l + tree_size r)"

fun tree_root :: "'p backend \<Rightarrow> nat \<Rightarrow> mtree \<Rightarrow> hash256" where
  "tree_root B off (MLeaf p) = leaf_hash B (of_nat (Suc off)) p"
| "tree_root B off (MNode l r) =
    node_hash B (of_nat (Suc (off + tree_size l + tree_size r)))
      (tree_root B off l) (tree_root B (off + tree_size l) r)"

fun tree_nodes :: "'p backend \<Rightarrow> nat \<Rightarrow> mtree \<Rightarrow> hash256 list" where
  "tree_nodes B off (MLeaf p) = [tree_root B off (MLeaf p)]"
| "tree_nodes B off (MNode l r) =
    tree_nodes B off l @ tree_nodes B (off + tree_size l) r @ [tree_root B off (MNode l r)]"

fun valid_forest :: "forest \<Rightarrow> bool" where
  "valid_forest [] = True"
| "valid_forest ((h, t) # f) = (perfect h t \<and> (\<forall>(h', t') \<in> set f. h < h') \<and> valid_forest f)"

fun fsize :: "forest \<Rightarrow> nat" where
  "fsize [] = 0"
| "fsize ((h, t) # f) = fsize f + tsz h"

fun fcount :: "forest \<Rightarrow> nat" where
  "fcount [] = 0"
| "fcount ((h, t) # f) = fcount f + 2 ^ h"

fun forest_leaves :: "forest \<Rightarrow> bytes list" where
  "forest_leaves [] = []"
| "forest_leaves ((h, t) # f) = forest_leaves f @ tree_leaves t"

fun forest_nodes :: "'p backend \<Rightarrow> forest \<Rightarrow> hash256 list" where
  "forest_nodes B [] = []"
| "forest_nodes B ((h, t) # f) = forest_nodes B f @ tree_nodes B (fsize f) t"

fun forest_roots :: "'p backend \<Rightarrow> forest \<Rightarrow> hash256 list" where
  "forest_roots B [] = []"
| "forest_roots B ((h, t) # f) = forest_roots B f @ [tree_root B (fsize f) t]"

fun add_tree :: "nat \<Rightarrow> mtree \<Rightarrow> forest \<Rightarrow> forest" where
  "add_tree h t [] = [(h, t)]"
| "add_tree h t ((h', t') # f) =
    (if h = h' then add_tree (Suc h) (MNode t' t) f else (h, t) # (h', t') # f)"

definition forest_of :: "bytes list \<Rightarrow> forest" where
  "forest_of ps = fold (\<lambda>p f. add_tree 0 (MLeaf p) f) ps []"

lemma tsz_pow: "Suc (tsz h) = 2 ^ Suc h"
  by (induction h) auto

lemma tsz_eq: "tsz h = 2 ^ Suc h - 1"
  using tsz_pow [of h] by simp

lemma tsz_pos [simp]: "0 < tsz h"
  by (cases h) auto

lemma perfect_size: "perfect h t \<Longrightarrow> tree_size t = tsz h"
  by (induction h t rule: perfect.induct) auto

lemma length_tree_nodes [simp]: "length (tree_nodes B off t) = tree_size t"
  by (induction B off t rule: tree_nodes.induct) auto

lemma tree_nodes_not_Nil [simp]: "tree_nodes B off t \<noteq> []"
  by (cases t) auto

lemma last_tree_nodes [simp]: "last (tree_nodes B off t) = tree_root B off t"
  by (cases t) auto

lemma length_forest_nodes: "valid_forest f \<Longrightarrow> length (forest_nodes B f) = fsize f"
  by (induction f rule: valid_forest.induct) (auto simp: perfect_size)

lemma fsize_fcount: "fsize f + length f = 2 * fcount f"
proof (induction f rule: fsize.induct)
  case (2 h t f)
  then show ?case using tsz_pow [of h] by simp
qed simp

lemma tsz_le_fsize: "(h, t) \<in> set f \<Longrightarrow> tsz h \<le> fsize f"
  by (induction f) auto

lemma tsz_mono: "h \<le> h' \<Longrightarrow> tsz h \<le> tsz h'"
  by (induction h') (auto simp: le_Suc_eq)

lemma tsz_less_height: "tsz h < 2 ^ 62 \<Longrightarrow> h < 62"
proof (rule ccontr)
  assume a: "tsz h < 2 ^ 62" "\<not> h < 62"
  then have "tsz 62 \<le> tsz h" by (intro tsz_mono) simp
  moreover have "tsz 62 = 2 ^ 63 - 1" by (simp add: tsz_eq)
  ultimately show False using a(1) by simp
qed

lemma nh_tsz: "h < 62 \<Longrightarrow> nh (tsz h) = h"
  using nh_perfect [of h] by (simp add: tsz_eq)

lemma nh_forest_strip:
  assumes "valid_forest f" "fsize f < 2 ^ 62" "1 \<le> q"
    and "f \<noteq> [] \<Longrightarrow> q \<le> tsz (fst (hd f))"
  shows "nh (fsize f + q) = nh q"
  using assms
proof (induction f arbitrary: q rule: valid_forest.induct)
  case (2 h t f)
  have h: "h < 62" using 2 by (intro tsz_less_height) simp
  have "nh (fsize f + (tsz h + q)) = nh (tsz h + q)"
  proof (rule "2.IH")
    show "tsz h + q \<le> tsz (fst (hd f))" if "f \<noteq> []"
    proof -
      have "Suc h \<le> fst (hd f)" using "2.prems"(1) that by (cases f) auto
      then have "tsz (Suc h) \<le> tsz (fst (hd f))" by (rule tsz_mono)
      then show ?thesis using "2.prems"(4) by simp
    qed
  qed (use "2.prems" in auto)
  also have "\<dots> = nh q"
    using nh_strip [of h q] h "2.prems"(3,4) by (simp add: tsz_eq)
  finally show ?case by (simp add: add.assoc)
qed simp

lemma fcount_add_tree: "fcount (add_tree h t f) = fcount f + 2 ^ h"
  by (induction h t f rule: add_tree.induct) auto

lemma fsize_le_count: "fsize f \<le> 2 * fcount f"
  using fsize_fcount [of f] by simp

lemma leaves_add_tree: "forest_leaves (add_tree h t f) = forest_leaves f @ tree_leaves t"
  by (induction h t f rule: add_tree.induct) auto

lemma add_tree_heights: "(h', t') \<in> set (add_tree h t f) \<Longrightarrow> h \<le> h' \<or> (h', t') \<in> set f"
  by (induction h t f rule: add_tree.induct) (auto split: if_splits)

lemma valid_add_tree:
  assumes "valid_forest f" "perfect h t" "\<forall>(h', t') \<in> set f. h \<le> h'"
  shows "valid_forest (add_tree h t f)"
  using assms
proof (induction h t f rule: add_tree.induct)
  case (2 h t h' t' f)
  show ?case
  proof (cases "h = h'")
    case True
    then show ?thesis using 2 by (auto simp: Suc_le_eq)
  next
    case False
    then have "h < h'" using "2.prems" by auto
    then show ?thesis using "2.prems" False by fastforce
  qed
qed simp

lemma popcount_fcount: "valid_forest f \<Longrightarrow> popcount (fcount f) = length f"
proof (induction f rule: valid_forest.induct)
  case (2 h t f)
  have "\<forall>(h', t') \<in> set f. Suc h \<le> h' \<Longrightarrow> 2 ^ Suc h dvd fcount f"
    by (induction f) (auto simp: le_imp_power_dvd simp del: power_Suc intro!: dvd_add)
  then have "2 ^ Suc h dvd fcount f" using 2 by (auto simp: Suc_le_eq)
  then obtain m where m: "fcount f = 2 ^ Suc h * m" by blast
  then have "popcount m = length f" using 2 popcount_pow_mult [of "Suc h" m] by simp
  then show ?case using popcount_pow_add [of h m] m by (simp add: add.commute)
qed simp

section \<open>Appending refines the forest increment\<close>

definition pmmr_rep :: "'p backend \<Rightarrow> pmmr \<Rightarrow> forest \<Rightarrow> bool" where
  "pmmr_rep B m f \<longleftrightarrow> nodes m = None # map Some (forest_nodes B f) \<and> valid_forest f
    \<and> unat (leaf_count m) = fcount f"

lemma subtree_size_word:
  assumes "h < 62"
  shows "checked_sub (push_bit (h + 1) 1) 1 = Some (of_nat (tsz h) :: u64)"
proof -
  have p: "unat (2 ^ Suc h :: u64) = 2 ^ Suc h" using assms by (intro unat_pow2) simp
  have "tsz h < tsz 62" using assms tsz_mono [of "Suc h" 62] by simp
  then have "tsz h < 2 ^ 64" by (simp add: tsz_eq)
  then have t: "unat (of_nat (tsz h) :: u64) = tsz h" by (rule unat_of_nat_u64)
  have "unat (push_bit (h + 1) 1 :: u64) = unat (of_nat (tsz h) :: u64) + unat (1 :: u64)"
    using p t tsz_pow [of h] by simp
  then show ?thesis by (simp only: checked_sub_eq_Some)
qed

lemma set_node_append:
  assumes "unat pos = length (nodes m)" "length (nodes m) + 1 < USIZE_LIMIT"
  shows "set_node m pos x = Ok (m\<lparr>nodes := nodes m @ [Some x]\<rparr>)"
  using assms by (simp add: set_node_def usize_checked_add_def nth_append)

lemma get_node_last:
  assumes "nodes m = None # map Some (xs @ ys @ zs)" "ys \<noteq> []"
    and "unat pos = length xs + length ys"
  shows "get_node m pos = Some (last ys)"
proof -
  obtain n where n: "length ys = Suc n" using assms(2) by (cases ys) auto
  have "(xs @ ys @ zs) ! (length xs + n) = ys ! n"
    using n by (simp add: nth_append)
  also have "\<dots> = last ys" using n assms(2) by (simp add: last_conv_nth)
  finally show ?thesis
    using assms n by (simp add: get_node_def nth_Cons' nth_append)
qed

lemma merge_peaks_refines:
  assumes "valid_forest f" "perfect h t" "\<forall>(h', t') \<in> set f. h \<le> h'"
    and "nodes m = None # map Some (forest_nodes B f @ tree_nodes B (fsize f) t)"
    and "fsize f + tsz h + length f < 2 ^ 62"
  shows "merge_peaks B m (of_nat (fsize f + tsz h))
    = Ok (m\<lparr>nodes := None # map Some (forest_nodes B (add_tree h t f))\<rparr>)"
  using assms
proof (induction f arbitrary: h t m)
  case Nil
  have h: "h < 62" using Nil by (intro tsz_less_height) simp
  have "nodes m = None # map Some (tree_nodes B 0 t)" using Nil by simp
  then have "m\<lparr>nodes := None # map Some (tree_nodes B 0 t)\<rparr> = m" by (cases m) simp
  then show ?case
    using h nh_tsz [OF h]
    by (subst merge_peaks.simps) (simp add: Let_def nh_def subtree_size_word [simplified])
next
  case (Cons g f)
  obtain h' t' where g: "g = (h', t')" by (cases g)
  note prems = Cons.prems [unfolded g]
  define pos where "pos = fsize f + tsz h' + tsz h"
  define left where "left = fsize f + tsz h'"
  have h: "h < 62" using prems(5) by (intro tsz_less_height) simp
  have h': "h' < 62" using prems(5) by (intro tsz_less_height) simp
  have small: "pos + 1 < 2 ^ 62" using prems(5) by (simp add: pos_def)
  have u: "unat (of_nat pos :: u64) = pos" "unat (of_nat left :: u64) = left"
      "unat (of_nat (tsz h) :: u64) = tsz h" "unat (of_nat (Suc pos) :: u64) = Suc pos"
  proof -
    have "pos < 2 ^ 64" "left < 2 ^ 64" "tsz h < 2 ^ 64" "Suc pos < 2 ^ 64"
      using small by (simp_all add: pos_def left_def)
    then show "unat (of_nat pos :: u64) = pos" "unat (of_nat left :: u64) = left"
        "unat (of_nat (tsz h) :: u64) = tsz h" "unat (of_nat (Suc pos) :: u64) = Suc pos"
      by (simp_all only: unat_of_nat_u64)
  qed
  have hts: "tsz h \<le> tsz h'" using prems(3) by (intro tsz_mono) auto
  have "nh (fsize ((h', t') # f) + tsz h) = nh (tsz h)"
    using prems hts by (intro nh_forest_strip) (auto simp: Suc_le_eq)
  then have nh_pos: "node_height (of_nat pos) = h"
    using nh_tsz [OF h] by (simp add: nh_def pos_def)
  have "tsz h' \<le> tsz (fst (hd f))" if "f \<noteq> []"
    using prems(1) that by (cases f) (auto intro: tsz_mono)
  then have "nh (fsize f + tsz h') = nh (tsz h')"
    using prems by (intro nh_forest_strip) (auto simp: Suc_le_eq)
  then have nh_left: "node_height (of_nat left) = h'"
    using nh_tsz [OF h'] by (simp add: nh_def left_def)
  have not_le: "\<not> (of_nat pos :: u64) \<le> of_nat (tsz h)"
    using u hts by (simp add: word_le_nat_alt pos_def)
  have left_sub: "checked_sub (of_nat pos) (of_nat (tsz h)) = Some (of_nat left :: u64)"
    unfolding checked_sub_eq_Some using u by (simp add: pos_def left_def)
  show ?case
  proof (cases "h = h'")
    case False
    have "m\<lparr>nodes := nodes m\<rparr> = m" by (cases m) simp
    then show ?thesis
      using False prems(4) nh_pos nh_left not_le left_sub
      by (subst merge_peaks.simps)
        (simp add: Let_def subtree_size_word [OF h, simplified] pos_def [symmetric] g)
  next
    case True
    let ?xs = "forest_nodes B f" and ?ys = "tree_nodes B (fsize f) t'"
      and ?zs = "tree_nodes B (fsize f + tsz h') t"
    have nodes: "nodes m = None # map Some (?xs @ ?ys @ ?zs)" using prems(4) by simp
    have len: "length ?xs = fsize f" "length ?ys = tsz h'" "length ?zs = tsz h"
      using prems(1,2) by (simp_all add: length_forest_nodes perfect_size)
    have gl: "get_node m (of_nat left) = Some (tree_root B (fsize f) t')"
      using get_node_last [OF nodes, of "of_nat left"] u len by (simp add: left_def)
    have gp: "get_node m (of_nat pos) = Some (tree_root B (fsize f + tsz h') t)"
      using get_node_last [of m "?xs @ ?ys" ?zs "[]" "of_nat pos"] nodes u len by (simp add: pos_def)
    have parent: "checked_add (of_nat pos) 1 = Some (of_nat (Suc pos) :: u64)"
      unfolding checked_add_eq_Some using u by simp
    let ?ph = "node_hash B (of_nat (Suc pos)) (tree_root B (fsize f) t') (tree_root B (fsize f + tsz h') t)"
    let ?m = "m\<lparr>nodes := nodes m @ [Some ?ph]\<rparr>"
    have set: "set_node m (of_nat (Suc pos)) ?ph = Ok ?m"
      using nodes len u small by (intro set_node_append) (auto simp: pos_def USIZE_LIMIT_def)
    have sizes: "tree_size t' = tsz h'" "tree_size t = tsz h"
      using prems(1,2) by (simp_all add: perfect_size)
    have "merge_peaks B m (of_nat pos) = merge_peaks B ?m (of_nat (Suc pos))"
      using True nh_pos nh_left not_le left_sub gl gp parent set
      by (subst merge_peaks.simps) (simp add: Let_def subtree_size_word [OF h', simplified])
    moreover have eq: "Suc pos = fsize f + tsz (Suc h)" using True by (simp add: pos_def)
    have "merge_peaks B ?m (of_nat (fsize f + tsz (Suc h)))
        = Ok (?m\<lparr>nodes := None # map Some (forest_nodes B (add_tree (Suc h) (MNode t' t) f))\<rparr>)"
    proof (rule Cons.IH)
      show "nodes ?m = None # map Some (forest_nodes B f @ tree_nodes B (fsize f) (MNode t' t))"
        using nodes sizes True by (simp add: pos_def)
    qed (use prems True in \<open>auto simp: Suc_le_eq\<close>)
    ultimately show ?thesis using True by (simp only: eq [symmetric]) (simp add: g pos_def ac_simps)
  qed
qed

lemma pmmr_rep_fsize: "pmmr_rep B m f \<Longrightarrow> length (nodes m) = Suc (fsize f)"
  by (simp add: pmmr_rep_def length_forest_nodes)

lemma pmmr_rep_count_ones: "pmmr_rep B m f \<Longrightarrow> unat (count_ones (leaf_count m)) = length f"
  by (simp add: pmmr_rep_def unat_count_ones popcount_fcount)

lemma node_count_refines:
  assumes "pmmr_rep B m f" "fcount f < 2 ^ 60"
  shows "Option.bind (checked_mul (leaf_count m) 2) (\<lambda>x. checked_sub x (count_ones (leaf_count m)))
    = Some (of_nat (fsize f))"
proof -
  have fc: "unat (leaf_count m) = fcount f" using assms(1) by (simp add: pmmr_rep_def)
  have le: "fsize f < 2 ^ 64" using assms(2) fsize_le_count [of f] by simp
  have "unat (2 * leaf_count m) = 2 * fcount f"
    using assms(2) fc by (subst unat_mul_no_overflow) simp_all
  then have mul: "checked_mul (leaf_count m) 2 = Some (2 * leaf_count m)"
    by (simp only: checked_mul_eq_Some) (simp add: fc)
  have "checked_sub (2 * leaf_count m) (count_ones (leaf_count m)) = Some (of_nat (fsize f))"
    unfolding checked_sub_eq_Some pmmr_rep_count_ones [OF assms(1)]
      unat_of_nat_u64 [OF le] \<open>unat (2 * leaf_count m) = 2 * fcount f\<close>
    using fsize_fcount [of f] by simp
  with mul show ?thesis by simp
qed

lemma pmmr_push_refines:
  assumes rep: "pmmr_rep B m f" and small: "fcount f < 2 ^ 60"
  shows "\<exists>m'. pmmr_push B m p = Ok (of_nat (Suc (fsize f)), m')
    \<and> pmmr_rep B m' (add_tree 0 (MLeaf p) f)"
proof -
  have fc: "unat (leaf_count m) = fcount f" and v: "valid_forest f"
    and ns: "nodes m = None # map Some (forest_nodes B f)"
    using rep by (simp_all add: pmmr_rep_def)
  have le: "Suc (fsize f) < 2 ^ 62" using small fsize_le_count [of f] by simp
  have u: "unat (of_nat (fsize f) :: u64) = fsize f"
      "unat (of_nat (Suc (fsize f)) :: u64) = Suc (fsize f)"
    using le by (intro unat_of_nat_u64; simp)+
  have inc: "checked_add (leaf_count m) 1 = Some (leaf_count m + 1)"
    using fc small by (simp add: checked_add_def)
  have pos: "checked_add (of_nat (fsize f)) 1 = Some (of_nat (Suc (fsize f)) :: u64)"
    unfolding checked_add_eq_Some u by simp
  let ?x = "leaf_hash B (of_nat (Suc (fsize f))) p"
  have set: "set_node m (of_nat (Suc (fsize f))) ?x = Ok (m\<lparr>nodes := nodes m @ [Some ?x]\<rparr>)"
    using u pmmr_rep_fsize [OF rep] le by (intro set_node_append) (simp_all add: USIZE_LIMIT_def)
  have "fsize f + tsz 0 + length f < 2 ^ 62"
    using fsize_fcount [of f] small by simp
  then have "merge_peaks B (m\<lparr>nodes := nodes m @ [Some ?x]\<rparr>) (of_nat (fsize f + tsz 0))
      = Ok (m\<lparr>nodes := nodes m @ [Some ?x]\<rparr>
          \<lparr>nodes := None # map Some (forest_nodes B (add_tree 0 (MLeaf p) f))\<rparr>)"
    using v ns by (intro merge_peaks_refines) auto
  then have merge: "merge_peaks B (m\<lparr>nodes := nodes m @ [Some ?x]\<rparr>) (of_nat (Suc (fsize f)))
      = Ok (m\<lparr>nodes := None # map Some (forest_nodes B (add_tree 0 (MLeaf p) f))\<rparr>)" by simp
  let ?m = "m\<lparr>nodes := None # map Some (forest_nodes B (add_tree 0 (MLeaf p) f)),
      leaf_count := leaf_count m + 1\<rparr>"
  have "pmmr_push B m p = Ok (of_nat (Suc (fsize f)), ?m)"
    unfolding pmmr_push_def inc node_count_refines [OF rep small] ok_or.simps and_then.simps pos set merge ..
  moreover have "unat (leaf_count m + 1) = fcount f + 1"
    using fc small by (subst unat_add_no_overflow) simp_all
  then have "pmmr_rep B ?m (add_tree 0 (MLeaf p) f)"
    using v by (simp add: pmmr_rep_def fcount_add_tree valid_add_tree)
  ultimately show ?thesis by blast
qed

text \<open>Appending a list of payloads, the loop every client runs.\<close>

definition pmmr_push_all :: "'p backend \<Rightarrow> pmmr \<Rightarrow> bytes list \<Rightarrow> pmmr dom_result" where
  "pmmr_push_all B m ps = try_fold (\<lambda>m p. and_then (pmmr_push B m p) (\<lambda>(_, m). Ok m)) m ps"

lemma pmmr_push_all_refines:
  assumes "pmmr_rep B m f" "fcount f + length ps < 2 ^ 60"
  shows "\<exists>m'. pmmr_push_all B m ps = Ok m'
    \<and> pmmr_rep B m' (fold (\<lambda>p f. add_tree 0 (MLeaf p) f) ps f)"
  using assms
proof (induction ps arbitrary: m f)
  case (Cons p ps)
  obtain m' where m': "pmmr_push B m p = Ok (of_nat (Suc (fsize f)), m')"
    "pmmr_rep B m' (add_tree 0 (MLeaf p) f)"
    using pmmr_push_refines [OF Cons.prems(1)] Cons.prems(2) by (metis add_lessD1)
  have "fcount (add_tree 0 (MLeaf p) f) + length ps < 2 ^ 60"
    using Cons.prems(2) by (simp add: fcount_add_tree)
  from Cons.IH [OF m'(2) this] m'(1) show ?case by (simp add: pmmr_push_all_def)
qed (simp add: pmmr_push_all_def)

lemma pmmr_rep_new: "pmmr_rep B pmmr_new []"
  by (simp add: pmmr_rep_def pmmr_new_def)

lemma forest_of_append: "forest_of (ps @ [p]) = add_tree 0 (MLeaf p) (forest_of ps)"
  by (simp add: forest_of_def)

lemma forest_of_leaves: "forest_leaves (forest_of ps) = ps"
  by (induction ps rule: rev_induct) (simp_all add: forest_of_append leaves_add_tree, simp add: forest_of_def)

lemma forest_of_count: "fcount (forest_of ps) = length ps"
  by (induction ps rule: rev_induct) (simp_all add: forest_of_append fcount_add_tree, simp add: forest_of_def)

lemma pmmr_build:
  "length ps < 2 ^ 60 \<Longrightarrow> \<exists>m. pmmr_push_all B pmmr_new ps = Ok m \<and> pmmr_rep B m (forest_of ps)"
  using pmmr_push_all_refines [OF pmmr_rep_new, of ps] by (simp add: forest_of_def)

section \<open>Peaks and root\<close>

fun forest_peaks :: "forest \<Rightarrow> u64 list" where
  "forest_peaks [] = []"
| "forest_peaks ((h, t) # f) = forest_peaks f @ [of_nat (fsize f + tsz h)]"

lemma fsize_append [simp]: "fsize (f @ g) = fsize f + fsize g"
  by (induction f rule: fsize.induct) simp_all

lemma fcount_append [simp]: "fcount (f @ g) = fcount f + fcount g"
  by (induction f rule: fcount.induct) simp_all

lemma valid_forest_append:
  "valid_forest (f @ g) \<longleftrightarrow> valid_forest f \<and> valid_forest g
    \<and> (\<forall>(h, t) \<in> set f. \<forall>(h', t') \<in> set g. h < h')"
  by (induction f rule: valid_forest.induct) auto

lemma fcount_less:
  assumes "valid_forest f" "\<forall>(h, t) \<in> set f. h < b"
  shows "fcount f < 2 ^ b"
  using assms
proof (induction f arbitrary: b rule: rev_induct)
  case (snoc x f)
  obtain h t where x: "x = (h, t)" by (cases x)
  have "fcount f < 2 ^ h" using snoc x by (intro snoc.IH) (auto simp: valid_forest_append)
  then have "fcount (f @ [x]) < 2 ^ Suc h" by (simp add: x)
  also have "(2 :: nat) ^ Suc h \<le> 2 ^ b" using snoc.prems(2) x by (intro power_increasing) auto
  finally show ?case .
qed simp

lemma forest_split_height:
  assumes "valid_forest g" "\<forall>(h, t) \<in> set g. h \<le> b"
  obtains "\<forall>(h, t) \<in> set g. h < b"
  | g' t where "g = g' @ [(b, t)]" "\<forall>(h, t) \<in> set g'. h < b"
proof (cases g rule: rev_cases)
  case (snoc g' x)
  obtain h t where x: "x = (h, t)" by (cases x)
  have below: "\<forall>(h', t') \<in> set g'. h' < h"
    using assms(1) snoc x by (auto simp: valid_forest_append)
  have "h \<le> b" using assms(2) snoc x by auto
  then consider "h = b" | "h < b" by linarith
  then show ?thesis
  proof cases
    case 1
    then show ?thesis using that(2) snoc x below by blast
  next
    case 2
    then show ?thesis using that(1) snoc x below by fastforce
  qed
qed (use that(1) in simp)

lemma unat_push_bit_1: "b < 64 \<Longrightarrow> unat (push_bit b 1 :: u64) = 2 ^ b"
  using unat_pow2 [of b] by simp

lemma peak_step_taken:
  assumes "b < 62" "c < 2 ^ 62" "s + tsz b < 2 ^ 63"
  defines "w \<equiv> push_bit b 1 :: u64"
  shows "w \<le> of_nat (c + 2 ^ b)"
    and "\<exists>x y. checked_sub w 1 = Some x \<and> checked_add x w = Some y
      \<and> checked_add (of_nat s) y = Some (of_nat (s + tsz b))"
    and "checked_sub (of_nat (c + 2 ^ b)) w = Some (of_nat c)"
proof -
  have pw: "unat w = 2 ^ b" unfolding w_def using assms(1) by (intro unat_push_bit_1) simp
  have pb: "(2 :: nat) ^ b < 2 ^ 62" using assms(1) by (intro power_strict_increasing) simp_all
  have bs: "c < 2 ^ 64" "c + 2 ^ b < 2 ^ 64" "s < 2 ^ 64" "s + tsz b < 2 ^ 64" "tsz b < 2 ^ 64"
    "2 ^ b - 1 < (2 ^ 64 :: nat)"
    using assms(2,3) pb by simp_all
  note u = bs [THEN unat_of_nat_u64]
  have one: "(1 :: nat) \<le> 2 ^ b" by simp
  show "w \<le> of_nat (c + 2 ^ b)" unfolding word_le_nat_alt pw u by simp
  show "checked_sub (of_nat (c + 2 ^ b)) w = Some (of_nat c)"
    unfolding checked_sub_eq_Some pw u by simp
  have "checked_sub w 1 = Some (of_nat (2 ^ b - 1))"
    unfolding checked_sub_eq_Some pw u using one by simp
  moreover have "checked_add (of_nat (2 ^ b - 1)) w = Some (of_nat (tsz b))"
    unfolding checked_add_eq_Some pw u using one tsz_pow [of b] by simp
  moreover have "checked_add (of_nat s) (of_nat (tsz b)) = Some (of_nat (s + tsz b) :: u64)"
    unfolding checked_add_eq_Some u ..
  ultimately show "\<exists>x y. checked_sub w 1 = Some x \<and> checked_add x w = Some y
      \<and> checked_add (of_nat s) y = Some (of_nat (s + tsz b))" by blast
qed

lemma peak_step_skipped:
  assumes "b < 64" "c < 2 ^ b"
  shows "\<not> push_bit b 1 \<le> (of_nat c :: u64)"
proof -
  have "(2 :: nat) ^ b \<le> 2 ^ 63" using assms(1) by (intro power_increasing) simp_all
  then have "c < 2 ^ 64" using assms(2) by simp
  then show ?thesis
    unfolding word_le_nat_alt unat_push_bit_1 [OF assms(1)] using assms(2) by (simp add: unat_of_nat_u64)
qed

lemma peak_loop_skip:
  assumes "b < 64" "c < 2 ^ b"
  shows "peak_loop b (of_nat c) off ps
    = (case b of 0 \<Rightarrow> Some ps | Suc b' \<Rightarrow> peak_loop b' (of_nat c) off ps)"
  using peak_step_skipped [OF assms] by (subst peak_loop.simps) (simp add: Let_def del: peak_loop.simps)

lemma peak_loop_take:
  assumes "b < 62" "c < 2 ^ 62" "s + tsz b < 2 ^ 63"
  shows "peak_loop b (of_nat (c + 2 ^ b)) (of_nat s) ps
    = (case b of 0 \<Rightarrow> Some (ps @ [of_nat (s + tsz b)])
       | Suc b' \<Rightarrow> peak_loop b' (of_nat c) (of_nat (s + tsz b)) (ps @ [of_nat (s + tsz b)]))"
proof -
  obtain x y where xy: "checked_sub (push_bit b 1) 1 = Some x" "checked_add x (push_bit b 1) = Some y"
      "checked_add (of_nat s) y = Some (of_nat (s + tsz b) :: u64)"
    using peak_step_taken(2) [OF assms] by blast
  note steps = peak_step_taken(1) [OF assms] xy peak_step_taken(3) [OF assms]
  show ?thesis
    by (subst peak_loop.simps) (simp only: Let_def steps if_True option.case prod.case)
qed

lemma peak_loop_refines:
  assumes "valid_forest (g @ s)" "\<forall>(h, t) \<in> set g. h \<le> b" "fcount (g @ s) < 2 ^ 60" "b < 64"
  shows "peak_loop b (of_nat (fcount g)) (of_nat (fsize s)) (forest_peaks s) = Some (forest_peaks (g @ s))"
  using assms
proof (induction b arbitrary: g s)
  case (0 g s)
  have v: "valid_forest g" using "0.prems"(1) by (simp add: valid_forest_append)
  show ?case
    using v "0.prems"(2)
  proof (cases rule: forest_split_height)
    case 1
    then have "g = []" by (cases g) auto
    then show ?thesis using peak_loop_skip [of 0 0] by simp
  next
    case (2 g' t)
    then have "g' = []" by (cases g') auto
    then show ?thesis
      using 2 peak_loop_take [of 0 0 "fsize s" "forest_peaks s"] "0.prems"(3) fsize_le_count [of s] by simp
  qed
next
  case (Suc b g s)
  have v: "valid_forest g" using Suc.prems(1) by (simp add: valid_forest_append)
  show ?case
    using v Suc.prems(2)
  proof (cases rule: forest_split_height)
    case 1
    then show ?thesis
      using peak_loop_skip [OF Suc.prems(4) fcount_less [OF v 1]] Suc.prems
      by (simp add: Suc.IH less_Suc_eq_le del: peak_loop.simps)
  next
    case (2 g' t)
    have le: "2 ^ Suc b < (2 :: nat) ^ 60" "fcount g' < 2 ^ 60" using Suc.prems(3) 2 by simp_all
    then have b: "Suc b < 60" by (simp only: power_strict_increasing_iff one_less_numeral_iff semiring_norm)
    have sz: "fsize s + tsz (Suc b) < 2 ^ 63"
      using fsize_le_count [of "g @ s"] Suc.prems(3) 2 by simp
    have "peak_loop b (of_nat (fcount g')) (of_nat (fsize ((Suc b, t) # s))) (forest_peaks ((Suc b, t) # s))
        = Some (forest_peaks (g' @ (Suc b, t) # s))"
      using Suc.prems 2 by (intro Suc.IH) (auto simp: less_Suc_eq_le valid_forest_append)
    moreover have "fcount g = fcount g' + 2 ^ Suc b" using 2 by simp
    ultimately show ?thesis
      using peak_loop_take [of "Suc b" "fcount g'" "fsize s" "forest_peaks s"] b le sz 2
      by (simp del: peak_loop.simps of_nat_add tsz.simps power_Suc)
  qed
qed

lemma peak_positions_refines:
  assumes "pmmr_rep B m f" "fcount f < 2 ^ 60"
  shows "peak_positions (leaf_count m) = Ok (forest_peaks f)"
proof -
  have v: "valid_forest f" and c: "unat (leaf_count m) = fcount f"
    using assms(1) by (simp_all add: pmmr_rep_def)
  have lc: "leaf_count m = of_nat (fcount f)" by (simp add: c [symmetric])
  have heights: "\<forall>(h, t) \<in> set f. h \<le> 63"
  proof clarify
    fix h t assume "(h, t) \<in> set f"
    then have "tsz h \<le> 2 * fcount f" using tsz_le_fsize fsize_le_count le_trans by blast
    then have "h < 62" using assms(2) by (intro tsz_less_height) simp
    then show "h \<le> 63" by simp
  qed
  show ?thesis
  proof (cases "leaf_count m = 0")
    case True
    then have "fcount f = 0" using c by simp
    then have "f = []" by (cases f rule: fcount.cases) auto
    then show ?thesis using True by (simp add: peak_positions_def peak_positions_fixed_def)
  next
    case False
    then show ?thesis
      using peak_loop_refines [of f "[]" 63] v heights assms(2) lc
      by (simp add: peak_positions_def peak_positions_fixed_def del: peak_loop.simps)
  qed
qed

lemma get_peaks:
  assumes "nodes m = None # map Some (forest_nodes B f @ zs)" "valid_forest f" "fsize f < 2 ^ 62"
  shows "try_map (\<lambda>p. ok_or (get_node m p) e) (forest_peaks f) = Ok (forest_roots B f)"
  using assms
proof (induction f arbitrary: zs rule: forest_peaks.induct)
  case (2 h t f)
  have "try_map (\<lambda>p. ok_or (get_node m p) e) (forest_peaks f) = Ok (forest_roots B f)"
    using 2 by (intro "2.IH" [of "tree_nodes B (fsize f) t @ zs"]) auto
  moreover have "get_node m (of_nat (fsize f + tsz h)) = Some (last (tree_nodes B (fsize f) t))"
  proof (rule get_node_last)
    show "nodes m = None # map Some (forest_nodes B f @ tree_nodes B (fsize f) t @ zs)"
      using "2.prems"(1) by simp
    have "unat (of_nat (fsize f + tsz h) :: u64) = fsize f + tsz h"
      using "2.prems"(3) by (intro unat_of_nat_u64) simp
    then show "unat (of_nat (fsize f + tsz h) :: u64) = length (forest_nodes B f)
        + length (tree_nodes B (fsize f) t)"
      using "2.prems"(2) perfect_size [of h t] by (simp add: length_forest_nodes)
  qed simp
  ultimately show ?case by (simp add: try_map_append del: of_nat_add)
qed simp

lemma pmmr_root_refines:
  assumes "pmmr_rep B m f" "fcount f < 2 ^ 60"
  shows "pmmr_root B m = Ok (bag_peaks B (forest_roots B f))"
proof -
  have "fsize f < 2 ^ 62" using fsize_le_count [of f] assms(2) by simp
  then have "try_map (\<lambda>p. ok_or (get_node m p) (Internal ''PMMR invariant violated: missing peak''))
      (forest_peaks f) = Ok (forest_roots B f)"
    using assms(1) by (intro get_peaks [where zs = "[]"]) (simp_all add: pmmr_rep_def)
  then show ?thesis
    unfolding pmmr_root_def peak_positions_refines [OF assms] by simp
qed

section \<open>The root commits to the payloads\<close>

definition tagged_input :: "bytes \<Rightarrow> bytes \<Rightarrow> bytes" where
  "tagged_input tag data = u16_to_le (of_nat (length tag)) @ tag @ data"

text \<open>The inputs that the hash function is applied to while a tree, or the bag, is hashed.\<close>

fun tree_inputs :: "'p backend \<Rightarrow> nat \<Rightarrow> mtree \<Rightarrow> bytes set" where
  "tree_inputs B off (MLeaf p) = {tagged_input TAG_PMMR_LEAF (u64_to_le (of_nat (Suc off)) @ p)}"
| "tree_inputs B off (MNode l r) =
    insert (tagged_input TAG_PMMR_NODE (u64_to_le (of_nat (Suc (off + tree_size l + tree_size r)))
        @ as_bytes (tree_root B off l) @ as_bytes (tree_root B (off + tree_size l) r)))
      (tree_inputs B off l \<union> tree_inputs B (off + tree_size l) r)"

fun forest_items :: "forest \<Rightarrow> (nat \<times> mtree) list" where
  "forest_items [] = []"
| "forest_items ((h, t) # f) = forest_items f @ [(fsize f, t)]"

fun bag_items :: "'p backend \<Rightarrow> (nat \<times> mtree) list \<Rightarrow> hash256" where
  "bag_items B [] = blake2b_256_tagged B TAG_PMMR_EMPTY []"
| "bag_items B [(off, t)] = tree_root B off t"
| "bag_items B ((off, t) # i # is) =
    blake2b_256_tagged B TAG_PMMR_BAG (as_bytes (tree_root B off t) @ as_bytes (bag_items B (i # is)))"

fun bag_inputs :: "'p backend \<Rightarrow> (nat \<times> mtree) list \<Rightarrow> bytes set" where
  "bag_inputs B [] = {tagged_input TAG_PMMR_EMPTY []}"
| "bag_inputs B [(off, t)] = tree_inputs B off t"
| "bag_inputs B ((off, t) # i # is) =
    insert (tagged_input TAG_PMMR_BAG (as_bytes (tree_root B off t) @ as_bytes (bag_items B (i # is))))
      (tree_inputs B off t \<union> bag_inputs B (i # is))"

definition pmmr_hash_inputs :: "'p backend \<Rightarrow> bytes list \<Rightarrow> bytes set" where
  "pmmr_hash_inputs B ps = bag_inputs B (forest_items (forest_of ps))"

lemma tagged_hash: "blake2b_256_tagged B tag data = Hash256 (blake2b B (tagged_input tag data))"
  by (simp add: blake2b_256_tagged_def tagged_input_def)

lemma tagged_input_eq:
  assumes "tagged_input tag data = tagged_input tag' data'" "length tag < 2 ^ 16" "length tag' < 2 ^ 16"
  shows "tag = tag' \<and> data = data'"
proof -
  have "u16_to_le (of_nat (length tag)) = u16_to_le (of_nat (length tag'))"
    using assms(1) by (simp add: tagged_input_def append_eq_append_conv)
  then have "(of_nat (length tag) :: u16) = of_nat (length tag')" by (metis word_le_round_trip(1))
  then have "unat (of_nat (length tag) :: u16) = unat (of_nat (length tag') :: u16)" by simp
  then have "length tag = length tag'" using assms(2,3) by (simp add: unat_of_nat)
  then show ?thesis using assms(1) by (simp add: tagged_input_def append_eq_append_conv)
qed

lemma pmmr_tags:
  "TAG_PMMR_LEAF \<noteq> TAG_PMMR_NODE" "TAG_PMMR_LEAF \<noteq> TAG_PMMR_BAG" "TAG_PMMR_LEAF \<noteq> TAG_PMMR_EMPTY"
  "TAG_PMMR_NODE \<noteq> TAG_PMMR_BAG" "TAG_PMMR_NODE \<noteq> TAG_PMMR_EMPTY" "TAG_PMMR_BAG \<noteq> TAG_PMMR_EMPTY"
  "length TAG_PMMR_LEAF < 65536" "length TAG_PMMR_NODE < 65536" "length TAG_PMMR_BAG < 65536"
  "length TAG_PMMR_EMPTY < 65536"
  by (simp_all add: TAG_PMMR_LEAF_def TAG_PMMR_NODE_def TAG_PMMR_BAG_def TAG_PMMR_EMPTY_def ascii_def)

lemma tagged_hash_eq:
  assumes "blake2b_256_tagged B tag d = blake2b_256_tagged B tag' d'" "inj_on (blake2b B) S"
    and "tagged_input tag d \<in> S" "tagged_input tag' d' \<in> S" "length tag < 65536" "length tag' < 65536"
  shows "tag = tag' \<and> d = d'"
proof -
  have "tagged_input tag d = tagged_input tag' d'"
    using assms(1) by (intro inj_onD [OF assms(2) _ assms(3,4)]) (simp add: tagged_hash)
  from tagged_input_eq [OF this] show ?thesis using assms(5,6) by simp
qed

text \<open>The tag and the data of the outermost hash of a tree and of a bag.\<close>

fun tree_top :: "'p backend \<Rightarrow> nat \<Rightarrow> mtree \<Rightarrow> bytes \<times> bytes" where
  "tree_top B off (MLeaf p) = (TAG_PMMR_LEAF, u64_to_le (of_nat (Suc off)) @ p)"
| "tree_top B off (MNode l r) =
    (TAG_PMMR_NODE, u64_to_le (of_nat (Suc (off + tree_size l + tree_size r)))
        @ as_bytes (tree_root B off l) @ as_bytes (tree_root B (off + tree_size l) r))"

fun bag_top :: "'p backend \<Rightarrow> (nat \<times> mtree) list \<Rightarrow> bytes \<times> bytes" where
  "bag_top B [] = (TAG_PMMR_EMPTY, [])"
| "bag_top B [(off, t)] = tree_top B off t"
| "bag_top B ((off, t) # i # is) =
    (TAG_PMMR_BAG, as_bytes (tree_root B off t) @ as_bytes (bag_items B (i # is)))"

lemma tree_root_top: "tree_root B off t = (case tree_top B off t of (tag, d) \<Rightarrow> blake2b_256_tagged B tag d)"
  by (cases t) (simp_all add: leaf_hash_def node_hash_def)

lemma tree_top_input: "(case tree_top B off t of (tag, d) \<Rightarrow> tagged_input tag d) \<in> tree_inputs B off t"
  by (cases t) simp_all

lemma tree_top_tag: "fst (tree_top B off t) \<in> {TAG_PMMR_LEAF, TAG_PMMR_NODE}"
  by (cases t) simp_all

lemma bag_items_top: "bag_items B xs = (case bag_top B xs of (tag, d) \<Rightarrow> blake2b_256_tagged B tag d)"
  by (cases "(B, xs)" rule: bag_top.cases) (simp_all add: tree_root_top)

lemma bag_top_input: "(case bag_top B xs of (tag, d) \<Rightarrow> tagged_input tag d) \<in> bag_inputs B xs"
  by (cases "(B, xs)" rule: bag_top.cases) (simp_all add: tree_top_input)

lemma bag_top_short: "length (fst (bag_top B xs)) < 65536"
proof (cases "(B, xs)" rule: bag_top.cases)
  case (2 B' off t)
  then show ?thesis using tree_top_tag [of B off t] pmmr_tags by auto
qed (simp_all add: pmmr_tags)

lemma length_bag_items:
  "(\<And>x. length (blake2b B x) = 32) \<Longrightarrow> length (as_bytes (bag_items B xs)) = 32"
  by (simp add: bag_items_top tagged_hash split: prod.splits)

lemma bag_top_binding:
  assumes "inj_on (blake2b B) S" "bag_inputs B xs \<subseteq> S" "bag_inputs B ys \<subseteq> S"
    and "bag_items B xs = bag_items B ys"
  shows "bag_top B xs = bag_top B ys"
proof -
  obtain tag d tag' d' where tops: "bag_top B xs = (tag, d)" "bag_top B ys = (tag', d')"
    by (cases "bag_top B xs"; cases "bag_top B ys")
  have "tag = tag' \<and> d = d'"
    using assms(4) bag_top_input [of B xs] bag_top_input [of B ys] assms(2,3)
      bag_top_short [of B xs] bag_top_short [of B ys] tops
    by (intro tagged_hash_eq [OF _ assms(1)]) (auto simp: bag_items_top)
  then show ?thesis using tops by simp
qed

lemma tree_root_binding:
  assumes len: "\<And>x. length (blake2b B x) = 32" and inj: "inj_on (blake2b B) S"
    and "tree_inputs B off t \<subseteq> S" "tree_inputs B off' t' \<subseteq> S"
    and "tree_root B off t = tree_root B off' t'"
  shows "t = t'"
  using assms(3-5)
proof (induction t arbitrary: off off' t')
  case (MLeaf p)
  then have "tree_top B off (MLeaf p) = tree_top B off' t'"
    using bag_top_binding [OF inj, of "[(off, MLeaf p)]" "[(off', t')]"] by simp
  then show ?case by (cases t') (simp_all add: pmmr_tags append_eq_append_conv)
next
  case (MNode l r)
  have tops: "tree_top B off (MNode l r) = tree_top B off' t'"
    using MNode.prems bag_top_binding [OF inj, of "[(off, MNode l r)]" "[(off', t')]"] by simp
  then obtain l' r' where t': "t' = MNode l' r'" by (cases t') (auto simp: pmmr_tags(1) [symmetric])
  have size: "length (as_bytes (tree_root B o' u)) = 32" for o' u
    using len length_bag_items [of B "[(o', u)]"] by simp
  have "as_bytes (tree_root B off l) = as_bytes (tree_root B off' l')
      \<and> as_bytes (tree_root B (off + tree_size l) r) = as_bytes (tree_root B (off' + tree_size l') r')"
    using tops by (simp add: t' size append_eq_append_conv)
  then show ?case
    using MNode.IH(1) [of off off' l'] MNode.IH(2) [of "off + tree_size l" "off' + tree_size l'" r']
      MNode.prems t' by (simp add: hash256.expand)
qed

lemma bag_items_binding:
  assumes len: "\<And>x. length (blake2b B x) = 32" and inj: "inj_on (blake2b B) S"
    and "bag_inputs B xs \<subseteq> S" "bag_inputs B ys \<subseteq> S" "bag_items B xs = bag_items B ys"
  shows "map snd xs = map snd ys"
  using assms(3-5)
proof (induction xs arbitrary: ys)
  case Nil
  then have "bag_top B [] = bag_top B ys" by (intro bag_top_binding [OF inj]) auto
  then have tag: "fst (bag_top B ys) = TAG_PMMR_EMPTY" by (metis bag_top.simps(1) fst_conv)
  show ?case
  proof (cases "(B, ys)" rule: bag_top.cases)
    case (2 B' off' t')
    then show ?thesis using tag tree_top_tag [of B off' t'] pmmr_tags by auto
  qed (use tag pmmr_tags in auto)
next
  case (Cons x xs)
  obtain off t where x: "x = (off, t)" by (cases x)
  have top: "bag_top B (x # xs) = bag_top B ys" using Cons.prems by (intro bag_top_binding [OF inj]) auto
  show ?case
  proof (cases xs)
    case Nil
    then have "tree_top B off t = bag_top B ys" using top x by simp
    moreover from this have "fst (bag_top B ys) \<in> {TAG_PMMR_LEAF, TAG_PMMR_NODE}"
      using tree_top_tag [of B off t] by simp
    then obtain off' t' where "ys = [(off', t')]"
      using pmmr_tags by (cases "(B, ys)" rule: bag_top.cases) auto
    ultimately show ?thesis
      using Cons.prems x Nil tree_root_binding [OF len inj, of off t off' t'] by simp
  next
    case (Cons i "is")
    then have tag: "fst (bag_top B ys) = TAG_PMMR_BAG" using top [symmetric] x by simp
    have "\<exists>off' t' j js. ys = (off', t') # j # js"
    proof (cases "(B, ys)" rule: bag_top.cases)
      case (2 B' off' t')
      then show ?thesis using tag tree_top_tag [of B off' t'] pmmr_tags by auto
    qed (use tag pmmr_tags in auto)
    then obtain off' t' j js where ys: "ys = (off', t') # j # js" by blast
    have "as_bytes (tree_root B off t) = as_bytes (tree_root B off' t')
        \<and> as_bytes (bag_items B xs) = as_bytes (bag_items B (j # js))"
      using top x ys Cons length_bag_items [OF len, of "[(off, t)]"] length_bag_items [OF len, of "[(off', t')]"]
      by (simp add: append_eq_append_conv)
    then show ?thesis
      using Cons.IH [of "j # js"] Cons.prems x ys \<open>xs = i # is\<close> tree_root_binding [OF len inj, of off t off' t']
      by (simp add: hash256.expand)
  qed
qed

lemma forest_nodes_add_tree:
  "valid_forest f \<Longrightarrow> perfect h t \<Longrightarrow>
    \<exists>zs. forest_nodes B (add_tree h t f) = forest_nodes B f @ tree_nodes B (fsize f) t @ zs"
proof (induction h t f rule: add_tree.induct)
  case (2 h t h' t' f)
  show ?case
  proof (cases "h = h'")
    case True
    then obtain zs where "forest_nodes B (add_tree (Suc h) (MNode t' t) f)
        = forest_nodes B f @ tree_nodes B (fsize f) (MNode t' t) @ zs"
      using "2.IH" "2.prems" by auto
    then show ?thesis using True "2.prems"(1) perfect_size [of h' t'] by simp
  qed simp
qed simp

lemma push_keeps_nodes:
  assumes "pmmr_rep B m f" "pmmr_rep B m' (add_tree 0 (MLeaf p) f)"
  shows "take (length (nodes m)) (nodes m') = nodes m"
proof -
  obtain zs where "forest_nodes B (add_tree 0 (MLeaf p) f)
      = forest_nodes B f @ tree_nodes B (fsize f) (MLeaf p) @ zs"
    using forest_nodes_add_tree [of f 0 "MLeaf p" B] assms(1) by (auto simp: pmmr_rep_def)
  with assms show ?thesis by (simp add: pmmr_rep_def)
qed

lemma bag_peaks_Cons:
  "bag_peaks B (x # y # zs) =
    blake2b_256_tagged B TAG_PMMR_BAG (as_bytes x @ as_bytes (bag_peaks B (y # zs)))"
  by (cases zs) (simp_all add: bag_peaks_def)

lemma bag_peaks_items:
  "bag_peaks B (map (\<lambda>(off, t). tree_root B off t) xs) = bag_items B xs"
  by (induction B xs rule: bag_items.induct) (simp_all add: bag_peaks_Cons, simp_all add: bag_peaks_def)

lemma forest_roots_items: "forest_roots B f = map (\<lambda>(off, t). tree_root B off t) (forest_items f)"
  by (induction f rule: forest_items.induct) simp_all

lemma forest_leaves_items: "forest_leaves f = concat (map tree_leaves (map snd (forest_items f)))"
  by (induction f rule: forest_items.induct) simp_all

definition pmmr_root_of :: "'p backend \<Rightarrow> bytes list \<Rightarrow> hash256 dom_result" where
  "pmmr_root_of B ps = and_then (pmmr_push_all B pmmr_new ps) (pmmr_root B)"

lemma pmmr_root_of_items:
  assumes "length ps < 2 ^ 60"
  shows "pmmr_root_of B ps = Ok (bag_items B (forest_items (forest_of ps)))"
proof -
  obtain m where m: "pmmr_push_all B pmmr_new ps = Ok m" "pmmr_rep B m (forest_of ps)"
    using pmmr_build [OF assms] by blast
  then show ?thesis
    using pmmr_root_refines [OF m(2)] assms
    by (simp add: pmmr_root_of_def forest_of_count forest_roots_items bag_peaks_items)
qed

section \<open>Properties\<close>

text \<open>
  C18. Appending refines the forest: as long as fewer than \<open>2 ^ 60\<close> leaves are stored, an
  append succeeds, returns the postorder position after the last stored node, and turns
  the array of the current forest into that of the incremented forest, overwriting no
  node; and the array keeps the number of nodes that \<^verbatim>\<open>node_count\<close> reports.
\<close>
theorem push_refines_forest:
  assumes "pmmr_rep B m f" "fcount f < 2 ^ 60"
  shows "\<exists>m'. pmmr_push B m p = Ok (of_nat (Suc (fsize f)), m')
    \<and> pmmr_rep B m' (add_tree 0 (MLeaf p) f)
    \<and> take (length (nodes m)) (nodes m') = nodes m
    \<and> node_count m = Ok (of_nat (fsize f)) \<and> length (nodes m) = Suc (fsize f)"
proof -
  obtain m' where m': "pmmr_push B m p = Ok (of_nat (Suc (fsize f)), m')"
      "pmmr_rep B m' (add_tree 0 (MLeaf p) f)"
    using pmmr_push_refines [OF assms] by blast
  from m' push_keeps_nodes [OF assms(1) m'(2)] node_count_refines [OF assms] pmmr_rep_fsize [OF assms(1)]
  show ?thesis by (simp add: node_count_def)
qed

theorem push_refines_forest_witness:
  "\<exists>m'. pmmr_push demo_backend pmmr_new [7] = Ok (of_nat (Suc (fsize [])), m')
    \<and> pmmr_rep demo_backend m' (add_tree 0 (MLeaf [7]) [])
    \<and> take (length (nodes pmmr_new)) (nodes m') = nodes pmmr_new
    \<and> node_count pmmr_new = Ok (of_nat (fsize [])) \<and> length (nodes pmmr_new) = Suc (fsize [])"
  by (rule push_refines_forest) (simp_all add: pmmr_rep_def pmmr_new_def)

text \<open>
  C19. The root of an accumulator built by appending a list of payloads is the right-to-left
  bag of the peaks of a forest of perfect trees with strictly increasing heights whose
  leaves, read left to right, are exactly those payloads.
\<close>
theorem root_refines_forest:
  assumes "length ps < 2 ^ 60"
  shows "pmmr_root_of B ps = Ok (bag_peaks B (forest_roots B (forest_of ps)))
    \<and> valid_forest (forest_of ps) \<and> forest_leaves (forest_of ps) = ps"
  using pmmr_root_of_items [OF assms, of B] pmmr_build [OF assms, of B]
  by (auto simp: forest_roots_items bag_peaks_items forest_of_leaves pmmr_rep_def)

theorem root_refines_forest_witness:
  "pmmr_root_of demo_backend [[1], [2], [3]]
      = Ok (bag_peaks demo_backend (forest_roots demo_backend (forest_of [[1], [2], [3]])))
    \<and> valid_forest (forest_of [[1], [2], [3]]) \<and> forest_leaves (forest_of [[1], [2], [3]]) = [[1], [2], [3]]"
  by (rule root_refines_forest) simp

text \<open>
  C17. The root is binding: if the hash function returns 32 bytes and has no collision among
  the inputs hashed while the two accumulators are evaluated, two different lists of
  payloads, of the same or of different lengths, have different roots.
\<close>
theorem root_binding:
  assumes "length ps < 2 ^ 60" "length qs < 2 ^ 60"
    and "\<And>x. length (blake2b B x) = 32"
    and "inj_on (blake2b B) (pmmr_hash_inputs B ps \<union> pmmr_hash_inputs B qs)"
    and "ps \<noteq> qs"
  shows "pmmr_root_of B ps \<noteq> pmmr_root_of B qs"
proof
  assume "pmmr_root_of B ps = pmmr_root_of B qs"
  then have "bag_items B (forest_items (forest_of ps)) = bag_items B (forest_items (forest_of qs))"
    using assms(1,2) by (simp add: pmmr_root_of_items)
  then have "map snd (forest_items (forest_of ps)) = map snd (forest_items (forest_of qs))"
    by (rule bag_items_binding [OF assms(3,4), rotated 2]) (auto simp: pmmr_hash_inputs_def)
  then have "forest_leaves (forest_of ps) = forest_leaves (forest_of qs)"
    by (simp only: forest_leaves_items)
  with assms(5) show False by (simp add: forest_of_leaves)
qed

lemma nat_to_le_numeral:
  "nat_to_le (numeral k) v = of_nat (v mod 256) # nat_to_le (pred_numeral k) (v div 256)"
  by (simp only: numeral_eq_Suc nat_to_le.simps(2))

lemma demo_inputs:
  "pmmr_hash_inputs demo_backend [[1]] = {tagged_input TAG_PMMR_LEAF (u64_to_le 1 @ [1])}"
  "\<exists>d. pmmr_hash_inputs demo_backend [[1], [2]] =
    {tagged_input TAG_PMMR_LEAF (u64_to_le 1 @ [1]), tagged_input TAG_PMMR_LEAF (u64_to_le 2 @ [2]),
     tagged_input TAG_PMMR_NODE (u64_to_le 3 @ d)}"
  by (auto simp: pmmr_hash_inputs_def forest_of_def insert_commute)

lemma demo_tags:
  "tagged_input TAG_PMMR_LEAF d = [16, 0, 68, 79, 77, 58, 112, 109, 109, 114, 45, 108, 101, 97, 102, 58, 118, 49] @ d"
  "tagged_input TAG_PMMR_NODE d = [16, 0, 68, 79, 77, 58, 112, 109, 109, 114, 45, 110, 111, 100, 101, 58, 118, 49] @ d"
  by (simp_all add: tagged_input_def TAG_PMMR_LEAF_def TAG_PMMR_NODE_def ascii_def u16_to_le_def nat_to_le_numeral)

lemma demo_hash_tag:
  "blake2b demo_backend (tagged_input TAG_PMMR_LEAF d) ! 11 = 108"
  "blake2b demo_backend (tagged_input TAG_PMMR_NODE d) ! 11 = 110"
  "blake2b demo_backend (tagged_input TAG_PMMR_LEAF (u64_to_le 1 @ d)) ! 18 = 1"
  "blake2b demo_backend (tagged_input TAG_PMMR_LEAF (u64_to_le 2 @ d)) ! 18 = 2"
  by (simp_all add: demo_tags demo_backend_def u64_to_le_def nat_to_le_numeral)

theorem root_binding_witness:
  "pmmr_root_of demo_backend [[1]] \<noteq> pmmr_root_of demo_backend [[1], [2]]"
proof (rule root_binding)
  let ?a = "tagged_input TAG_PMMR_LEAF (u64_to_le 1 @ [1])" and ?b = "tagged_input TAG_PMMR_LEAF (u64_to_le 2 @ [2])"
  obtain d where d: "pmmr_hash_inputs demo_backend [[1]] \<union> pmmr_hash_inputs demo_backend [[1], [2]]
      = {?a, ?b, tagged_input TAG_PMMR_NODE (u64_to_le 3 @ d)}"
    using demo_inputs by auto
  have "blake2b demo_backend ?a \<noteq> blake2b demo_backend ?b"
  proof
    assume eq: "blake2b demo_backend ?a = blake2b demo_backend ?b"
    show False using arg_cong [OF eq, of "\<lambda>l. l ! 18"] by (simp only: demo_hash_tag) simp
  qed
  moreover have "blake2b demo_backend (tagged_input TAG_PMMR_LEAF x)
      \<noteq> blake2b demo_backend (tagged_input TAG_PMMR_NODE y)" for x y
  proof
    assume eq: "blake2b demo_backend (tagged_input TAG_PMMR_LEAF x)
      = blake2b demo_backend (tagged_input TAG_PMMR_NODE y)"
    show False using arg_cong [OF eq, of "\<lambda>l. l ! 11"] by (simp only: demo_hash_tag(1,2)) simp
  qed
  ultimately show "inj_on (blake2b demo_backend)
      (pmmr_hash_inputs demo_backend [[1]] \<union> pmmr_hash_inputs demo_backend [[1], [2]])"
    unfolding d by (simp add: inj_on_def) metis
qed (simp_all add: demo_backend_def)

end
