(* ===== verification/Pow.thy ===== *)
theory Pow
  imports Crypto "HOL-Library.Signed_Division"
begin

text \<open>
  Difficulty adjustment and proof-of-work validation of \<^verbatim>\<open>dom-pow/src/lib.rs\<close>: compact
  targets, the network parameters with the mainnet rescue height, ASERT on 256-bit
  targets, the two compact canonicalisations, work per block, the RandomX seed schedule
  and the validation mode.  A 256-bit target is its 32 big-endian bytes; a value of type
  U256 or u128 is a natural number with the truncations of its operations written out, and
  an i128 is an integer with its bounds checked.  The lemmas show that the comparison loops
  are the numeric order, that ASERT computes the clamped real exponential step and is
  monotone in time, that canonicalisation never raises a target, and where it departs from
  what the code means to do.

  RandomX itself and the process environment are the fields of the record \<^verbatim>\<open>pow_env\<close>.
\<close>

section \<open>Constants and parameters\<close>

definition RANDOMX_SEED_INTERVAL :: u64 where [dom_consts]: "RANDOMX_SEED_INTERVAL = 2048"
definition RANDOMX_SEED_OFFSET :: u64 where [dom_consts]: "RANDOMX_SEED_OFFSET = 64"

definition ASERT_FRAC_TABLE :: "nat list" where
  "ASERT_FRAC_TABLE = [
     65536, 65713, 65891, 66070, 66249, 66429, 66609, 66789, 66971, 67152, 67334, 67517, 67700,
     67883, 68067, 68252, 68437, 68623, 68809, 68995, 69182, 69370, 69558, 69747, 69936, 70125,
     70315, 70506, 70697, 70889, 71081, 71274, 71467, 71661, 71855, 72050, 72245, 72441, 72638,
     72834, 73032, 73230, 73429, 73628, 73827, 74027, 74228, 74429, 74631, 74833, 75036, 75240,
     75444, 75648, 75853, 76059, 76265, 76472, 76679, 76887, 77096, 77305, 77514, 77725, 77935,
     78147, 78359, 78571, 78784, 78998, 79212, 79427, 79642, 79858, 80074, 80292, 80509, 80727,
     80946, 81166, 81386, 81607, 81828, 82050, 82272, 82495, 82719, 82943, 83168, 83394, 83620,
     83846, 84074, 84302, 84530, 84759, 84989, 85220, 85451, 85682, 85915, 86148, 86381, 86615,
     86850, 87086, 87322, 87559, 87796, 88034, 88273, 88512, 88752, 88993, 89234, 89476, 89718,
     89962, 90206, 90450, 90695, 90941, 91188, 91435, 91683, 91932, 92181, 92431, 92681, 92933,
     93185, 93437, 93691, 93945, 94199, 94455, 94711, 94968, 95225, 95483, 95742, 96002, 96262,
     96523, 96785, 97047, 97310, 97574, 97839, 98104, 98370, 98637, 98904, 99172, 99441, 99711,
     99981, 100252, 100524, 100797, 101070, 101344, 101619, 101894, 102170, 102447, 102725, 103004, 103283,
     103563, 103844, 104125, 104408, 104691, 104975, 105259, 105545, 105831, 106118, 106405, 106694, 106983,
     107273, 107564, 107856, 108148, 108441, 108735, 109030, 109326, 109622, 109919, 110217, 110516, 110816,
     111116, 111418, 111720, 112023, 112326, 112631, 112936, 113243, 113550, 113857, 114166, 114476, 114786,
     115097, 115409, 115722, 116036, 116351, 116666, 116982, 117300, 117618, 117936, 118256, 118577, 118898,
     119221, 119544, 119868, 120193, 120519, 120846, 121173, 121502, 121831, 122162, 122493, 122825, 123158,
     123492, 123827, 124162, 124499, 124837, 125175, 125514, 125855, 126196, 126538, 126881, 127225, 127570,
     127916, 128263, 128611, 128959, 129309, 129660, 130011, 130364, 130717]"

datatype compact_target = CompactTarget (compact_bits: u32)

definition MAX_COMPACT_TARGET :: u32 where [dom_consts]: "MAX_COMPACT_TARGET = 0x1e7fffff"
definition TESTNET_TARGET_COMPACT :: u32 where [dom_consts]: "TESTNET_TARGET_COMPACT = 0x1e2eff7f"
definition REGTEST_TARGET_COMPACT :: u32 where
  [dom_consts]: "REGTEST_TARGET_COMPACT = MAX_COMPACT_TARGET"
definition MAINNET_ASERT_RESCUE_HEIGHT :: u64 where [dom_consts]: "MAINNET_ASERT_RESCUE_HEIGHT = 4849"
definition MAINNET_ASERT_RESCUE_ANCHOR_HEIGHT :: u64 where
  [dom_consts]: "MAINNET_ASERT_RESCUE_ANCHOR_HEIGHT = MAINNET_ASERT_RESCUE_HEIGHT - 1"
definition MAINNET_ASERT_RESCUE_ANCHOR_TIMESTAMP :: u64 where
  [dom_consts]: "MAINNET_ASERT_RESCUE_ANCHOR_TIMESTAMP = 1784653190"
definition MAINNET_ASERT_RESCUE_MAX_COMPACT_TARGET :: u32 where
  [dom_consts]: "MAINNET_ASERT_RESCUE_MAX_COMPACT_TARGET = 0x1f00ffff"
definition MAINNET_ASERT_RESCUE_HALF_LIFE :: u64 where
  [dom_consts]: "MAINNET_ASERT_RESCUE_HALF_LIFE = TARGET_SPACING * 10"

record pow_params =
  target_spacing :: u64
  half_life :: u64
  genesis_target_compact :: u32
  max_compact_target :: u32

section \<open>Targets as byte strings\<close>

fun target_gt :: "bytes \<Rightarrow> bytes \<Rightarrow> bool" where
  "target_gt (a # as) (b # bs) = (if b < a then True else if a < b then False else target_gt as bs)"
| "target_gt _ _ = False"

fun target_lt :: "bytes \<Rightarrow> bytes \<Rightarrow> bool" where
  "target_lt (a # as) (b # bs) = (if a < b then True else if b < a then False else target_lt as bs)"
| "target_lt _ _ = False"

definition maximum_accepted_target :: bytes where
  "maximum_accepted_target = MAX_TARGET_BYTES[1 := 0xff]"

definition validate_target_bounds :: "bytes \<Rightarrow> unit dom_result" where
  "validate_target_bounds t =
    (if target_gt t maximum_accepted_target then Err (Invalid ''target > MAX_TARGET'')
     else if target_lt t MIN_TARGET_BYTES then Err (Invalid ''target < MIN_TARGET'')
     else Ok ())"

datatype compact_target_classification =
  CompactZero | CompactNegative | CompactExponentTooLarge | CompactCandidate

definition classify_compact_target :: "u32 \<Rightarrow> compact_target_classification" where
  "classify_compact_target bits =
    (if bits AND 0x007fffff = 0 then CompactZero
     else if bits AND 0x00800000 \<noteq> 0 then CompactNegative
     else if 32 < drop_bit 24 bits then CompactExponentTooLarge
     else CompactCandidate)"

definition write_target_byte :: "bytes \<Rightarrow> nat \<Rightarrow> u8 \<Rightarrow> bytes" where
  "write_target_byte t pos v = (if pos < 32 then t[31 - pos := v] else t)"

definition compact_to_target_unchecked :: "u32 \<Rightarrow> bytes" where
  "compact_to_target_unchecked bits =
    (let exponent = unat (drop_bit 24 bits);
         mantissa = bits AND 0x007fffff;
         t = replicate 32 0;
         t = (if 1 \<le> exponent
              then write_target_byte t (exponent - 1) (ucast (mantissa AND 0xff)) else t);
         t = (if 2 \<le> exponent
              then write_target_byte t (exponent - 2) (ucast (drop_bit 8 mantissa AND 0xff)) else t)
     in if 3 \<le> exponent
        then write_target_byte t (exponent - 3) (ucast (drop_bit 16 mantissa AND 0xff)) else t)"

definition to_target :: "compact_target \<Rightarrow> bytes dom_result" where
  "to_target c =
    (case classify_compact_target (compact_bits c) of
       CompactZero \<Rightarrow> Ok (replicate 32 0)
     | CompactNegative \<Rightarrow> Err (Invalid ''negative compact target'')
     | CompactExponentTooLarge \<Rightarrow> Err (Invalid ''compact exponent {exponent} > 32'')
     | CompactCandidate \<Rightarrow>
         (let target = compact_to_target_unchecked (compact_bits c) in
          and_then (validate_target_bounds target) (\<lambda>_. Ok target)))"

definition genesis_target :: "pow_params \<Rightarrow> bytes dom_result" where
  "genesis_target p = to_target (CompactTarget (genesis_target_compact p))"

definition max_target :: "pow_params \<Rightarrow> bytes dom_result" where
  "max_target p = to_target (CompactTarget (max_compact_target p))"

definition pow_params_for_network :: "u32 \<Rightarrow> pow_params dom_result" where
  "pow_params_for_network network_magic =
    (if network_magic = NETWORK_MAGIC_TESTNET then
       Ok \<lparr>target_spacing = TARGET_SPACING, half_life = ASERT_HALF_LIFE,
           genesis_target_compact = TESTNET_TARGET_COMPACT, max_compact_target = MAX_COMPACT_TARGET\<rparr>
     else if network_magic = NETWORK_MAGIC_REGTEST then
       Ok \<lparr>target_spacing = TARGET_SPACING, half_life = ASERT_HALF_LIFE,
           genesis_target_compact = REGTEST_TARGET_COMPACT, max_compact_target = REGTEST_TARGET_COMPACT\<rparr>
     else if network_magic = NETWORK_MAGIC_MAINNET then
       Ok \<lparr>target_spacing = TARGET_SPACING, half_life = ASERT_HALF_LIFE,
           genesis_target_compact = GENESIS_TARGET_COMPACT, max_compact_target = GENESIS_TARGET_COMPACT\<rparr>
     else Err (Invalid ''unknown network magic 0x{other:08x} for PoW parameters''))"

definition rescue_active :: "u32 \<Rightarrow> block_height \<Rightarrow> bool" where
  "rescue_active network_magic h =
    (network_magic = NETWORK_MAGIC_MAINNET \<and> MAINNET_ASERT_RESCUE_HEIGHT \<le> height_val h)"

definition pow_params_for_network_at_height :: "u32 \<Rightarrow> block_height \<Rightarrow> pow_params dom_result" where
  "pow_params_for_network_at_height network_magic h =
    and_then (pow_params_for_network network_magic) (\<lambda>params.
    Ok (if rescue_active network_magic h
        then params\<lparr>half_life := MAINNET_ASERT_RESCUE_HALF_LIFE,
                    max_compact_target := MAINNET_ASERT_RESCUE_MAX_COMPACT_TARGET\<rparr>
        else params))"

section \<open>Compact encoding\<close>

fun position :: "('a \<Rightarrow> bool) \<Rightarrow> 'a list \<Rightarrow> nat option" where
  "position P [] = None"
| "position P (x # xs) = (if P x then Some 0 else map_option Suc (position P xs))"

definition target_mantissa :: "bytes \<Rightarrow> nat \<Rightarrow> u32" where
  "target_mantissa t start =
    (let sz = 32 - start in
     if sz = 0 then 0
     else if sz = 1 then ucast (t ! start)
     else if sz = 2 then ucast (t ! start) OR push_bit 8 (ucast (t ! (start + 1)))
     else ucast (t ! start) OR push_bit 8 (ucast (t ! (start + 1)))
            OR push_bit 16 (ucast (t ! (start + 2))))"

fun strip_mantissa :: "nat \<Rightarrow> u32 \<Rightarrow> nat \<times> u32" where
  "strip_mantissa sz mantissa =
    (if 1 < sz \<and> mantissa AND 0xff = 0 then strip_mantissa (sz - 1) (drop_bit 8 mantissa)
     else (sz, mantissa))"

declare strip_mantissa.simps [simp del]

text \<open>One iteration of the encoder; the state is the best compact value and its expansion.\<close>

definition target_to_compact_step ::
  "bytes \<Rightarrow> nat \<Rightarrow> u32 option \<times> bytes \<Rightarrow> u32 option \<times> bytes" where
  "target_to_compact_step t start st =
    (let (best_compact, best_expanded) = st; mantissa = target_mantissa t start in
     if mantissa = 0 \<or> mantissa AND 0x00800000 \<noteq> 0 then st
     else
       let (sz, mantissa) = strip_mantissa (32 - start) mantissa;
           compact = push_bit 24 (of_nat sz) OR mantissa
       in case to_target (CompactTarget compact) of
            Ok expanded \<Rightarrow>
              if \<not> target_gt expanded t then
                let better =
                  (case best_compact of
                     None \<Rightarrow> True
                   | Some b \<Rightarrow> target_gt expanded best_expanded
                       \<or> expanded = best_expanded \<and> compact < b)
                in if better then (Some compact, expanded) else st
              else st
          | _ \<Rightarrow> st)"

definition target_to_compact_best :: "bytes \<Rightarrow> nat \<Rightarrow> u32 option" where
  "target_to_compact_best t first =
    fst (fold (target_to_compact_step t) [first ..< 32] (None, replicate 32 0))"

lemma min_target_best: "target_to_compact_best MIN_TARGET_BYTES 26 = Some 0x0600ffff"
  by code_simp

lemma min_target_position: "position (\<lambda>b. b \<noteq> 0) MIN_TARGET_BYTES = Some 26"
  by code_simp

text \<open>
  When no start position yields a value the encoder calls itself on the minimum target, for
  which one exists.
\<close>

function target_to_compact :: "bytes \<Rightarrow> u32" where
  "target_to_compact t =
    (case position (\<lambda>b. b \<noteq> 0) t of
       None \<Rightarrow> 0
     | Some first \<Rightarrow>
         (case target_to_compact_best t first of
            Some c \<Rightarrow> c
          | None \<Rightarrow> target_to_compact MIN_TARGET_BYTES))"
  by pat_completeness auto
termination
  by (relation "measure (\<lambda>t. if t = MIN_TARGET_BYTES then 0 else 1)")
    (auto simp: min_target_position min_target_best)

declare target_to_compact.simps [simp del]

definition canonicalize_compact_target :: "bytes \<Rightarrow> bytes dom_result" where
  "canonicalize_compact_target t = to_target (CompactTarget (target_to_compact t))"

definition target_to_rescue_compact_step ::
  "bytes \<Rightarrow> nat \<Rightarrow> (u32 \<times> bytes) option \<Rightarrow> (u32 \<times> bytes) option" where
  "target_to_rescue_compact_step t start best =
    (let sz = 32 - start; mantissa = target_mantissa t start AND 0x007fffff in
     if mantissa = 0 then best
     else
       let compact = push_bit 24 (of_nat sz) OR mantissa in
       case to_target (CompactTarget compact) of
         Ok expanded \<Rightarrow>
           if target_gt expanded t then best
           else if (case best of None \<Rightarrow> True | Some (_, current) \<Rightarrow> target_gt expanded current)
           then Some (compact, expanded) else best
       | _ \<Rightarrow> best)"

definition target_to_rescue_compact :: "bytes \<Rightarrow> u32" where
  "target_to_rescue_compact t =
    (case position (\<lambda>b. b \<noteq> 0) t of
       None \<Rightarrow> 0
     | Some first \<Rightarrow>
         (case fold (target_to_rescue_compact_step t) [0 ..< Suc first] None of
            Some (compact, _) \<Rightarrow> compact
          | None \<Rightarrow> target_to_compact MIN_TARGET_BYTES))"

definition canonicalize_rescue_compact_target :: "bytes \<Rightarrow> bytes dom_result" where
  "canonicalize_rescue_compact_target t = to_target (CompactTarget (target_to_rescue_compact t))"

section \<open>ASERT\<close>

definition i128_checked :: "int \<Rightarrow> int option" where
  "i128_checked x = (if - (2 ^ 127) \<le> x \<and> x < 2 ^ 127 then Some x else None)"

definition floor_div_i128 :: "int \<Rightarrow> int \<Rightarrow> int dom_result" where
  "floor_div_i128 a b =
    (if b = 0 then Err (Invalid ''floor_div by zero'')
     else
       and_then (ok_or (i128_checked (a sdiv b)) (Invalid ''floor_div overflow'')) (\<lambda>d.
       let r = a smod b in
       if r \<noteq> 0 \<and> (a < 0) \<noteq> (b < 0) then
         ok_or (i128_checked (d - 1)) (Invalid ''floor_div adj overflow'')
       else Ok d))"

record asert_anchor =
  anchor_timestamp :: timestamp
  anchor_height :: block_height
  anchor_target :: bytes

datatype asert_exponent_classification =
  HeightBeforeAnchor | IdealTimeOverflow | ExponentOverflow | ExponentValid int

definition classify_asert_exponent_seconds ::
  "u64 \<Rightarrow> u64 \<Rightarrow> u64 \<Rightarrow> u64 \<Rightarrow> u64 \<Rightarrow> asert_exponent_classification" where
  "classify_asert_exponent_seconds anchor_ts block_ts anchor_h block_h spacing =
    (case checked_sub block_h anchor_h of
       None \<Rightarrow> HeightBeforeAnchor
     | Some height_diff \<Rightarrow>
         (let time_diff = uint block_ts - uint anchor_ts in
          case i128_checked (uint height_diff * uint spacing) of
            None \<Rightarrow> IdealTimeOverflow
          | Some ideal_time \<Rightarrow>
              (case i128_checked (time_diff - ideal_time) of
                 Some value \<Rightarrow> ExponentValid value
               | None \<Rightarrow> ExponentOverflow)))"

text \<open>U256 operations: multiplication and addition panic on overflow, left shifts truncate.\<close>

definition u256_mul :: "nat \<Rightarrow> nat \<Rightarrow> nat dom_result" where
  "u256_mul a b = (if a * b < 2 ^ 256 then Ok (a * b) else Panic ''arithmetic operation overflow'')"

definition u256_add :: "nat \<Rightarrow> nat \<Rightarrow> nat dom_result" where
  "u256_add a b = (if a + b < 2 ^ 256 then Ok (a + b) else Panic ''arithmetic operation overflow'')"

definition u256_shl :: "nat \<Rightarrow> nat \<Rightarrow> nat" where
  "u256_shl a k = (a * 2 ^ k) mod 2 ^ 256"

definition u256_shr :: "nat \<Rightarrow> nat \<Rightarrow> nat" where
  "u256_shr a k = a div 2 ^ k"

definition low_u128 :: "nat \<Rightarrow> nat" where
  "low_u128 a = a mod 2 ^ 128"

definition U128_MAX :: nat where "U128_MAX = 2 ^ 128 - 1"
definition U256_MAX :: nat where "U256_MAX = 2 ^ 256 - 1"

definition mul_256_div_radix_checked :: "nat \<Rightarrow> nat \<Rightarrow> nat \<Rightarrow> nat \<Rightarrow> (nat \<times> nat) dom_result" where
  "mul_256_div_radix_checked hi lo multiplier radix =
    and_then (u256_mul lo multiplier) (\<lambda>lo_prod.
    and_then (u256_mul hi multiplier) (\<lambda>hi_prod.
    let lo_shifted = u256_shr lo_prod 16;
        hi_carry_into_lo = u256_shl (hi_prod AND 0xffff) 112 in
    and_then (u256_add lo_shifted hi_carry_into_lo) (\<lambda>new_lo_256.
    let lo_to_hi_carry = u256_shr new_lo_256 128 in
    and_then (u256_add (u256_shr hi_prod 16) lo_to_hi_carry) (\<lambda>new_hi_256.
    Ok (low_u128 new_hi_256, low_u128 new_lo_256)))))"

definition shift_left_256 :: "nat \<Rightarrow> nat \<Rightarrow> nat \<Rightarrow> nat \<times> nat" where
  "shift_left_256 hi lo shift =
    (if shift = 0 then (hi, lo)
     else if 256 \<le> shift then (U128_MAX, U128_MAX)
     else
       let val = u256_shl hi 128 OR lo in
       if u256_shr U256_MAX shift < val then (U128_MAX, U128_MAX)
       else let shifted = u256_shl val shift in (low_u128 (u256_shr shifted 128), low_u128 shifted))"

definition shift_right_256 :: "nat \<Rightarrow> nat \<Rightarrow> nat \<Rightarrow> nat \<times> nat" where
  "shift_right_256 hi lo shift =
    (if shift = 0 then (hi, lo)
     else if 256 \<le> shift then (0, 0)
     else
       let val = u256_shl hi 128 OR lo; shifted = u256_shr val shift
       in (low_u128 (u256_shr shifted 128), low_u128 shifted))"

definition apply_exponent :: "bytes \<Rightarrow> int \<Rightarrow> nat \<Rightarrow> bytes \<Rightarrow> bytes dom_result" where
  "apply_exponent anchor integer_part frac_multiplier max_t =
    (let hi = be_to_nat (take 16 anchor); lo = be_to_nat (take 16 (drop 16 anchor));
         radix = unat ASERT_RADIX in
     and_then (mul_256_div_radix_checked hi lo frac_multiplier radix) (\<lambda>(new_hi, new_lo).
     let (shifted_hi, shifted_lo) =
           (if 0 \<le> integer_part then shift_left_256 new_hi new_lo (nat (min integer_part 255))
            else shift_right_256 new_hi new_lo (nat (min (- integer_part) 255)));
         result = nat_to_be 16 shifted_hi @ nat_to_be 16 shifted_lo
     in if target_gt result max_t then Ok max_t
        else if result = replicate 32 0 \<or> target_lt result MIN_TARGET_BYTES then Ok MIN_TARGET_BYTES
        else Ok result))"

definition asert_next_target_with_params ::
  "asert_anchor \<Rightarrow> timestamp \<Rightarrow> block_height \<Rightarrow> pow_params \<Rightarrow> bytes dom_result" where
  "asert_next_target_with_params anchor block_timestamp block_h params =
    and_then
      (case classify_asert_exponent_seconds (secs (anchor_timestamp anchor)) (secs block_timestamp)
              (height_val (anchor_height anchor)) (height_val block_h) (target_spacing params) of
         HeightBeforeAnchor \<Rightarrow> Err (Invalid ''height before anchor'')
       | IdealTimeOverflow \<Rightarrow> Err (Invalid ''ideal_time overflow'')
       | ExponentOverflow \<Rightarrow> Err (Invalid ''exponent overflow'')
       | ExponentValid x \<Rightarrow> Ok x) (\<lambda>exponent_seconds.
    and_then (ok_or (i128_checked (exponent_seconds * 256)) (Invalid ''exponent_fp overflow'')) (\<lambda>num.
    and_then (floor_div_i128 num (uint (half_life params))) (\<lambda>exponent_fp.
    and_then (floor_div_i128 exponent_fp 256) (\<lambda>integer_part.
    and_then (ok_or (i128_checked (integer_part * 256)) (Invalid ''frac overflow'')) (\<lambda>scaled.
    and_then (ok_or (i128_checked (exponent_fp - scaled)) (Invalid ''frac underflow'')) (\<lambda>f.
    let frac_index = min (nat f) 255; frac_multiplier = ASERT_FRAC_TABLE ! frac_index in
    and_then (max_target params) (\<lambda>max_t.
    apply_exponent (anchor_target anchor) integer_part frac_multiplier max_t)))))))"

definition asert_next_target :: "asert_anchor \<Rightarrow> timestamp \<Rightarrow> block_height \<Rightarrow> bytes dom_result" where
  "asert_next_target anchor block_timestamp block_h =
    asert_next_target_with_params anchor block_timestamp block_h
      \<lparr>target_spacing = TARGET_SPACING, half_life = ASERT_HALF_LIFE,
       genesis_target_compact = GENESIS_TARGET_COMPACT, max_compact_target = MAX_COMPACT_TARGET\<rparr>"

definition genesis_anchor :: "u32 \<Rightarrow> asert_anchor dom_result" where
  "genesis_anchor network_magic =
    and_then (pow_params_for_network network_magic) (\<lambda>params.
    and_then (genesis_timestamp_for_network_magic network_magic) (\<lambda>ts.
    and_then (genesis_target params) (\<lambda>t.
    Ok \<lparr>anchor_timestamp = Timestamp ts, anchor_height = BlockHeight 0, anchor_target = t\<rparr>)))"

definition asert_anchor_for_network_height :: "u32 \<Rightarrow> block_height \<Rightarrow> asert_anchor dom_result" where
  "asert_anchor_for_network_height network_magic h =
    (if rescue_active network_magic h then
       and_then (to_target (CompactTarget GENESIS_TARGET_COMPACT)) (\<lambda>t.
       Ok \<lparr>anchor_timestamp = Timestamp MAINNET_ASERT_RESCUE_ANCHOR_TIMESTAMP,
           anchor_height = BlockHeight MAINNET_ASERT_RESCUE_ANCHOR_HEIGHT, anchor_target = t\<rparr>)
     else genesis_anchor network_magic)"

definition uses_dev_fixed_target :: "u32 \<Rightarrow> bool" where
  "uses_dev_fixed_target network_magic = (network_magic = NETWORK_MAGIC_REGTEST)"

definition compute_expected_target :: "u32 \<Rightarrow> timestamp \<Rightarrow> block_height \<Rightarrow> bytes dom_result" where
  "compute_expected_target network_magic block_timestamp block_h =
    and_then (pow_params_for_network_at_height network_magic block_h) (\<lambda>params.
    if uses_dev_fixed_target network_magic then max_target params
    else
      and_then (asert_anchor_for_network_height network_magic block_h) (\<lambda>anchor.
      and_then
        (if block_h = BlockHeight 0 then genesis_target params
         else asert_next_target_with_params anchor block_timestamp block_h params) (\<lambda>raw_target.
      if rescue_active network_magic block_h then canonicalize_rescue_compact_target raw_target
      else canonicalize_compact_target raw_target)))"

section \<open>Validation\<close>

record pow_env =
  rx_hash :: "bytes \<Rightarrow> bytes \<Rightarrow> bytes dom_result"
  fast_regtest_mining_requested :: bool

datatype pow_validation_mode = RandomX | FastDevOnly

datatype pow_mode_classification = ModeFastDevOnly | ModeRandomX | RejectFastPublic | RejectUnknown

definition classify_pow_validation_mode :: "u32 \<Rightarrow> bool \<Rightarrow> bool \<Rightarrow> pow_mode_classification" where
  "classify_pow_validation_mode network_magic test_mode fast_requested =
    (let known = network_magic = NETWORK_MAGIC_MAINNET \<or> network_magic = NETWORK_MAGIC_TESTNET
           \<or> network_magic = NETWORK_MAGIC_REGTEST in
     if \<not> known then RejectUnknown
     else if test_mode \<or> network_magic = NETWORK_MAGIC_REGTEST then ModeFastDevOnly
     else if fast_requested then RejectFastPublic
     else ModeRandomX)"

definition pow_validation_mode_for_network_inner ::
  "u32 \<Rightarrow> bool \<Rightarrow> bool \<Rightarrow> pow_validation_mode dom_result" where
  "pow_validation_mode_for_network_inner network_magic test_mode fast_requested =
    (case classify_pow_validation_mode network_magic test_mode fast_requested of
       ModeFastDevOnly \<Rightarrow> Ok FastDevOnly
     | ModeRandomX \<Rightarrow> Ok RandomX
     | RejectFastPublic \<Rightarrow>
         Err (Invalid ''DOM_REGTEST_FAST_MINING=1 is only allowed on regtest/devtest/test mode'')
     | RejectUnknown \<Rightarrow>
         Err (Invalid ''unknown network magic 0x{network_magic:08x} for PoW validation''))"

definition pow_validation_mode_for_network :: "pow_env \<Rightarrow> u32 \<Rightarrow> pow_validation_mode dom_result" where
  "pow_validation_mode_for_network E network_magic =
    pow_validation_mode_for_network_inner network_magic False (fast_regtest_mining_requested E)"

definition FAST_POW_PREFIX :: bytes where
  "FAST_POW_PREFIX = ascii ''DOM_FAST_POW_V1''"

definition fast_pow_hash :: "'p backend \<Rightarrow> bytes \<Rightarrow> bytes \<Rightarrow> bytes" where
  "fast_pow_hash B seed preimage =
    (let out = blake2b B (FAST_POW_PREFIX @ seed @ preimage) in replicate 16 0 @ drop 16 out)"

definition hash_meets_target :: "bytes \<Rightarrow> bytes \<Rightarrow> bool" where
  "hash_meets_target h target = (\<not> target_gt h target)"

definition randomx_seed_height :: "u64 \<Rightarrow> u64" where
  "randomx_seed_height height =
    (let epoch = height div RANDOMX_SEED_INTERVAL in
     if epoch = 0 then 0
     else let anchor = epoch * RANDOMX_SEED_INTERVAL in saturating_sub anchor RANDOMX_SEED_OFFSET)"

definition validate_pow_randomx :: "pow_env \<Rightarrow> bytes \<Rightarrow> bytes \<Rightarrow> bytes \<Rightarrow> bytes \<Rightarrow> bool dom_result" where
  "validate_pow_randomx E preimage claimed seed target =
    and_then (rx_hash E seed preimage) (\<lambda>computed.
    if computed \<noteq> claimed then Ok False else Ok (hash_meets_target claimed target))"

definition pow_check_for_network ::
  "'p backend \<Rightarrow> pow_env \<Rightarrow> u32 \<Rightarrow> bytes \<Rightarrow> bytes \<Rightarrow> bytes \<Rightarrow> bytes \<Rightarrow> bool dom_result" where
  "pow_check_for_network B E network_magic preimage pow_hash seed target =
    and_then (pow_validation_mode_for_network E network_magic) (\<lambda>mode.
    case mode of
      RandomX \<Rightarrow> validate_pow_randomx E preimage pow_hash seed target
    | FastDevOnly \<Rightarrow>
        (let computed = fast_pow_hash B seed preimage in
         if computed \<noteq> pow_hash then Ok False else Ok (hash_meets_target pow_hash target)))"

section \<open>Work\<close>

definition target_to_difficulty_u256 :: "bytes \<Rightarrow> nat \<times> nat" where
  "target_to_difficulty_u256 target =
    (let t = be_to_nat target in
     if t = 0 then (U128_MAX, U128_MAX)
     else let diff = be_to_nat MAX_TARGET_BYTES div t in (low_u128 (u256_shr diff 128), low_u128 diff))"

definition target_to_difficulty :: "bytes \<Rightarrow> nat" where
  "target_to_difficulty target =
    (let (hi, lo) = target_to_difficulty_u256 target in if 0 < hi then hi else max lo 1)"

definition target_to_difficulty_for_network_height ::
  "u32 \<Rightarrow> block_height \<Rightarrow> bytes \<Rightarrow> nat dom_result" where
  "target_to_difficulty_for_network_height network_magic h target =
    and_then
      (if rescue_active network_magic h
       then to_target (CompactTarget MAINNET_ASERT_RESCUE_MAX_COMPACT_TARGET)
       else Ok MAX_TARGET_BYTES) (\<lambda>numerator.
    let target_value = be_to_nat target in
    if target_value = 0 then Ok U128_MAX
    else
      let quotient = be_to_nat numerator div target_value in
      Ok (if u256_shr quotient 128 = 0 then max (low_u128 quotient) 1
          else low_u128 (u256_shr quotient 128)))"

section \<open>Wire form of compact targets\<close>

definition serialize_compact_target :: "compact_target \<Rightarrow> writer \<Rightarrow> writer dom_result" where
  "serialize_compact_target c w = Ok (write_u32 w (compact_bits c))"

definition deserialize_compact_target :: "reader \<Rightarrow> compact_target parse" where
  "deserialize_compact_target r = and_then (read_u32 r) (\<lambda>(v, r). Ok (CompactTarget v, r))"

interpretation compact_target: codec serialize_compact_target deserialize_compact_target
  "\<lambda>c. u32_to_le (compact_bits c)" "\<lambda>_. True" 4
proof
  show "deserialize_compact_target r = Ok (a, r') \<longleftrightarrow> True \<and> reads r (u32_to_le (compact_bits a)) r'" for r a r'
    by (cases a) (auto simp: deserialize_compact_target_def reader_simps)
qed (auto simp: serialize_compact_target_def writer_simps deserialize_compact_target_def and_then_eq_Panic)

section \<open>Comparison is the numeric order\<close>

lemma target_gt_iff: "length a = length b \<Longrightarrow> target_gt a b \<longleftrightarrow> be_to_nat b < be_to_nat a"
proof (induction a b rule: target_gt.induct)
  case (1 a as b bs)
  have bounds: "be_to_nat as < 256 ^ length as" "be_to_nat bs < 256 ^ length as"
    using be_to_nat_less [of as] be_to_nat_less [of bs] 1 by simp_all
  have step: "unat x < unat y \<Longrightarrow> p < 256 ^ length as \<Longrightarrow>
      unat x * 256 ^ length as + p < unat y * 256 ^ length as + q" for x y :: u8 and p q :: nat
  proof -
    assume "unat x < unat y" "p < 256 ^ length as"
    then have "Suc (unat x) * 256 ^ length as \<le> unat y * 256 ^ length as" by (intro mult_right_mono) simp_all
    then show ?thesis using \<open>p < _\<close> by simp
  qed
  show ?case
  proof (cases "unat a" "unat b" rule: linorder_cases)
    case equal
    then have "a = b" by (simp add: word_unat_eq_iff)
    then show ?thesis using 1 by (simp add: be_to_nat_Cons)
  next
    case less
    then show ?thesis using step [OF less bounds(1), of "be_to_nat bs"] 1
      by (simp add: be_to_nat_Cons word_less_nat_alt)
  next
    case greater
    then show ?thesis using step [OF greater bounds(2), of "be_to_nat as"] 1
      by (simp add: be_to_nat_Cons word_less_nat_alt)
  qed
qed auto

lemma target_lt_gt: "length a = length b \<Longrightarrow> target_lt a b = target_gt b a"
  by (induction a b rule: target_gt.induct) auto

lemma target_lt_iff: "length a = length b \<Longrightarrow> target_lt a b \<longleftrightarrow> be_to_nat a < be_to_nat b"
  by (simp add: target_lt_gt target_gt_iff)

section \<open>Arithmetic of the ASERT step\<close>

lemma floor_div_i128_pos:
  assumes "0 < b" "- (2 ^ 127) \<le> a" "a < 2 ^ 127"
  shows "floor_div_i128 a b = Ok (a div b)"
proof (cases "0 \<le> a")
  case True
  have "a sdiv b = a div b" "a smod b = a mod b"
    using True assms(1) by (simp_all add: signed_divide_int_def signed_modulo_int_def
        abs_of_nonneg sgn_if minus_mult_div_eq_mod)
  moreover have "a div b \<le> a" using True assms(1) by (simp add: div_by_1 zdiv_mono2 [of a 1 b, simplified])
  moreover have "0 \<le> a div b" using True assms(1) by (simp add: pos_imp_zdiv_nonneg_iff)
  ultimately show ?thesis using True assms by (simp add: floor_div_i128_def i128_checked_def)
next
  case False
  define q where "q = (- a) div b"
  have q: "0 \<le> q" "q \<le> - a"
    using False assms(1) by (simp_all add: q_def pos_imp_zdiv_nonneg_iff zdiv_mono2 [of "- a" 1 b, simplified])
  have sdiv: "a sdiv b = - q"
    using False assms(1) by (simp add: signed_divide_int_def q_def sgn_if)
  have "a smod b = - ((- a) mod b)"
    using False assms(1) sdiv by (simp add: signed_modulo_int_def q_def)
  moreover have "a div b = (if (- a) mod b = 0 then - q else - q - 1)"
    using zdiv_zminus1_eq_if [of b "- a"] assms(1) by (simp add: q_def)
  moreover have "- (2 ^ 127) \<le> - q - 1" if "(- a) mod b \<noteq> 0"
  proof -
    have "q \<noteq> - a"
    proof
      assume "q = - a"
      then have "b = 1" using False assms(1) q_def
        by (metis add.inverse_inverse div_by_1 int_div_less_self linorder_not_le neg_0_less_iff_less nle_le not_less order_less_irrefl zless_imp_add1_zle add_0 le_less)
      then show False using that by simp
    qed
    then show ?thesis using q assms(2) by linarith
  qed
  ultimately show ?thesis using False assms q sdiv by (auto simp: floor_div_i128_def i128_checked_def)
qed

lemma mult_pow_or: "b < 2 ^ k \<Longrightarrow> (a * 2 ^ k) OR b = a * 2 ^ k + (b :: nat)"
proof (induction k arbitrary: b)
  case (Suc k)
  have "(a * 2 ^ Suc k) OR b = of_bool (odd b) + 2 * (a * 2 ^ k OR b div 2)"
    by (subst or_nat_rec) simp
  also have "a * 2 ^ k OR b div 2 = a * 2 ^ k + b div 2" using Suc by (intro Suc.IH) auto
  also have "of_bool (odd b) + 2 * (a * 2 ^ k + b div 2) = a * 2 ^ Suc k + b"
    by (cases "odd b") (auto elim!: oddE evenE)
  finally show ?case .
qed simp

lemma and_ffff: "(x :: nat) AND 0xffff = x mod 65536"
  using take_bit_eq_mask [of 16 x] by (simp add: take_bit_eq_mod mask_eq_exp_minus_1)

abbreviation limbs :: "nat \<Rightarrow> nat \<Rightarrow> nat" where
  "limbs hi lo \<equiv> hi * 2 ^ 128 + lo"

lemma low_u128_limbs:
  "lo < 2 ^ 128 \<Longrightarrow> low_u128 (limbs hi lo) = lo" "lo < 2 ^ 128 \<Longrightarrow> limbs hi lo div 2 ^ 128 = hi"
  by (simp_all add: low_u128_def)

lemma low_u128_less: "low_u128 x < 2 ^ 128"
  by (simp add: low_u128_def)

declare low_u128_less [simplified, simp]

lemma limbs_or:
  assumes "hi < 2 ^ 128" "lo < 2 ^ 128"
  shows "limbs hi lo < 2 ^ 256" "u256_shl hi 128 OR lo = limbs hi lo"
proof -
  have "limbs hi lo \<le> (2 ^ 128 - 1) * 2 ^ 128 + (2 ^ 128 - 1)"
    using assms by (intro add_mono mult_right_mono) simp_all
  then show v: "limbs hi lo < 2 ^ 256" by simp
  show "u256_shl hi 128 OR lo = limbs hi lo"
    using assms mult_pow_or [of lo 128 hi] v by (simp add: u256_shl_def)
qed

lemma limbs_split: "x < 2 ^ 256 \<Longrightarrow> limbs (low_u128 (x div 2 ^ 128)) (low_u128 x) = x"
proof -
  assume "x < 2 ^ 256"
  then have "x div 2 ^ 128 < 2 ^ 128" by (intro less_mult_imp_div_less) simp
  then show ?thesis by (simp only: low_u128_def mod_less div_mult_mod_eq)
qed

lemma mul_256_exact:
  assumes "hi < 2 ^ 128" "lo < 2 ^ 128" "m < 2 ^ 17" "limbs hi lo * m div 2 ^ 16 < 2 ^ 256"
  shows "\<exists>h l. mul_256_div_radix_checked hi lo m r = Ok (h, l) \<and> h < 2 ^ 128 \<and> l < 2 ^ 128
    \<and> limbs h l = limbs hi lo * m div 2 ^ 16"
proof -
  define q where "q = hi * m div 2 ^ 16"
  define s where "s = hi * m mod 2 ^ 16"
  define w where "w = lo * m div 2 ^ 16 + s * 2 ^ 112"
  have lom: "lo * m < 2 ^ 145" using mult_strict_mono [OF assms(2,3)] by simp
  have him: "hi * m < 2 ^ 145" using mult_strict_mono [OF assms(1,3)] by simp
  have s: "s < 2 ^ 16" by (simp add: s_def)
  have "lo * m div 2 ^ 16 < 2 ^ 129" using lom by (intro less_mult_imp_div_less) simp
  then have w: "w < 2 ^ 130" using s by (simp add: w_def)
  have q: "q < 2 ^ 129" using him unfolding q_def by (intro less_mult_imp_div_less) simp
  have total: "limbs hi lo * m div 2 ^ 16 = q * 2 ^ 128 + w"
  proof -
    have "limbs hi lo * m = lo * m + (hi * m) * 2 ^ 112 * 2 ^ 16" by (simp add: algebra_simps)
    then have "limbs hi lo * m div 2 ^ 16 = lo * m div 2 ^ 16 + (hi * m) * 2 ^ 112"
      by simp
    also have "hi * m = q * 2 ^ 16 + s" by (simp add: q_def s_def)
    finally show ?thesis by (simp add: w_def algebra_simps)
  qed
  have carry: "u256_shl s 112 = s * 2 ^ 112" using s by (simp add: u256_shl_def)
  have nh: "q + w div 2 ^ 128 < 2 ^ 128"
  proof (rule ccontr)
    assume "\<not> ?thesis"
    then have "2 ^ 128 * 2 ^ 128 \<le> (q + w div 2 ^ 128) * 2 ^ 128" by simp
    also have "\<dots> \<le> q * 2 ^ 128 + w" using div_mult_mod_eq [of w "2 ^ 128"] by (simp add: algebra_simps)
    finally show False using assms(4) total by simp
  qed
  have "mul_256_div_radix_checked hi lo m r = Ok (low_u128 (q + w div 2 ^ 128), low_u128 w)"
  proof -
    have "u256_mul lo m = Ok (lo * m)" "u256_mul hi m = Ok (hi * m)"
      using lom him by (simp_all add: u256_mul_def)
    moreover have "u256_add (lo * m div 2 ^ 16) (s * 2 ^ 112) = Ok w"
      using w by (simp add: u256_add_def w_def)
    moreover have "u256_add q (w div 2 ^ 128) = Ok (q + w div 2 ^ 128)"
      using nh by (simp add: u256_add_def)
    ultimately show ?thesis
      using carry by (simp add: mul_256_div_radix_checked_def and_ffff u256_shr_def q_def s_def)
  qed
  moreover have "limbs (low_u128 (q + w div 2 ^ 128)) (low_u128 w) = q * 2 ^ 128 + w"
    using nh div_mult_mod_eq [of w "2 ^ 128"] by (simp add: low_u128_def algebra_simps)
  ultimately show ?thesis using total by simp
qed

lemma shift_left_exact:
  assumes "hi < 2 ^ 128" "lo < 2 ^ 128" "shift < 256"
  shows "\<exists>h l. shift_left_256 hi lo shift = (h, l) \<and> h < 2 ^ 128 \<and> l < 2 ^ 128
    \<and> limbs h l = min (limbs hi lo * 2 ^ shift) (2 ^ 256 - 1)"
proof -
  note v = limbs_or(1) [OF assms(1,2)] and or = limbs_or(2) [OF assms(1,2)]
  have gt: "u256_shr U256_MAX shift < limbs hi lo \<longleftrightarrow> 2 ^ 256 \<le> limbs hi lo * 2 ^ shift"
    unfolding u256_shr_def U256_MAX_def
    by (subst div_less_iff_less_mult) (simp_all add: Suc_le_eq [symmetric] le_diff_conv)
  consider "shift = 0" | "shift \<noteq> 0" "2 ^ 256 \<le> limbs hi lo * 2 ^ shift"
    | "shift \<noteq> 0" "limbs hi lo * 2 ^ shift < 2 ^ 256" by linarith
  then show ?thesis
  proof cases
    case 1
    then show ?thesis using assms v by (simp add: shift_left_256_def min_def)
  next
    case 2
    have "limbs U128_MAX U128_MAX = 2 ^ 256 - 1" "U128_MAX < 2 ^ 128" by (simp_all add: U128_MAX_def)
    then show ?thesis using 2 assms(3) gt or by (simp add: shift_left_256_def Let_def min_def)
  next
    case 3
    then show ?thesis using assms(3) gt or limbs_split [OF 3(2)]
      by (simp add: shift_left_256_def Let_def u256_shl_def u256_shr_def min_def)
  qed
qed

lemma shift_right_exact:
  assumes "hi < 2 ^ 128" "lo < 2 ^ 128" "shift < 256"
  shows "\<exists>h l. shift_right_256 hi lo shift = (h, l) \<and> h < 2 ^ 128 \<and> l < 2 ^ 128
    \<and> limbs h l = limbs hi lo div 2 ^ shift"
proof -
  note v = limbs_or(1) [OF assms(1,2)] and or = limbs_or(2) [OF assms(1,2)]
  have "limbs hi lo div 2 ^ shift < 2 ^ 256" using v by (meson div_le_dividend le_less_trans)
  from limbs_split [OF this] show ?thesis
    using assms or by (cases "shift = 0") (simp_all add: shift_right_256_def Let_def u256_shr_def)
qed

section \<open>ASERT as clamped exponential scaling\<close>

definition scale_pow2 :: "nat \<Rightarrow> int \<Rightarrow> nat" where
  "scale_pow2 v k = (if 0 \<le> k then v * 2 ^ nat k else v div 2 ^ nat (- k))"

definition clamp_target :: "nat \<Rightarrow> nat \<Rightarrow> nat" where
  "clamp_target mx v = max (be_to_nat MIN_TARGET_BYTES) (min mx v)"

text \<open>
  The target after \<^term>\<open>e\<close> steps of a 256th of a half-life: \<^term>\<open>T\<close> times the table entry of the
  fractional part over 65536, scaled by the power of two of the integer part, and clamped.
\<close>

definition asert_value :: "nat \<Rightarrow> nat \<Rightarrow> int \<Rightarrow> nat" where
  "asert_value mx T e =
    clamp_target mx (scale_pow2 (T * (ASERT_FRAC_TABLE ! nat (e mod 256)) div 2 ^ 16) (e div 256))"

lemma asert_table_length: "length ASERT_FRAC_TABLE = 256"
  by (simp add: ASERT_FRAC_TABLE_def)

lemma asert_table_ends: "ASERT_FRAC_TABLE ! 0 = 65536" "ASERT_FRAC_TABLE ! 255 = 130717"
  by (simp_all add: ASERT_FRAC_TABLE_def)

lemma asert_table_sorted: "sorted ASERT_FRAC_TABLE"
  unfolding ASERT_FRAC_TABLE_def by (simp only: sorted2 sorted1) simp

lemma asert_table_mono: "i \<le> j \<Longrightarrow> j < 256 \<Longrightarrow> ASERT_FRAC_TABLE ! i \<le> ASERT_FRAC_TABLE ! j"
  using sorted_nth_mono [OF asert_table_sorted, of i j] by (simp add: asert_table_length)

lemma asert_table_bounds: "i < 256 \<Longrightarrow> 65536 \<le> ASERT_FRAC_TABLE ! i \<and> ASERT_FRAC_TABLE ! i < 131072"
  using asert_table_mono [of 0 i] asert_table_mono [of i 255] by (simp add: asert_table_ends)

lemma be_to_nat_append: "be_to_nat (xs @ ys) = be_to_nat xs * 256 ^ length ys + be_to_nat ys"
  by (simp add: be_to_nat_def le_to_nat_append)

lemma target_limbs:
  assumes "length t = 32"
  shows "be_to_nat (take 16 t) < 2 ^ 128" "be_to_nat (take 16 (drop 16 t)) < 2 ^ 128"
    "limbs (be_to_nat (take 16 t)) (be_to_nat (take 16 (drop 16 t))) = be_to_nat t"
proof -
  show "be_to_nat (take 16 t) < 2 ^ 128" "be_to_nat (take 16 (drop 16 t)) < 2 ^ 128"
    using be_to_nat_less [of "take 16 t"] be_to_nat_less [of "take 16 (drop 16 t)"] assms by simp_all
  have "t = take 16 t @ take 16 (drop 16 t)" using assms by simp
  then show "limbs (be_to_nat (take 16 t)) (be_to_nat (take 16 (drop 16 t))) = be_to_nat t"
    using be_to_nat_append [of "take 16 t" "take 16 (drop 16 t)"] assms by simp
qed

lemma be_to_nat_limbs:
  "h < 2 ^ 128 \<Longrightarrow> l < 2 ^ 128 \<Longrightarrow> be_to_nat (nat_to_be 16 h @ nat_to_be 16 l) = limbs h l"
  by (simp add: be_to_nat_append)

lemma be_to_nat_zeros: "be_to_nat (replicate n 0) = 0"
proof -
  have "le_to_nat (replicate n 0) = 0" by (induction n) simp_all
  then show ?thesis by (simp add: be_to_nat_def)
qed

lemma MIN_TARGET_append: "MIN_TARGET_BYTES = replicate 26 0 @ [0xff, 0xff, 0, 0, 0, 0]"
  by code_simp

lemma min_target_value: "be_to_nat MIN_TARGET_BYTES = 0xffff * 2 ^ 32" "length MIN_TARGET_BYTES = 32"
proof -
  have "be_to_nat [0xff, 0xff, 0, 0, 0, 0] = 0xffff * 2 ^ 32" by (simp add: be_to_nat_def)
  then show "be_to_nat MIN_TARGET_BYTES = 0xffff * 2 ^ 32"
    by (simp only: MIN_TARGET_append be_to_nat_append be_to_nat_zeros)
  show "length MIN_TARGET_BYTES = 32" by (simp add: MIN_TARGET_BYTES_def)
qed

lemma scale_pow2_shift:
  assumes "v < 2 ^ 255" "mx < 2 ^ 255" "0xffff * 2 ^ 32 \<le> mx"
  shows "clamp_target mx (if 0 \<le> k then min (v * 2 ^ nat (min k 255)) (2 ^ 256 - 1)
      else v div 2 ^ nat (min (- k) 255)) = clamp_target mx (scale_pow2 v k)"
proof (cases "0 \<le> k")
  case True
  have sat: "clamp_target mx (min x (2 ^ 256 - 1)) = clamp_target mx x" for x
    using assms(2) by (simp add: clamp_target_def min_def)
  show ?thesis
  proof (cases "k \<le> 255 \<or> v = 0")
    case True
    then show ?thesis using \<open>0 \<le> k\<close> sat by (auto simp: scale_pow2_def min_def)
  next
    case False
    then have v: "1 \<le> v" and k: "255 \<le> nat k" using \<open>0 \<le> k\<close> by linarith+
    have "2 ^ 255 \<le> v * 2 ^ 255" using v by simp
    moreover have "(2 :: nat) ^ 255 \<le> 2 ^ nat k" using k by (rule power_increasing) simp
    then have "2 ^ 255 \<le> v * 2 ^ nat k" using v mult_le_mono [of 1 v "2 ^ 255" "2 ^ nat k"] by linarith
    moreover have top: "clamp_target mx x = clamp_target mx mx" if "2 ^ 255 \<le> x" for x
      using that assms(2) by (simp add: clamp_target_def)
    moreover have "min k 255 = 255" using False by simp
    ultimately show ?thesis
      using True sat [of "v * 2 ^ 255"] by (simp only: scale_pow2_def if_True nat_numeral top)
  qed
next
  case False
  show ?thesis
  proof (cases "- k \<le> 255")
    case True
    then show ?thesis using False by (simp add: scale_pow2_def min_def)
  next
    case big: False
    have "v div 2 ^ 255 = 0" using assms(1) by simp
    moreover have "(2 :: nat) ^ 255 \<le> 2 ^ nat (- k)" using big by (intro power_increasing) simp_all
    then have "v div 2 ^ nat (- k) = 0" using assms(1) by (metis div_less less_le_trans)
    ultimately show ?thesis using False big by (simp add: scale_pow2_def min_def)
  qed
qed

lemma apply_exponent_exact:
  assumes "length t = 32" "be_to_nat t < 2 ^ 253" "length mx = 32" "be_to_nat mx < 2 ^ 255"
    and "be_to_nat MIN_TARGET_BYTES \<le> be_to_nat mx" "m < 2 ^ 17"
  shows "\<exists>r. apply_exponent t k m mx = Ok r \<and> length r = 32
    \<and> be_to_nat r = clamp_target (be_to_nat mx) (scale_pow2 (be_to_nat t * m div 2 ^ 16) k)"
proof -
  define v where "v = be_to_nat t * m div 2 ^ 16"
  have "be_to_nat t * m < 2 ^ 253 * 2 ^ 17" using assms(2,6) by (intro mult_strict_mono) simp_all
  then have v: "v < 2 ^ 255" unfolding v_def by (intro less_mult_imp_div_less) simp
  obtain h l where hl: "mul_256_div_radix_checked (be_to_nat (take 16 t)) (be_to_nat (take 16 (drop 16 t))) m
      (unat ASERT_RADIX) = Ok (h, l)" "h < 2 ^ 128" "l < 2 ^ 128" "limbs h l = v"
    using mul_256_exact [of "be_to_nat (take 16 t)" "be_to_nat (take 16 (drop 16 t))" m "unat ASERT_RADIX"]
      target_limbs [OF assms(1)] assms(6) v v_def by auto
  define sh where "sh = (if 0 \<le> k then shift_left_256 h l (nat (min k 255))
    else shift_right_256 h l (nat (min (- k) 255)))"
  define w where "w = (if 0 \<le> k then min (v * 2 ^ nat (min k 255)) (2 ^ 256 - 1)
      else v div 2 ^ nat (min (- k) 255))"
  have "nat (min k 255) < 256" "nat (min (- k) 255) < 256" by linarith+
  then obtain h' l' where sh: "sh = (h', l')" "h' < 2 ^ 128" "l' < 2 ^ 128" "limbs h' l' = w"
    using shift_left_exact [OF hl(2,3), of "nat (min k 255)"] shift_right_exact [OF hl(2,3), of "nat (min (- k) 255)"]
    unfolding sh_def w_def hl(4) by (cases "0 \<le> k") (simp_all only: if_True if_False, metis+)
  define r where "r = nat_to_be 16 h' @ nat_to_be 16 l'"
  have r: "be_to_nat r = w" "length r = 32" using be_to_nat_limbs [OF sh(2,3)] sh(4) by (simp_all add: r_def)
  have zero: "r = replicate 32 0 \<Longrightarrow> w = 0" using r(1) by (metis be_to_nat_zeros)
  have "apply_exponent t k m mx = (if be_to_nat mx < w then Ok mx
      else if r = replicate 32 0 \<or> w < be_to_nat MIN_TARGET_BYTES then Ok MIN_TARGET_BYTES else Ok r)"
    using hl(1) sh(1) r assms(3) min_target_value(2)
    by (simp add: apply_exponent_def Let_def sh_def [symmetric] r_def [symmetric] target_gt_iff target_lt_iff)
  moreover have "clamp_target (be_to_nat mx) (scale_pow2 v k) = clamp_target (be_to_nat mx) w"
    using scale_pow2_shift [OF v assms(4), of k] assms(5) min_target_value(1) by (simp add: w_def)
  ultimately show ?thesis
    using assms(3,5) r zero min_target_value by (auto simp: clamp_target_def v_def)
qed


lemma max_accepted_value: "be_to_nat maximum_accepted_target < 2 ^ 248" "length maximum_accepted_target = 32"
proof -
  have eq: "maximum_accepted_target = 0 # replicate 31 0xff"
    by (simp add: maximum_accepted_target_def MAX_TARGET_BYTES_def numeral_eq_Suc)
  show "be_to_nat maximum_accepted_target < 2 ^ 248" unfolding eq
    using be_to_nat_less [of "replicate 31 (0xff :: u8)"] by (simp add: be_to_nat_Cons)
  show "length maximum_accepted_target = 32" by (simp add: eq)
qed

lemma length_compact_to_target [simp]: "length (compact_to_target_unchecked bits) = 32"
  by (simp add: compact_to_target_unchecked_def write_target_byte_def Let_def)

lemma to_target_bounds:
  assumes "to_target (CompactTarget c) = Ok t" "take_bit 23 c \<noteq> 0"
  shows "length t = 32" "be_to_nat MIN_TARGET_BYTES \<le> be_to_nat t" "be_to_nat t < 2 ^ 248"
proof -
  have "c AND 0x007fffff \<noteq> 0"
    using assms(2) take_bit_eq_mask [of 23 c] by (simp add: mask_eq_exp_minus_1)
  then have t: "t = compact_to_target_unchecked c" "validate_target_bounds t = Ok ()"
    using assms(1) by (auto simp: to_target_def classify_compact_target_def Let_def split: if_splits)
  then show len: "length t = 32" by simp
  have "\<not> target_gt t maximum_accepted_target" "\<not> target_lt t MIN_TARGET_BYTES"
    using t(2) by (auto simp: validate_target_bounds_def split: if_splits)
  then show "be_to_nat MIN_TARGET_BYTES \<le> be_to_nat t" "be_to_nat t < 2 ^ 248"
    using len max_accepted_value min_target_value(2) by (auto simp: target_gt_iff target_lt_iff not_less)
qed

text \<open>The signed number of 256ths of a half-life by which a block is behind its schedule.\<close>

definition asert_exponent :: "asert_anchor \<Rightarrow> timestamp \<Rightarrow> block_height \<Rightarrow> pow_params \<Rightarrow> int" where
  "asert_exponent a ts h p =
    (uint (secs ts) - uint (secs (anchor_timestamp a))
      - (uint (height_val h) - uint (height_val (anchor_height a))) * uint (target_spacing p)) * 256
    div uint (half_life p)"

lemma div_between:
  fixes y :: int
  assumes "- M \<le> y" "y \<le> M" "0 < d" "0 < M"
  shows "- M \<le> y div d" "y div d \<le> M"
proof -
  have "- M div 1 \<le> - M div d" using assms(3,4) by (intro zdiv_mono2_neg) simp_all
  also have "\<dots> \<le> y div d" using assms(1,3) by (intro zdiv_mono1)
  finally show "- M \<le> y div d" by simp
  have "y div d \<le> M div d" using assms(2,3) by (intro zdiv_mono1)
  also have "\<dots> \<le> M div 1" using assms(3,4) by (intro zdiv_mono2) simp_all
  finally show "y div d \<le> M" by simp
qed

lemma i128_checked_small: "- (2 ^ 105) \<le> x \<Longrightarrow> x \<le> 2 ^ 105 \<Longrightarrow> i128_checked x = Some x"
  by (simp add: i128_checked_def)

lemma asert_with_params_exact:
  assumes anchor: "length (anchor_target a) = 32" "be_to_nat (anchor_target a) < 2 ^ 253"
    and mx: "max_target p = Ok mx" "length mx = 32" "be_to_nat mx < 2 ^ 255"
      "be_to_nat MIN_TARGET_BYTES \<le> be_to_nat mx"
    and p: "half_life p \<noteq> 0" "uint (target_spacing p) < 2 ^ 32"
    and h: "anchor_height a \<le> h"
  shows "\<exists>r. asert_next_target_with_params a ts h p = Ok r \<and> length r = 32
    \<and> be_to_nat r = asert_value (be_to_nat mx) (be_to_nat (anchor_target a)) (asert_exponent a ts h p)"
proof -
  define e where "e = asert_exponent a ts h p"
  define dh where "dh = uint (height_val h) - uint (height_val (anchor_height a))"
  define x where "x = uint (secs ts) - uint (secs (anchor_timestamp a)) - dh * uint (target_spacing p)"
  have u64: "0 \<le> uint w \<and> uint w < 2 ^ 64" for w :: u64 using uint_lt2p [of w] by simp
  have le: "height_val (anchor_height a) \<le> height_val h" using h by (simp add: less_eq_block_height_def)
  then have sub: "checked_sub (height_val h) (height_val (anchor_height a))
      = Some (height_val h - height_val (anchor_height a))"
    and dh: "uint (height_val h - height_val (anchor_height a)) = dh" "0 \<le> dh" "dh < 2 ^ 64"
    using u64 [of "height_val h"] u64 [of "height_val (anchor_height a)"]
    by (simp_all add: checked_sub_def dh_def uint_sub_if' word_le_def, linarith)
  have prod: "0 \<le> dh * uint (target_spacing p)" "dh * uint (target_spacing p) < 2 ^ 96"
    using dh p(2) u64 [of "target_spacing p"] mult_strict_mono [of dh "2 ^ 64" "uint (target_spacing p)" "2 ^ 32"]
    by (simp_all)
  then have "x \<le> uint (secs ts)" "- uint (secs (anchor_timestamp a)) - dh * uint (target_spacing p) \<le> x"
    unfolding x_def using uint_ge_0 [of "secs ts"] uint_ge_0 [of "secs (anchor_timestamp a)"] by linarith+
  moreover have "(2 :: int) ^ 64 + 2 ^ 96 \<le> 2 ^ 97" "(2 :: int) ^ 64 \<le> 2 ^ 97" by simp_all
  ultimately have x: "- (2 ^ 97) < x" "x < 2 ^ 97"
    using u64 [of "secs ts"] u64 [of "secs (anchor_timestamp a)"] prod(2) by linarith+
  have cl: "classify_asert_exponent_seconds (secs (anchor_timestamp a)) (secs ts)
      (height_val (anchor_height a)) (height_val h) (target_spacing p) = ExponentValid x"
  proof -
    have "i128_checked (dh * uint (target_spacing p)) = Some (dh * uint (target_spacing p))"
      by (rule i128_checked_small, rule order_trans [OF _ prod(1)]) (use prod(2) in simp_all)
    moreover have "i128_checked x = Some x" using x by (intro i128_checked_small) simp_all
    ultimately show ?thesis using sub dh(1) by (simp add: classify_asert_exponent_seconds_def x_def)
  qed
  have hl: "0 < uint (half_life p)" using p(1) u64 [of "half_life p"] by (simp add: word_neq_0_conv word_less_def)
  have e: "e = x * 256 div uint (half_life p)" by (simp add: e_def asert_exponent_def x_def dh_def)
  have x256: "- (2 ^ 105) \<le> x * 256" "x * 256 \<le> 2 ^ 105" using x by simp_all
  have eb: "- (2 ^ 105) \<le> e" "e \<le> 2 ^ 105"
    unfolding e using x256 hl by (intro div_between; simp)+
  have fd: "floor_div_i128 (x * 256) (uint (half_life p)) = Ok e"
    unfolding e using hl x256 by (intro floor_div_i128_pos) simp_all
  have fd': "floor_div_i128 e 256 = Ok (e div 256)" using eb by (intro floor_div_i128_pos) simp_all
  have e1: "0 \<le> e mod 256" "e mod 256 < 256" by simp_all
  have fr: "e - e div 256 * 256 = e mod 256" by (simp add: minus_div_mult_eq_mod)
  have "e div 256 * 256 = e - e mod 256" using fr by linarith
  then have e256: "- (2 ^ 105) - 256 \<le> e div 256 * 256" "e div 256 * 256 \<le> 2 ^ 105" using eb e1 by linarith+
  have c1: "i128_checked (x * 256) = Some (x * 256)" using x256 by (rule i128_checked_small)
  have c2: "i128_checked (e div 256 * 256) = Some (e div 256 * 256)"
    using e256 by (simp add: i128_checked_def)
  have c3: "i128_checked (e mod 256) = Some (e mod 256)"
    by (rule i128_checked_small, rule order_trans [OF _ e1(1)]) (use e1(2) in simp_all)
  have idx: "min (nat (e mod 256)) 255 = nat (e mod 256)" using e1 by (simp add: min_def)
  have "asert_next_target_with_params a ts h p
      = apply_exponent (anchor_target a) (e div 256) (ASERT_FRAC_TABLE ! nat (e mod 256)) mx"
    unfolding asert_next_target_with_params_def cl asert_exponent_classification.case and_then.simps
      c1 ok_or.simps fd fd' c2 fr c3 Let_def idx mx(1) ..
  moreover have "ASERT_FRAC_TABLE ! nat (e mod 256) < 2 ^ 17"
    using asert_table_bounds [of "nat (e mod 256)"] by simp
  ultimately show ?thesis
    using apply_exponent_exact [OF anchor mx(2,3,4)] by (simp add: asert_value_def e_def)
qed

lemma scale_pow2_mono: "v \<le> w \<Longrightarrow> scale_pow2 v k \<le> scale_pow2 w k"
  by (simp add: scale_pow2_def div_le_mono)

lemma scale_pow2_carry:
  assumes "v \<le> 2 * w"
  shows "scale_pow2 v k \<le> scale_pow2 w (k + 1)"
proof -
  consider "0 \<le> k" | "k = - 1" | "k < - 1" by linarith
  then show ?thesis
  proof cases
    case 1
    then have "nat (k + 1) = Suc (nat k)" by simp
    then show ?thesis using 1 mult_le_mono1 [OF assms, of "2 ^ nat k"] by (simp add: scale_pow2_def algebra_simps)
  next
    case 3
    then have "nat (- k) = Suc (nat (- (k + 1)))" by simp
    then have "v div 2 ^ nat (- k) \<le> (2 * w) div (2 * 2 ^ nat (- (k + 1)))"
      using div_le_mono [OF assms, of "2 ^ nat (- k)"] by (simp only: power_Suc)
    then have "v div 2 ^ nat (- k) \<le> w div 2 ^ nat (- (k + 1))" by (simp only: div_mult_mult1)
    then show ?thesis using 3 by (simp add: scale_pow2_def)
  qed (use assms in \<open>simp add: scale_pow2_def\<close>)
qed

lemma clamp_target_mono: "v \<le> w \<Longrightarrow> clamp_target mx v \<le> clamp_target mx w"
  by (auto simp: clamp_target_def)

lemma asert_value_split:
  assumes "0 \<le> r" "r < 256"
  shows "asert_value mx T (256 * q + r) =
    clamp_target mx (scale_pow2 (T * (ASERT_FRAC_TABLE ! nat r) div 2 ^ 16) q)"
proof -
  have "(256 * q + r) mod 256 = r" "(256 * q + r) div 256 = q"
    using assms by (simp_all add: div_pos_pos_trivial mod_pos_pos_trivial)
  then show ?thesis by (simp only: asert_value_def)
qed

lemma asert_value_Suc: "asert_value mx T e \<le> asert_value mx T (e + 1)"
proof -
  define q r where "q = e div 256" and "r = e mod 256"
  have e: "e = 256 * q + r" and r: "0 \<le> r" "r < 256" by (simp_all add: q_def r_def)
  show ?thesis
  proof (cases "r = 255")
    case True
    have "T * ASERT_FRAC_TABLE ! 255 div 2 ^ 16 \<le> 2 * T"
      using div_le_mono [of "T * 130717" "2 * T * 65536" "65536"] by (simp add: asert_table_ends)
    then have "scale_pow2 (T * ASERT_FRAC_TABLE ! 255 div 2 ^ 16) q \<le> scale_pow2 T (q + 1)"
      by (rule scale_pow2_carry)
    moreover have "e + 1 = 256 * (q + 1) + 0" using True e by simp
    ultimately show ?thesis
      using True by (simp only: e asert_value_split) (simp add: asert_table_ends clamp_target_mono)
  next
    case False
    then have "ASERT_FRAC_TABLE ! nat r \<le> ASERT_FRAC_TABLE ! nat (r + 1)"
      using r by (intro asert_table_mono) auto
    then have "T * ASERT_FRAC_TABLE ! nat r div 2 ^ 16 \<le> T * ASERT_FRAC_TABLE ! nat (r + 1) div 2 ^ 16"
      by (intro div_le_mono mult_le_mono2)
    moreover have "e + 1 = 256 * q + (r + 1)" using e by simp
    ultimately show ?thesis
      using False r by (simp only: e asert_value_split) (simp add: asert_value_split scale_pow2_mono clamp_target_mono)
  qed
qed

lemma asert_value_mono: "e \<le> e' \<Longrightarrow> asert_value mx T e \<le> asert_value mx T e'"
  by (induction e' rule: int_ge_induct) (use asert_value_Suc le_trans in blast)+

lemma asert_value_range:
  "be_to_nat MIN_TARGET_BYTES \<le> mx \<Longrightarrow> be_to_nat MIN_TARGET_BYTES \<le> asert_value mx T e \<and> asert_value mx T e \<le> mx"
  by (simp add: asert_value_def clamp_target_def)

section \<open>Canonicalisation\<close>

definition small_mantissa :: "u32 \<Rightarrow> bool" where
  "small_mantissa m \<longleftrightarrow> m \<noteq> 0 \<and> (\<forall>n \<ge> 23. \<not> bit m n)"

lemma take_bit_small: "small_mantissa m \<Longrightarrow> take_bit 23 m = m"
  by (rule bit_eqI) (auto simp: bit_take_bit_iff small_mantissa_def not_le)

lemma take_bit_compact:
  "small_mantissa m \<Longrightarrow> take_bit 23 (push_bit 24 (of_nat sz) OR m) = m"
  by (simp add: take_bit_or take_bit_push_bit take_bit_small)

lemma bit_target_mantissa: "24 \<le> n \<Longrightarrow> \<not> bit (target_mantissa t start) n"
  by (auto simp: target_mantissa_def Let_def bit_simps dest: bit_imp_le_length)

lemma small_target_mantissa:
  assumes "target_mantissa t start \<noteq> 0" "target_mantissa t start AND 0x00800000 = 0"
  shows "small_mantissa (target_mantissa t start)"
proof -
  have "\<not> bit (target_mantissa t start) 23"
  proof
    assume "bit (target_mantissa t start) 23"
    then have "bit (target_mantissa t start AND 2 ^ 23) 23" by (simp add: bit_simps)
    then show False using assms(2) by simp
  qed
  then have "\<not> bit (target_mantissa t start) n" if "23 \<le> n" for n
    using that bit_target_mantissa [of n t start] by (cases "n = 23") auto
  then show ?thesis using assms(1) by (simp add: small_mantissa_def)
qed

lemma small_mantissa_and: "m AND 0x007fffff \<noteq> 0 \<Longrightarrow> small_mantissa (m AND 0x007fffff)"
proof -
  assume "m AND 0x007fffff \<noteq> 0"
  moreover have "m AND 0x007fffff = take_bit 23 m" using take_bit_eq_mask [of 23 m] by (simp add: mask_eq_exp_minus_1)
  ultimately show ?thesis by (simp add: small_mantissa_def bit_take_bit_iff)
qed

lemma small_strip: "small_mantissa m \<Longrightarrow> small_mantissa (snd (strip_mantissa sz m))"
proof (induction sz m rule: strip_mantissa.induct)
  case (1 sz m)
  show ?case
  proof (cases "1 < sz \<and> m AND 0xff = 0")
    case True
    have "take_bit 8 m = 0" using True take_bit_eq_mask [of 8 m] by (simp add: mask_eq_exp_minus_1)
    then have "drop_bit 8 m \<noteq> 0"
      using "1.prems" bits_ident [of 8 m] by (auto simp: small_mantissa_def)
    then have "small_mantissa (drop_bit 8 m)"
      using "1.prems" by (simp add: small_mantissa_def bit_drop_bit_eq)
    then show ?thesis using True "1.IH" by (subst strip_mantissa.simps) simp
  next
    case False
    then have "strip_mantissa sz m = (sz, m)" by (subst strip_mantissa.simps) auto
    then show ?thesis using "1.prems" by simp
  qed
qed

lemma compact_candidate:
  assumes "small_mantissa m" "to_target (CompactTarget (push_bit 24 (of_nat sz) OR m)) = Ok x"
    and "\<not> target_gt x t" "length t = 32"
  shows "length x = 32 \<and> be_to_nat MIN_TARGET_BYTES \<le> be_to_nat x \<and> be_to_nat x \<le> be_to_nat t"
proof -
  have "take_bit 23 (push_bit 24 (of_nat sz) OR m) \<noteq> 0"
    unfolding take_bit_compact [OF assms(1)] using assms(1) by (simp add: small_mantissa_def)
  from to_target_bounds [OF assms(2) this] show ?thesis
    using assms(3,4) by (simp add: target_gt_iff not_less)
qed

text \<open>A compact value chosen for a target expands to a value between the minimum and the target.\<close>

definition good_compact :: "bytes \<Rightarrow> u32 \<Rightarrow> bool" where
  "good_compact t c \<longleftrightarrow> (\<exists>x. to_target (CompactTarget c) = Ok x \<and> length x = 32
    \<and> be_to_nat MIN_TARGET_BYTES \<le> be_to_nat x \<and> be_to_nat x \<le> be_to_nat t)"

lemma compact_step_good:
  assumes "length t = 32" "\<forall>c. fst st = Some c \<longrightarrow> good_compact t c"
  shows "\<forall>c. fst (target_to_compact_step t start st) = Some c \<longrightarrow> good_compact t c"
proof (cases "target_mantissa t start = 0 \<or> target_mantissa t start AND 0x00800000 \<noteq> 0")
  case True
  then show ?thesis using assms(2) by (simp add: target_to_compact_step_def split: prod.splits)
next
  case False
  obtain sz m where strip: "strip_mantissa (32 - start) (target_mantissa t start) = (sz, m)" by fastforce
  have "small_mantissa m"
    using False small_strip [OF small_target_mantissa, of t start "32 - start"] strip by simp
  then show ?thesis
    using False strip assms compact_candidate [of m sz _ t]
    by (auto simp: target_to_compact_step_def good_compact_def Let_def
        split: prod.splits result.splits if_splits)
qed

lemma compact_best_good:
  assumes "length t = 32" "target_to_compact_best t first = Some c"
  shows "good_compact t c"
proof -
  have "\<forall>c. fst (fold (target_to_compact_step t) xs st) = Some c \<longrightarrow> good_compact t c"
    if "\<forall>c. fst st = Some c \<longrightarrow> good_compact t c" for xs st
    using that
  proof (induction xs arbitrary: st)
    case (Cons a xs)
    show ?case unfolding fold_simps by (rule Cons.IH) (rule compact_step_good [OF assms(1) Cons.prems])
  qed simp
  from this [of "(None, replicate 32 0)" "[first ..< 32]"] show ?thesis
    using assms(2) by (simp add: target_to_compact_best_def)
qed

lemma position_None: "position P xs = None \<longleftrightarrow> (\<forall>x \<in> set xs. \<not> P x)"
  by (induction xs) auto

lemma target_position:
  assumes "length t = 32" "be_to_nat MIN_TARGET_BYTES \<le> be_to_nat t"
  obtains i where "position (\<lambda>b. b \<noteq> 0) t = Some i"
proof (cases "position (\<lambda>b. b \<noteq> 0) t")
  case None
  then have "t = replicate 32 0" using assms(1) by (auto simp: position_None list_eq_iff_nth_eq)
  then show ?thesis using assms(2) by (simp only: be_to_nat_zeros min_target_value) simp
qed (use that in simp)

lemma target_to_compact_min: "target_to_compact MIN_TARGET_BYTES = 0x0600ffff"
  by (subst target_to_compact.simps) (simp add: min_target_position min_target_best)

lemma to_target_min: "to_target (CompactTarget 0x0600ffff) = Ok MIN_TARGET_BYTES"
  by code_simp

lemma min_compact_good:
  "be_to_nat MIN_TARGET_BYTES \<le> be_to_nat t \<Longrightarrow> good_compact t (target_to_compact MIN_TARGET_BYTES)"
  by (simp add: target_to_compact_min good_compact_def to_target_min min_target_value)

lemma target_to_compact_good:
  assumes "length t = 32" "be_to_nat MIN_TARGET_BYTES \<le> be_to_nat t"
  shows "good_compact t (target_to_compact t)"
proof -
  obtain i where i: "position (\<lambda>b. b \<noteq> 0) t = Some i" using assms by (rule target_position)
  show ?thesis
    using i compact_best_good [OF assms(1)] min_compact_good [OF assms(2)]
    by (subst target_to_compact.simps) (simp split: option.split)
qed

lemma rescue_step_good:
  assumes "length t = 32" "\<forall>c x. st = Some (c, x) \<longrightarrow> good_compact t c"
  shows "\<forall>c x. target_to_rescue_compact_step t start st = Some (c, x) \<longrightarrow> good_compact t c"
proof (cases "target_mantissa t start AND 0x007fffff = 0")
  case True
  then show ?thesis using assms(2) by (simp add: target_to_rescue_compact_step_def)
next
  case False
  note cand = compact_candidate [OF small_mantissa_and [OF False], of "32 - start" _ t]
  show ?thesis
    using False assms cand
    by (auto simp: target_to_rescue_compact_step_def good_compact_def Let_def
        split: prod.splits result.splits if_splits)
qed

lemma target_to_rescue_compact_good:
  assumes "length t = 32" "be_to_nat MIN_TARGET_BYTES \<le> be_to_nat t"
  shows "good_compact t (target_to_rescue_compact t)"
proof -
  obtain i where i: "position (\<lambda>b. b \<noteq> 0) t = Some i" using assms by (rule target_position)
  have "\<forall>c x. fold (target_to_rescue_compact_step t) xs st = Some (c, x) \<longrightarrow> good_compact t c"
    if "\<forall>c x. st = Some (c, x) \<longrightarrow> good_compact t c" for xs st
    using that
  proof (induction xs arbitrary: st)
    case (Cons a xs)
    show ?case unfolding fold_simps by (rule Cons.IH) (rule rescue_step_good [OF assms(1) Cons.prems])
  qed simp
  from this [of None "[0 ..< Suc i]"] show ?thesis
    using i min_compact_good [OF assms(2)]
    by (cases "fold (target_to_rescue_compact_step t) [0 ..< Suc i] None")
      (auto simp: target_to_rescue_compact_def simp del: upt_Suc fold_simps)
qed

lemma canonicalize_good:
  assumes "length t = 32" "be_to_nat MIN_TARGET_BYTES \<le> be_to_nat t"
  shows "\<exists>x. (if b then canonicalize_rescue_compact_target t else canonicalize_compact_target t) = Ok x
    \<and> length x = 32 \<and> be_to_nat MIN_TARGET_BYTES \<le> be_to_nat x \<and> be_to_nat x \<le> be_to_nat t"
  using target_to_compact_good [OF assms] target_to_rescue_compact_good [OF assms]
  by (auto simp: good_compact_def canonicalize_compact_target_def canonicalize_rescue_compact_target_def)

section \<open>The expected target of every known network\<close>

lemma to_target_constants:
  "to_target (CompactTarget 0x1e00ffff) = Ok ([0, 0, 0xff, 0xff] @ replicate 28 0)"
  "to_target (CompactTarget 0x1e2eff7f) = Ok ([0, 0, 0x7f, 0xff, 0x2e] @ replicate 27 0)"
  "to_target (CompactTarget 0x1e7fffff) = Ok ([0, 0, 0xff, 0xff, 0x7f] @ replicate 27 0)"
  "to_target (CompactTarget 0x1f00ffff) = Ok ([0, 0xff, 0xff] @ replicate 29 0)"
  by code_simp+

definition known_network :: "u32 \<Rightarrow> bool" where
  "known_network n \<longleftrightarrow> n \<in> {NETWORK_MAGIC_MAINNET, NETWORK_MAGIC_TESTNET, NETWORK_MAGIC_REGTEST}"

lemma be_to_nat_padded: "be_to_nat (xs @ replicate n 0) = be_to_nat xs * 256 ^ n"
  by (simp add: be_to_nat_append be_to_nat_zeros)

text \<open>What the ASERT computation needs of the parameters and the anchor that govern a height.\<close>

definition asert_setup :: "pow_params \<Rightarrow> bytes \<Rightarrow> asert_anchor \<Rightarrow> block_height \<Rightarrow> bool" where
  "asert_setup p mx a h \<longleftrightarrow> max_target p = Ok mx \<and> length mx = 32 \<and> be_to_nat mx < 2 ^ 253
    \<and> be_to_nat MIN_TARGET_BYTES \<le> be_to_nat mx
    \<and> length (anchor_target a) = 32 \<and> be_to_nat (anchor_target a) < 2 ^ 253
    \<and> anchor_height a \<le> h \<and> half_life p \<noteq> 0 \<and> target_spacing p = 120"

definition genesis_in_range :: "pow_params \<Rightarrow> bytes \<Rightarrow> bool" where
  "genesis_in_range p mx \<longleftrightarrow> (\<exists>g. genesis_target p = Ok g \<and> length g = 32
    \<and> be_to_nat MIN_TARGET_BYTES \<le> be_to_nat g \<and> be_to_nat g \<le> be_to_nat mx)"

lemmas target_values = to_target_constants be_to_nat_padded be_to_nat_Cons be_to_nat_def [of "[]"]
  be_to_nat_zeros min_target_value

lemma network_magics_distinct [simp]:
  "NETWORK_MAGIC_MAINNET \<noteq> NETWORK_MAGIC_TESTNET" "NETWORK_MAGIC_MAINNET \<noteq> NETWORK_MAGIC_REGTEST"
  "NETWORK_MAGIC_TESTNET \<noteq> NETWORK_MAGIC_REGTEST"
  by (simp_all add: dom_consts)

lemma anchor_at_genesis: "BlockHeight 0 \<le> h"
  by (simp add: less_eq_block_height_def)

lemmas network_setup_simps = pow_params_for_network_at_height_def pow_params_for_network_def
  asert_anchor_for_network_height_def genesis_anchor_def genesis_timestamp_for_network_magic_def
  max_target_def genesis_target_def asert_setup_def genesis_in_range_def anchor_at_genesis
  GENESIS_TARGET_COMPACT_def TESTNET_TARGET_COMPACT_def REGTEST_TARGET_COMPACT_def MAX_COMPACT_TARGET_def
  MAINNET_ASERT_RESCUE_MAX_COMPACT_TARGET_def

lemma half_lives: "ASERT_HALF_LIFE \<noteq> 0" "MAINNET_ASERT_RESCUE_HALF_LIFE \<noteq> 0" "TARGET_SPACING = 120"
  by (simp_all add: dom_consts)

lemma testnet_setup:
  "\<exists>p mx a. pow_params_for_network_at_height NETWORK_MAGIC_TESTNET h = Ok p
    \<and> asert_anchor_for_network_height NETWORK_MAGIC_TESTNET h = Ok a
    \<and> asert_setup p mx a h \<and> genesis_in_range p mx"
  by (simp add: network_setup_simps rescue_active_def half_lives target_values network_magics_distinct [symmetric]
      del: replicate_append_same)

lemma regtest_setup:
  "\<exists>p mx a. pow_params_for_network_at_height NETWORK_MAGIC_REGTEST h = Ok p
    \<and> asert_anchor_for_network_height NETWORK_MAGIC_REGTEST h = Ok a
    \<and> asert_setup p mx a h \<and> genesis_in_range p mx"
  by (simp add: network_setup_simps rescue_active_def half_lives target_values network_magics_distinct [symmetric])

lemma mainnet_setup:
  "\<exists>p mx a. pow_params_for_network_at_height NETWORK_MAGIC_MAINNET h = Ok p
    \<and> asert_anchor_for_network_height NETWORK_MAGIC_MAINNET h = Ok a
    \<and> asert_setup p mx a h \<and> genesis_in_range p mx"
proof (cases "rescue_active NETWORK_MAGIC_MAINNET h")
  case True
  then have "BlockHeight MAINNET_ASERT_RESCUE_ANCHOR_HEIGHT \<le> h"
    by (simp add: rescue_active_def less_eq_block_height_def dom_consts word_le_nat_alt)
  then show ?thesis using True by (simp add: network_setup_simps half_lives target_values)
next
  case False
  then show ?thesis by (simp add: network_setup_simps half_lives target_values)
qed

lemma network_setup:
  assumes "known_network n"
  shows "\<exists>p mx a. pow_params_for_network_at_height n h = Ok p \<and> asert_anchor_for_network_height n h = Ok a
    \<and> asert_setup p mx a h \<and> genesis_in_range p mx"
  using assms testnet_setup regtest_setup mainnet_setup by (auto simp: known_network_def)

lemma asert_setup_exact:
  assumes "asert_setup p mx a h"
  shows "\<exists>r. asert_next_target_with_params a ts h p = Ok r \<and> length r = 32
    \<and> be_to_nat r = asert_value (be_to_nat mx) (be_to_nat (anchor_target a)) (asert_exponent a ts h p)"
  using assms by (intro asert_with_params_exact) (auto simp: asert_setup_def)

section \<open>Properties\<close>

text \<open>
  C20. ASERT never fails and is exact: on every known network, for every timestamp and every
  height, the parameters, the anchor and the raw target exist, and the raw target is the
  anchor target times the tabulated power of two of the schedule deviation, with the
  128-bit limb arithmetic, the saturating shifts and the floor divisions all exact, clamped
  to the range between the minimum target and the network's easiest target.
\<close>
theorem asert_exact:
  assumes "known_network n"
  shows "\<exists>p mx a r. pow_params_for_network_at_height n h = Ok p \<and> max_target p = Ok mx
    \<and> asert_anchor_for_network_height n h = Ok a
    \<and> asert_next_target_with_params a ts h p = Ok r \<and> length r = 32
    \<and> be_to_nat r = asert_value (be_to_nat mx) (be_to_nat (anchor_target a)) (asert_exponent a ts h p)"
proof -
  obtain p mx a where s: "pow_params_for_network_at_height n h = Ok p"
      "asert_anchor_for_network_height n h = Ok a" "asert_setup p mx a h"
    using network_setup [OF assms, of h] by blast
  then have "max_target p = Ok mx" by (simp add: asert_setup_def)
  with s asert_setup_exact [OF s(3), of ts] show ?thesis by blast
qed

theorem asert_exact_witness:
  "\<exists>p mx a r. pow_params_for_network_at_height NETWORK_MAGIC_TESTNET (BlockHeight 7) = Ok p \<and> max_target p = Ok mx
    \<and> asert_anchor_for_network_height NETWORK_MAGIC_TESTNET (BlockHeight 7) = Ok a
    \<and> asert_next_target_with_params a (Timestamp 0) (BlockHeight 7) p = Ok r \<and> length r = 32
    \<and> be_to_nat r = asert_value (be_to_nat mx) (be_to_nat (anchor_target a))
        (asert_exponent a (Timestamp 0) (BlockHeight 7) p)"
  by (rule asert_exact) (simp add: known_network_def)

lemma asert_exponent_mono:
  "ts \<le> ts' \<Longrightarrow> half_life p \<noteq> 0 \<Longrightarrow> asert_exponent a ts h p \<le> asert_exponent a ts' h p"
  unfolding asert_exponent_def
  by (intro zdiv_mono1) (auto simp: less_eq_timestamp_def word_le_def word_neq_0_conv word_less_def)

text \<open>
  The raw ASERT target is monotone: at the same height a later timestamp never gives a
  harder target.
\<close>
theorem asert_monotone:
  assumes "known_network n" "ts \<le> ts'"
    and "pow_params_for_network_at_height n h = Ok p" "asert_anchor_for_network_height n h = Ok a"
    and "asert_next_target_with_params a ts h p = Ok r" "asert_next_target_with_params a ts' h p = Ok r'"
  shows "be_to_nat r \<le> be_to_nat r'"
proof -
  obtain mx where s: "asert_setup p mx a h"
    using network_setup [OF assms(1), of h] assms(3,4) by auto
  then have "half_life p \<noteq> 0" by (simp add: asert_setup_def)
  from asert_value_mono [OF asert_exponent_mono [OF assms(2) this]] show ?thesis
    using asert_setup_exact [OF s, of ts] asert_setup_exact [OF s, of ts'] assms(5,6) by auto
qed

theorem asert_monotone_witness:
  "\<exists>p a r r'. pow_params_for_network_at_height NETWORK_MAGIC_TESTNET (BlockHeight 7) = Ok p
    \<and> asert_anchor_for_network_height NETWORK_MAGIC_TESTNET (BlockHeight 7) = Ok a
    \<and> asert_next_target_with_params a (Timestamp 5) (BlockHeight 7) p = Ok r
    \<and> asert_next_target_with_params a (Timestamp 900) (BlockHeight 7) p = Ok r' \<and> be_to_nat r \<le> be_to_nat r'"
proof -
  obtain p mx a where s: "pow_params_for_network_at_height NETWORK_MAGIC_TESTNET (BlockHeight 7) = Ok p"
      "asert_anchor_for_network_height NETWORK_MAGIC_TESTNET (BlockHeight 7) = Ok a" "asert_setup p mx a (BlockHeight 7)"
    using testnet_setup [of "BlockHeight 7"] by blast
  obtain r r' where r: "asert_next_target_with_params a (Timestamp 5) (BlockHeight 7) p = Ok r"
      "asert_next_target_with_params a (Timestamp 900) (BlockHeight 7) p = Ok r'"
    using asert_setup_exact [OF s(3)] by blast
  have "be_to_nat r \<le> be_to_nat r'"
    by (rule asert_monotone [OF _ _ s(1,2) r]) (simp_all add: known_network_def less_eq_timestamp_def)
  with s r show ?thesis by blast
qed

text \<open>
  C21. The expected target of a block always exists on a known network, and lies between the
  minimum target and the easiest target the network allows at that height.
\<close>
theorem expected_target_range:
  assumes "known_network n"
  shows "\<exists>p mx t. pow_params_for_network_at_height n h = Ok p \<and> max_target p = Ok mx
    \<and> compute_expected_target n ts h = Ok t \<and> length t = 32
    \<and> be_to_nat MIN_TARGET_BYTES \<le> be_to_nat t \<and> be_to_nat t \<le> be_to_nat mx"
proof -
  obtain p mx a where net: "pow_params_for_network_at_height n h = Ok p"
      "asert_anchor_for_network_height n h = Ok a" "asert_setup p mx a h" "genesis_in_range p mx"
    using network_setup [OF assms, of h] by blast
  then have mx: "max_target p = Ok mx" "length mx = 32" "be_to_nat MIN_TARGET_BYTES \<le> be_to_nat mx"
    by (simp_all add: asert_setup_def)
  obtain raw where raw: "(if h = BlockHeight 0 then genesis_target p
        else asert_next_target_with_params a ts h p) = Ok raw" "length raw = 32"
      "be_to_nat MIN_TARGET_BYTES \<le> be_to_nat raw" "be_to_nat raw \<le> be_to_nat mx"
    using asert_setup_exact [OF net(3), of ts] net(4) asert_value_range [OF mx(3)]
    by (cases "h = BlockHeight 0") (auto simp: genesis_in_range_def)
  obtain t where "(if rescue_active n h then canonicalize_rescue_compact_target raw
      else canonicalize_compact_target raw) = Ok t" "length t = 32"
      "be_to_nat MIN_TARGET_BYTES \<le> be_to_nat t" "be_to_nat t \<le> be_to_nat raw"
    using canonicalize_good [OF raw(2,3)] by blast
  then show ?thesis
    using net raw mx by (cases "uses_dev_fixed_target n") (auto simp: compute_expected_target_def)
qed

theorem expected_target_range_witness:
  "\<exists>p mx t. pow_params_for_network_at_height NETWORK_MAGIC_MAINNET (BlockHeight 5000) = Ok p \<and> max_target p = Ok mx
    \<and> compute_expected_target NETWORK_MAGIC_MAINNET (Timestamp 1784653190) (BlockHeight 5000) = Ok t \<and> length t = 32
    \<and> be_to_nat MIN_TARGET_BYTES \<le> be_to_nat t \<and> be_to_nat t \<le> be_to_nat mx"
  by (rule expected_target_range) (simp add: known_network_def)

text \<open>
  The RandomX seed schedule: before height 2048 the seed is the genesis hash; from then on
  the seed block is the one 64 blocks before the start of the epoch, hence at least 64 and
  at most 2111 blocks below the block it seeds, and the same for the whole epoch.
\<close>
theorem seed_height_schedule:
  "unat (randomx_seed_height h) = (if unat h < 2048 then 0 else unat h div 2048 * 2048 - 64)
   \<and> (2048 \<le> unat h \<longrightarrow> unat (randomx_seed_height h) + 64 \<le> unat h
        \<and> unat h \<le> unat (randomx_seed_height h) + 2111)"
proof -
  have d: "unat (h div 2048) = unat h div 2048" by (simp add: unat_div)
  have "unat h div 2048 * 2048 \<le> unat h" by simp
  moreover have "unat h < 2 ^ 64" using unat_less_pow [of h] by simp
  ultimately have m: "unat (h div 2048 * 2048) = unat h div 2048 * 2048"
    by (subst unat_mul_no_overflow) (simp_all add: d)
  have z: "h div 2048 = 0 \<longleftrightarrow> unat h < 2048"
    by (simp add: word_unat_eq_iff d div_eq_0_iff)
  have "64 \<le> h div 2048 * 2048" if "\<not> unat h < 2048"
  proof -
    have "1 \<le> unat h div 2048" using that by (simp add: Suc_le_eq div_greater_zero_iff)
    then show ?thesis by (simp add: word_le_nat_alt m)
  qed
  then have "unat (randomx_seed_height h) = (if unat h < 2048 then 0 else unat h div 2048 * 2048 - 64)"
    using z m by (auto simp: randomx_seed_height_def Let_def dom_consts saturating_sub_def unat_sub_if' word_le_nat_alt)
  moreover have "unat h < unat h div 2048 * 2048 + 2048" using div_mult_mod_eq [of "unat h" 2048] mod_less_divisor [of 2048 "unat h"] by linarith
  ultimately show ?thesis using \<open>unat h div 2048 * 2048 \<le> unat h\<close> by auto
qed

theorem seed_height_schedule_witness:
  "unat (randomx_seed_height 5000) = 4032 \<and> unat (randomx_seed_height 5000) + 64 \<le> 5000"
  using seed_height_schedule [of 5000] by simp

text \<open>
  C39. Canonicalising through the legacy compact encoder does not round the ASERT target, it
  can destroy it: on testnet the raw target of block 1 mined 390 seconds after genesis is
  the genesis target eased by two 256ths of a half-life, but the expected target is more
  than nine million times smaller, because the encoder drops the leading bytes whenever
  the third significant byte has its top bit set.
\<close>
theorem legacy_canonicalisation_collapse:
  "\<exists>p a raw t. pow_params_for_network_at_height NETWORK_MAGIC_TESTNET (BlockHeight 1) = Ok p
    \<and> asert_anchor_for_network_height NETWORK_MAGIC_TESTNET (BlockHeight 1) = Ok a
    \<and> asert_next_target_with_params a (Timestamp (GENESIS_TIMESTAMP_TESTNET + 390)) (BlockHeight 1) p = Ok raw
    \<and> compute_expected_target NETWORK_MAGIC_TESTNET (Timestamp (GENESIS_TIMESTAMP_TESTNET + 390)) (BlockHeight 1) = Ok t
    \<and> be_to_nat (anchor_target a) < be_to_nat raw \<and> 9000000 * be_to_nat t < be_to_nat raw"
proof -
  let ?ts = "Timestamp (GENESIS_TIMESTAMP_TESTNET + 390)" and ?h = "BlockHeight 1"
  let ?raw = "[0, 0, 0x80, 0xb0, 0xac, 0xdc, 0xca] @ replicate 25 0" and ?t = "[0, 0, 0, 0, 0, 0xdc, 0xca] @ replicate 25 0"
  define a where "a = \<lparr>anchor_timestamp = Timestamp GENESIS_TIMESTAMP_TESTNET, anchor_height = BlockHeight 0,
    anchor_target = [0, 0, 0x7f, 0xff, 0x2e] @ replicate 27 0\<rparr>"
  define p where "p = \<lparr>target_spacing = TARGET_SPACING, half_life = ASERT_HALF_LIFE,
    genesis_target_compact = TESTNET_TARGET_COMPACT, max_compact_target = MAX_COMPACT_TARGET\<rparr>"
  have p: "pow_params_for_network_at_height NETWORK_MAGIC_TESTNET ?h = Ok p"
    and a: "asert_anchor_for_network_height NETWORK_MAGIC_TESTNET ?h = Ok a"
    by (simp_all add: p_def a_def network_setup_simps rescue_active_def network_magics_distinct [symmetric] target_values)
  obtain mx where s: "asert_setup p mx a ?h" using testnet_setup [of ?h] p a by auto
  then have mx: "mx = [0, 0, 0xff, 0xff, 0x7f] @ replicate 27 0"
    by (simp add: asert_setup_def p_def max_target_def MAX_COMPACT_TARGET_def target_values)
  have e: "asert_exponent a ?ts ?h p = 2" by (simp add: asert_exponent_def a_def p_def dom_consts)
  have tab: "ASERT_FRAC_TABLE ! 2 = 65891" by (simp add: ASERT_FRAC_TABLE_def)
  obtain raw where raw: "asert_next_target_with_params a ?ts ?h p = Ok raw" "length raw = 32"
      "be_to_nat raw = asert_value (be_to_nat mx) (be_to_nat (anchor_target a)) 2"
    using asert_setup_exact [OF s, of ?ts] e by auto
  have "be_to_nat raw = be_to_nat ?raw"
    by (simp add: raw(3) asert_value_def scale_pow2_def clamp_target_def tab a_def mx target_values)
  then have eq: "raw = ?raw" using raw(2) by (simp add: be_to_nat_inject)
  have "canonicalize_compact_target ?raw = Ok ?t"
    unfolding canonicalize_compact_target_def by (subst target_to_compact.simps) code_simp
  then have "compute_expected_target NETWORK_MAGIC_TESTNET ?ts ?h = Ok ?t"
    using p a raw(1) eq by (simp add: compute_expected_target_def uses_dev_fixed_target_def rescue_active_def
        network_magics_distinct [symmetric])
  moreover have "be_to_nat (anchor_target a) < be_to_nat ?raw" "9000000 * be_to_nat ?t < be_to_nat ?raw"
    by (simp_all add: a_def target_values)
  ultimately show ?thesis using p a raw(1) eq by blast
qed

text \<open>
  The rescue encoder rounds down but not to the greatest representable value: clearing the
  sign bit of the mantissa loses up to 127 units of the third byte, so there is a compact
  value whose expansion lies strictly between the canonical target and the ASERT target.
\<close>
theorem rescue_not_greatest:
  "\<exists>t x y c. length t = 32 \<and> canonicalize_rescue_compact_target t = Ok y
    \<and> to_target (CompactTarget c) = Ok x \<and> be_to_nat y < be_to_nat x \<and> be_to_nat x \<le> be_to_nat t"
proof -
  let ?t = "[0, 1, 0, 0x80] @ replicate 28 0 :: bytes" and ?y = "[0, 1] @ replicate 30 0 :: bytes"
    and ?x = "[0, 1, 0, 0x7f] @ replicate 28 0 :: bytes"
  have "canonicalize_rescue_compact_target ?t = Ok ?y" by code_simp
  moreover have "to_target (CompactTarget 0x1f7f0001) = Ok ?x" by code_simp
  moreover have "be_to_nat ?y < be_to_nat ?x" "be_to_nat ?x \<le> be_to_nat ?t" by (simp_all add: target_values)
  moreover have "length ?t = 32" by simp
  ultimately show ?thesis by blast
qed

text \<open>
  C40. On regtest a block passes the proof-of-work check exactly when its claimed hash is the
  deterministic development hash of its preimage: that hash always meets the fixed target.
\<close>
theorem regtest_fast_pow:
  assumes "\<And>x. length (blake2b B x) = 32" "compute_expected_target NETWORK_MAGIC_REGTEST ts h = Ok t"
  shows "pow_check_for_network B E NETWORK_MAGIC_REGTEST preimage pow_hash seed t
    = Ok (pow_hash = fast_pow_hash B seed preimage)"
proof -
  have t: "t = [0, 0, 0xff, 0xff, 0x7f] @ replicate 27 0"
    using assms(2) by (simp add: compute_expected_target_def uses_dev_fixed_target_def network_setup_simps
        rescue_active_def network_magics_distinct [symmetric] target_values)
  define d where "d = drop 16 (blake2b B (FAST_POW_PREFIX @ seed @ preimage))"
  have hash: "fast_pow_hash B seed preimage = replicate 16 0 @ d" "length d = 16"
    by (simp_all add: fast_pow_hash_def d_def assms(1))
  have "be_to_nat (fast_pow_hash B seed preimage) < 2 ^ 128"
    using be_to_nat_less [of d] hash by (simp add: be_to_nat_append be_to_nat_zeros)
  moreover have "2 ^ 128 \<le> be_to_nat t" by (simp add: t target_values)
  ultimately have "hash_meets_target (fast_pow_hash B seed preimage) t"
    using hash t by (simp add: hash_meets_target_def target_gt_iff)
  moreover have "pow_validation_mode_for_network E NETWORK_MAGIC_REGTEST = Ok FastDevOnly"
    by (simp add: pow_validation_mode_for_network_def pow_validation_mode_for_network_inner_def
        classify_pow_validation_mode_def)
  ultimately show ?thesis by (auto simp: pow_check_for_network_def Let_def)
qed

theorem regtest_fast_pow_witness:
  "pow_check_for_network demo_backend \<lparr>rx_hash = (\<lambda>s p. Ok s), fast_regtest_mining_requested = False\<rparr>
    NETWORK_MAGIC_REGTEST [1] [2] [3] ([0, 0, 0xff, 0xff, 0x7f] @ replicate 27 0)
    = Ok ([2] = fast_pow_hash demo_backend [3] [1])"
  by (rule regtest_fast_pow [of _ "Timestamp 0" "BlockHeight 0"])
    (simp_all add: demo_backend_def compute_expected_target_def uses_dev_fixed_target_def network_setup_simps
      rescue_active_def network_magics_distinct [symmetric] target_values)

lemma max_target_value: "be_to_nat MAX_TARGET_BYTES < 2 ^ 240" "length MAX_TARGET_BYTES = 32"
proof -
  have eq: "MAX_TARGET_BYTES = 0 # 0 # replicate 30 0xff"
    by (simp add: MAX_TARGET_BYTES_def numeral_eq_Suc)
  show "be_to_nat MAX_TARGET_BYTES < 2 ^ 240" unfolding eq
    using be_to_nat_less [of "replicate 30 (0xff :: u8)"] by (simp add: be_to_nat_Cons)
  show "length MAX_TARGET_BYTES = 32" by (simp add: eq)
qed

text \<open>
  The work of a block is exact: for every target of at least \<open>2 ^ 112\<close> the scalar work is
  the integer quotient of the maximum target by the target, and at least one; the
  height-aware variant agrees with it wherever the mainnet rescue is not active.  Hence a
  harder target never has less work in this range.
\<close>
theorem difficulty_exact:
  assumes "2 ^ 112 \<le> be_to_nat t"
  shows "target_to_difficulty t = max 1 (be_to_nat MAX_TARGET_BYTES div be_to_nat t)
    \<and> (\<not> rescue_active n h \<longrightarrow> target_to_difficulty_for_network_height n h t = Ok (target_to_difficulty t))"
proof -
  define q where "q = be_to_nat MAX_TARGET_BYTES div be_to_nat t"
  have "be_to_nat MAX_TARGET_BYTES < 2 ^ 128 * be_to_nat t"
    using assms max_target_value(1) mult_le_mono2 [OF assms, of "2 ^ 128"] by simp
  then have q: "q < 2 ^ 128" unfolding q_def by (intro less_mult_imp_div_less)
  then have "q div 2 ^ 128 = 0" "low_u128 q = q" by (simp_all add: low_u128_def)
  moreover have "be_to_nat t \<noteq> 0" using assms by (metis le_zero_eq power_not_zero zero_neq_numeral)
  ultimately show ?thesis
    by (simp add: target_to_difficulty_def target_to_difficulty_u256_def target_to_difficulty_for_network_height_def
        u256_shr_def low_u128_def [of 0] Let_def max.commute flip: q_def)
qed

theorem difficulty_exact_witness:
  "target_to_difficulty MAX_TARGET_BYTES = 1
    \<and> target_to_difficulty_for_network_height NETWORK_MAGIC_TESTNET (BlockHeight 3) MAX_TARGET_BYTES = Ok 1"
proof -
  have "be_to_nat MAX_TARGET_BYTES = be_to_nat (0 # 0 # 255 # replicate 29 255)"
    by (simp add: MAX_TARGET_BYTES_def numeral_eq_Suc)
  then have ge: "2 ^ 112 \<le> be_to_nat MAX_TARGET_BYTES" by (simp add: be_to_nat_Cons)
  then have "be_to_nat MAX_TARGET_BYTES div be_to_nat MAX_TARGET_BYTES = 1" by (intro div_self) auto
  with difficulty_exact [OF ge, of NETWORK_MAGIC_TESTNET "BlockHeight 3"] show ?thesis
    by (simp add: rescue_active_def network_magics_distinct [symmetric])
qed

end
