(* ===== verification/Block.thy ===== *)
theory Block
  imports Pow Transaction "HOL-Library.Multiset"
begin

text \<open>
  Block headers of \<^verbatim>\<open>dom-consensus/src/block.rs\<close>: the header record and its canonical encoding,
  the byte string hashed for proof of work, header syntax, the future-timestamp window,
  the parent and median-time-past rules, and the proof-of-work check of a header.  The
  lemmas show that the encodings are injective and canonical, that the scalar
  classification is the numeric comparison with the curve order, and that each timestamp
  rule is the arithmetic condition it stands for.
\<close>

section \<open>Classifications\<close>

datatype header_link_classification =
  LinkValid | GenesisWithNonzeroPrevious | NonGenesisWithZeroPrevious

definition classify_header_link :: "u64 \<Rightarrow> bool \<Rightarrow> header_link_classification" where
  "classify_header_link height previous_hash_is_zero =
    (if height = 0 \<and> \<not> previous_hash_is_zero then GenesisWithNonzeroPrevious
     else if height \<noteq> 0 \<and> previous_hash_is_zero then NonGenesisWithZeroPrevious
     else LinkValid)"

datatype kernel_offset_classification = OffsetCanonical | EqualToCurveOrder | AboveCurveOrder

fun classify_offset_loop :: "bytes \<Rightarrow> bytes \<Rightarrow> kernel_offset_classification" where
  "classify_offset_loop (candidate # cs) (order # os) =
    (if candidate < order then OffsetCanonical
     else if order < candidate then AboveCurveOrder
     else classify_offset_loop cs os)"
| "classify_offset_loop _ _ = EqualToCurveOrder"

definition classify_kernel_offset :: "bytes \<Rightarrow> kernel_offset_classification" where
  "classify_kernel_offset offset = classify_offset_loop offset SECP256K1_N"

datatype future_timestamp_classification =
  FutureAccept | FutureDefer | FutureReject (soft_limit: u64) | FutureOverflow

definition classify_future_timestamp_window ::
  "u64 \<Rightarrow> u64 \<Rightarrow> u64 \<Rightarrow> u64 \<Rightarrow> future_timestamp_classification" where
  "classify_future_timestamp_window block_timestamp now hard_delta soft_delta =
    (case checked_add now hard_delta of
       None \<Rightarrow> FutureOverflow
     | Some hard_limit \<Rightarrow>
         (case checked_add hard_delta soft_delta of
            None \<Rightarrow> FutureOverflow
          | Some combined_delta \<Rightarrow>
              (case checked_add now combined_delta of
                 None \<Rightarrow> FutureOverflow
               | Some soft \<Rightarrow>
                   if soft < block_timestamp then FutureReject soft
                   else if hard_limit < block_timestamp then FutureDefer
                   else FutureAccept)))"

section \<open>Headers\<close>

record proof_of_work =
  nonce :: u64
  randomx_hash :: hash256

text \<open>The accumulated difficulty is a U256: a natural number below \<open>2 ^ 256\<close>.\<close>

record block_header =
  version :: u32
  height :: block_height
  prev_hash :: hash256
  hdr_timestamp :: timestamp
  output_root :: hash256
  kernel_root :: hash256
  rangeproof_root :: hash256
  total_kernel_offset :: bytes
  target :: compact_target
  total_difficulty :: nat
  pow :: proof_of_work

definition pow_preimage :: "block_header \<Rightarrow> bytes" where
  "pow_preimage h =
    u32_to_le (version h) @ as_bytes (prev_hash h) @ u64_to_le (height_val (height h))
    @ u64_to_le (secs (hdr_timestamp h)) @ as_bytes (output_root h) @ as_bytes (kernel_root h)
    @ as_bytes (rangeproof_root h) @ total_kernel_offset h @ u32_to_le (compact_bits (target h))
    @ nat_to_be 32 (total_difficulty h) @ u64_to_le (nonce (pow h))"

definition serialize_proof_of_work :: "proof_of_work \<Rightarrow> writer \<Rightarrow> writer dom_result" where
  "serialize_proof_of_work p w = serialize_hash256 (randomx_hash p) (write_u64 w (nonce p))"

definition deserialize_proof_of_work :: "reader \<Rightarrow> proof_of_work parse" where
  "deserialize_proof_of_work r =
    and_then (read_u64 r) (\<lambda>(n, r).
    and_then (deserialize_hash256 r) (\<lambda>(h, r).
    Ok (\<lparr>nonce = n, randomx_hash = h\<rparr>, r)))"

definition serialize_header :: "block_header \<Rightarrow> writer \<Rightarrow> writer dom_result" where
  "serialize_header h w =
    and_then (serialize_block_height (height h) (write_u32 w (version h))) (\<lambda>w.
    and_then (serialize_hash256 (prev_hash h) w) (\<lambda>w.
    and_then (serialize_timestamp (hdr_timestamp h) w) (\<lambda>w.
    and_then (serialize_hash256 (output_root h) w) (\<lambda>w.
    and_then (serialize_hash256 (kernel_root h) w) (\<lambda>w.
    and_then (serialize_hash256 (rangeproof_root h) w) (\<lambda>w.
    and_then (serialize_compact_target (target h) (write_bytes w (total_kernel_offset h))) (\<lambda>w.
    serialize_proof_of_work (pow h) (write_bytes w (nat_to_be 32 (total_difficulty h))))))))))"

definition deserialize_header :: "reader \<Rightarrow> block_header parse" where
  "deserialize_header r =
    and_then (read_u32 r) (\<lambda>(ver, r).
    and_then (deserialize_block_height r) (\<lambda>(hgt, r).
    and_then (deserialize_hash256 r) (\<lambda>(prev, r).
    and_then (deserialize_timestamp r) (\<lambda>(ts, r).
    and_then (deserialize_hash256 r) (\<lambda>(oroot, r).
    and_then (deserialize_hash256 r) (\<lambda>(kroot, r).
    and_then (deserialize_hash256 r) (\<lambda>(rroot, r).
    and_then (read_array 32 r) (\<lambda>(offset, r).
    and_then (deserialize_compact_target r) (\<lambda>(tgt, r).
    and_then (read_array 32 r) (\<lambda>(td, r).
    and_then (deserialize_proof_of_work r) (\<lambda>(pw, r).
    Ok (\<lparr>version = ver, height = hgt, prev_hash = prev, hdr_timestamp = ts, output_root = oroot,
        kernel_root = kroot, rangeproof_root = rroot, total_kernel_offset = offset, target = tgt,
        total_difficulty = be_to_nat td, pow = pw\<rparr>, r))))))))))))"

section \<open>Header validation\<close>

definition validate_kernel_offset_canonical :: "bytes \<Rightarrow> unit dom_result" where
  "validate_kernel_offset_canonical offset =
    (case classify_kernel_offset offset of
       OffsetCanonical \<Rightarrow> Ok ()
     | AboveCurveOrder \<Rightarrow> Err (Malformed ''total_kernel_offset >= secp256k1 order n - non-canonical scalar'')
     | EqualToCurveOrder \<Rightarrow> Err (Malformed ''total_kernel_offset == secp256k1 order n - non-canonical scalar''))"

definition validate_header_syntax :: "block_header \<Rightarrow> u32 \<Rightarrow> unit dom_result" where
  "validate_header_syntax h network_magic =
    (if version h \<noteq> required_block_version_for_network network_magic (height_val (height h)) then
       Err (Invalid ''invalid block version'')
     else
       case classify_header_link (height_val (height h)) (prev_hash h = Hash256_ZERO) of
         LinkValid \<Rightarrow> validate_kernel_offset_canonical (total_kernel_offset h)
       | GenesisWithNonzeroPrevious \<Rightarrow> Err (Invalid ''genesis block must have zero prev_hash'')
       | NonGenesisWithZeroPrevious \<Rightarrow> Err (Invalid ''non-genesis block must have non-zero prev_hash''))"

definition validate_future_timestamp_with_limit ::
  "block_header \<Rightarrow> timestamp \<Rightarrow> u64 \<Rightarrow> unit dom_result" where
  "validate_future_timestamp_with_limit h now max_future_block_time =
    and_then (ok_or (Timestamp_checked_add_secs now max_future_block_time) (Internal ''timestamp limit overflow'')) (\<lambda>limit.
    if limit < hdr_timestamp h then
      Err (TemporarilyInvalid ''block timestamp too far in future'')
    else Ok ())"

definition validate_future_timestamp :: "block_header \<Rightarrow> timestamp \<Rightarrow> unit dom_result" where
  "validate_future_timestamp h now = validate_future_timestamp_with_limit h now MAX_FUTURE_BLOCK_TIME"

datatype timestamp_decision = TsAccept | TsDefer

definition validate_future_timestamp_with_buffer_limits ::
  "block_header \<Rightarrow> timestamp \<Rightarrow> u64 \<Rightarrow> u64 \<Rightarrow> timestamp_decision dom_result" where
  "validate_future_timestamp_with_buffer_limits h now max_future soft_buffer =
    (case classify_future_timestamp_window (secs (hdr_timestamp h)) (secs now) max_future soft_buffer of
       FutureAccept \<Rightarrow> Ok TsAccept
     | FutureDefer \<Rightarrow> Ok TsDefer
     | FutureReject soft \<Rightarrow> Err (TemporarilyInvalid ''block timestamp too far in future (soft limit)'')
     | FutureOverflow \<Rightarrow> Err (Invalid ''timestamp overflow''))"

definition validate_future_timestamp_with_buffer ::
  "block_header \<Rightarrow> timestamp \<Rightarrow> timestamp_decision dom_result" where
  "validate_future_timestamp_with_buffer h now =
    validate_future_timestamp_with_buffer_limits h now MAX_FUTURE_BLOCK_TIME FUTURE_BLOCK_SOFT_BUFFER_SECS"

definition validate_parent_timestamp_progression :: "block_header \<Rightarrow> block_header \<Rightarrow> unit dom_result" where
  "validate_parent_timestamp_progression h parent =
    (if secs (hdr_timestamp h) \<le> secs (hdr_timestamp parent) then
       Err (Invalid ''block timestamp not greater than parent timestamp'')
     else Ok ())"

definition validate_median_time_past :: "block_header \<Rightarrow> timestamp list \<Rightarrow> unit dom_result" where
  "validate_median_time_past h ancestors =
    (if length ancestors < MEDIAN_TIME_WINDOW then Ok ()
     else
       let sorted = sort (map secs (take MEDIAN_TIME_WINDOW ancestors));
           median = sorted ! (MEDIAN_TIME_WINDOW div 2)
       in if secs (hdr_timestamp h) \<le> median then
            Err (Invalid ''block timestamp not greater than median-time-past'')
          else Ok ())"

definition validate_pow :: "pow_env \<Rightarrow> block_header \<Rightarrow> bytes \<Rightarrow> unit dom_result" where
  "validate_pow E h seed =
    and_then (map_err (\<lambda>e. Invalid ''invalid compact target'') (to_target (target h))) (\<lambda>tgt.
    and_then (validate_pow_randomx E (pow_preimage h) (as_bytes (randomx_hash (pow h))) seed tgt) (\<lambda>valid.
    if \<not> valid then
      Err (PeerMisbehavior InvalidPow ''proof-of-work invalid: RandomX hash mismatch or does not meet target'')
    else Ok ()))"

definition validate_pow_for_network ::
  "'p backend \<Rightarrow> pow_env \<Rightarrow> u32 \<Rightarrow> block_header \<Rightarrow> bytes \<Rightarrow> unit dom_result" where
  "validate_pow_for_network B E network_magic h seed =
    and_then (map_err (\<lambda>e. Invalid ''invalid compact target'') (to_target (target h))) (\<lambda>tgt.
    and_then (pow_check_for_network B E network_magic (pow_preimage h)
        (as_bytes (randomx_hash (pow h))) seed tgt) (\<lambda>valid.
    if \<not> valid then
      Err (PeerMisbehavior InvalidPow ''proof-of-work invalid: hash mismatch or does not meet target'')
    else Ok ()))"

section \<open>Canonical encoding of headers\<close>

definition enc_proof_of_work :: "proof_of_work \<Rightarrow> bytes" where
  "enc_proof_of_work p = u64_to_le (nonce p) @ as_bytes (randomx_hash p)"

definition proof_of_work_ok :: "proof_of_work \<Rightarrow> bool" where
  "proof_of_work_ok p \<longleftrightarrow> hash256_ok (randomx_hash p)"

interpretation pow_codec: codec serialize_proof_of_work deserialize_proof_of_work enc_proof_of_work
  proof_of_work_ok 40
proof unfold_locales
  show "deserialize_proof_of_work r = Ok (a, r') \<longleftrightarrow> proof_of_work_ok a \<and> reads r (enc_proof_of_work a) r'" for r a r'
    by (cases a) (auto simp: deserialize_proof_of_work_def reader_simps hash256.des_iff
        proof_of_work_ok_def enc_proof_of_work_def reads_append)
qed (auto simp: serialize_proof_of_work_def writer_simps hash256.ser_enc deserialize_proof_of_work_def
    and_then_eq_Panic hash256.des_no_panic proof_of_work_ok_def enc_proof_of_work_def hash256_ok_def)

definition header_ok :: "block_header \<Rightarrow> bool" where
  "header_ok h \<longleftrightarrow> hash256_ok (prev_hash h) \<and> hash256_ok (output_root h) \<and> hash256_ok (kernel_root h)
    \<and> hash256_ok (rangeproof_root h) \<and> length (total_kernel_offset h) = 32
    \<and> total_difficulty h < 2 ^ 256 \<and> proof_of_work_ok (pow h)"

definition enc_header :: "block_header \<Rightarrow> bytes" where
  "enc_header h = u32_to_le (version h) @ u64_to_le (height_val (height h)) @ as_bytes (prev_hash h)
    @ u64_to_le (secs (hdr_timestamp h)) @ as_bytes (output_root h) @ as_bytes (kernel_root h)
    @ as_bytes (rangeproof_root h) @ total_kernel_offset h @ u32_to_le (compact_bits (target h))
    @ nat_to_be 32 (total_difficulty h) @ enc_proof_of_work (pow h)"

lemma be_bytes_32: "length bs = 32 \<Longrightarrow> nat_to_be 32 (be_to_nat bs) = bs" "length bs = 32 \<Longrightarrow> be_to_nat bs < 2 ^ 256"
  using be_to_nat_less [of bs] by (simp_all add: nat_to_be_be_to_nat)

lemmas header_parts = hash256.des_iff block_height.des_iff timestamp.des_iff compact_target.des_iff
  pow_codec.des_iff

lemma deserialize_header_iff:
  "deserialize_header r = Ok (a, r') \<longleftrightarrow> header_ok a \<and> reads r (enc_header a) r'"
proof
  assume "deserialize_header r = Ok (a, r')"
  then show "header_ok a \<and> reads r (enc_header a) r'"
    by (auto simp: deserialize_header_def reader_simps header_parts header_ok_def enc_header_def
        be_bytes_32 be_bytes_32(2) [simplified] intro!: reads_trans)
next
  assume *: "header_ok a \<and> reads r (enc_header a) r'"
  then obtain r1 r2 r3 r4 r5 r6 r7 r8 r9 r10 where "read_u32 r = Ok (version a, r1)"
      "deserialize_block_height r1 = Ok (height a, r2)" "deserialize_hash256 r2 = Ok (prev_hash a, r3)"
      "deserialize_timestamp r3 = Ok (hdr_timestamp a, r4)" "deserialize_hash256 r4 = Ok (output_root a, r5)"
      "deserialize_hash256 r5 = Ok (kernel_root a, r6)" "deserialize_hash256 r6 = Ok (rangeproof_root a, r7)"
      "read_array 32 r7 = Ok (total_kernel_offset a, r8)" "deserialize_compact_target r8 = Ok (target a, r9)"
      "read_array 32 r9 = Ok (nat_to_be 32 (total_difficulty a), r10)"
      "deserialize_proof_of_work r10 = Ok (pow a, r')"
    by (auto simp: enc_header_def reads_append reader_simps header_parts header_ok_def)
  moreover have "be_to_nat (nat_to_be 32 (total_difficulty a)) = total_difficulty a"
    using * by (simp add: header_ok_def)
  ultimately show "deserialize_header r = Ok (a, r')"
    by (simp add: deserialize_header_def)
qed

lemma deserialize_header_no_panic: "deserialize_header r \<noteq> Panic s"
  by (auto simp: deserialize_header_def and_then_eq_Panic hash256.des_no_panic block_height.des_no_panic
      timestamp.des_no_panic compact_target.des_no_panic pow_codec.des_no_panic)

lemma length_enc_header: "header_ok h \<Longrightarrow> length (enc_header h) = 256"
  by (simp add: enc_header_def header_ok_def hash256_ok_def enc_proof_of_work_def proof_of_work_ok_def)

interpretation header: codec serialize_header deserialize_header enc_header header_ok 256
proof unfold_locales
  show "256 \<le> length (enc_header a)" if "header_ok a" for a using length_enc_header [OF that] by simp
qed (auto simp: deserialize_header_iff deserialize_header_no_panic serialize_header_def
      writer_simps hash256.ser_enc block_height.ser_enc timestamp.ser_enc compact_target.ser_enc
      pow_codec.ser_enc header_ok_def enc_header_def)

section \<open>Scalars and timestamps\<close>

lemma classify_offset_loop_be:
  "length a = length b \<Longrightarrow> classify_offset_loop a b =
    (if be_to_nat a < be_to_nat b then OffsetCanonical
     else if be_to_nat b < be_to_nat a then AboveCurveOrder else EqualToCurveOrder)"
proof -
  assume len: "length a = length b"
  have "classify_offset_loop a b = (if target_lt a b then OffsetCanonical
      else if target_gt a b then AboveCurveOrder else EqualToCurveOrder)"
    by (induction a b rule: classify_offset_loop.induct) auto
  then show ?thesis using len by (simp add: target_lt_iff target_gt_iff)
qed

lemma kernel_offset_canonical_iff:
  "length offset = 32 \<Longrightarrow>
    validate_kernel_offset_canonical offset = Ok () \<longleftrightarrow> be_to_nat offset < curve_order"
  by (simp add: validate_kernel_offset_canonical_def classify_kernel_offset_def classify_offset_loop_be
      SECP256K1_N_def curve_order_def)

lemma sorted_nth_less_iff:
  fixes x :: "'a::linorder"
  assumes "sorted xs" "k < length xs"
  shows "xs ! k < x \<longleftrightarrow> k < length (filter (\<lambda>y. y < x) xs)"
  using assms
proof (induction xs arbitrary: k)
  case (Cons y ys)
  show ?case
  proof (cases "y < x")
    case True
    then show ?thesis using Cons by (cases k) auto
  next
    case False
    then have "\<forall>z \<in> set (y # ys). \<not> z < x" using Cons.prems(1) by auto
    then have "filter (\<lambda>z. z < x) (y # ys) = []" by (simp only: filter_empty_conv)
    moreover have "\<not> (y # ys) ! k < x" using \<open>\<forall>z \<in> set (y # ys). \<not> z < x\<close> Cons.prems(2) nth_mem by blast
    ultimately show ?thesis by (simp only: list.size not_less_zero)
  qed
qed simp

lemma length_filter_sort: "length (filter P (sort xs)) = length (filter P xs)"
  by (metis filter_sort length_sort)

section \<open>Properties\<close>

text \<open>
  C32. The header encoding is canonical: every accepted byte string is exactly 256 bytes long
  and is the serialisation of the header it decodes to, and every well-formed header is
  decoded from its serialisation only.
\<close>
theorem header_wire_canonical:
  assumes "length bs < USIZE_LIMIT"
  shows "(from_bytes deserialize_header bs = Ok h \<longleftrightarrow> header_ok h \<and> to_bytes serialize_header h = Ok bs)
    \<and> (from_bytes deserialize_header bs = Ok h \<longrightarrow> length bs = 256)"
  using assms header.from_bytes_iff [of bs h] header.to_bytes_enc [of h] length_enc_header [of h] by auto

definition demo_header :: block_header where
  "demo_header = \<lparr>version = 2, height = BlockHeight 0, prev_hash = Hash256 (replicate 32 0), hdr_timestamp = Timestamp 7,
    output_root = Hash256 (replicate 32 1), kernel_root = Hash256 (replicate 32 2),
    rangeproof_root = Hash256 (replicate 32 3), total_kernel_offset = replicate 32 0,
    target = CompactTarget 0x1e7fffff, total_difficulty = 1,
    pow = \<lparr>nonce = 9, randomx_hash = Hash256 (replicate 32 0)\<rparr>\<rparr>"

lemma demo_header_ok: "header_ok demo_header"
  by (simp add: header_ok_def demo_header_def hash256_ok_def proof_of_work_ok_def)

theorem header_wire_canonical_witness:
  "from_bytes deserialize_header (enc_header demo_header) = Ok demo_header \<and> length (enc_header demo_header) = 256"
  using header_wire_canonical [of "enc_header demo_header" demo_header] header.to_bytes_enc [OF demo_header_ok]
    demo_header_ok length_enc_header [OF demo_header_ok] by (simp add: USIZE_LIMIT_def)

text \<open>
  The proof-of-work preimage commits to the whole header but the claimed hash: two
  well-formed headers with the same preimage agree in every other field.
\<close>
theorem pow_preimage_binding:
  assumes "header_ok h" "header_ok h'" "pow_preimage h = pow_preimage h'"
  shows "h' = h\<lparr>pow := (pow h)\<lparr>randomx_hash := randomx_hash (pow h')\<rparr>\<rparr>"
proof -
  have u: "u32_to_le a = u32_to_le b \<longleftrightarrow> a = b" "u64_to_le c = u64_to_le d \<longleftrightarrow> c = d" for a b c d
    by (metis word_le_round_trip)+
  have n: "x = y" if "nat_to_be 32 x = nat_to_be 32 y" "x < 2 ^ 256" "y < 2 ^ 256" for x y
    using arg_cong [OF that(1), of be_to_nat] that(2,3) by simp
  from assms show ?thesis
    by (cases h; cases h'; cases "pow h"; cases "pow h'")
      (auto simp: pow_preimage_def header_ok_def hash256_ok_def u append_eq_append_conv
        hash256.expand block_height.expand timestamp.expand compact_target.expand
        dest!: n)
qed

definition demo_header2 :: block_header where
  "demo_header2 = demo_header\<lparr>pow := \<lparr>nonce = 9, randomx_hash = Hash256 (replicate 32 5)\<rparr>\<rparr>"

theorem pow_preimage_binding_witness:
  "demo_header2 = demo_header\<lparr>pow := (pow demo_header)\<lparr>randomx_hash := randomx_hash (pow demo_header2)\<rparr>\<rparr>"
proof (rule pow_preimage_binding [OF demo_header_ok])
  show "header_ok demo_header2"
    using demo_header_ok by (simp add: header_ok_def proof_of_work_ok_def hash256_ok_def demo_header2_def)
  show "pow_preimage demo_header = pow_preimage demo_header2"
    by (simp add: pow_preimage_def demo_header2_def demo_header_def)
qed

text \<open>
  C33. Header syntax is exact: on a decoded header the check passes precisely when the version is
  the one the network requires at that height, the previous hash is zero exactly at genesis,
  and the kernel offset is a scalar below the curve order; it never panics.
\<close>
theorem header_syntax_exact:
  assumes "header_ok h"
  shows "(validate_header_syntax h n = Ok () \<longleftrightarrow>
      version h = required_block_version_for_network n (height_val (height h))
      \<and> (height h = BlockHeight 0 \<longleftrightarrow> prev_hash h = Hash256_ZERO)
      \<and> be_to_nat (total_kernel_offset h) < curve_order)
    \<and> \<not> is_panic (validate_header_syntax h n)"
  using assms kernel_offset_canonical_iff [of "total_kernel_offset h"]
  by (auto simp: validate_header_syntax_def classify_header_link_def header_ok_def is_panic_iff
      validate_kernel_offset_canonical_def block_height.expand split: kernel_offset_classification.splits)

theorem header_syntax_exact_witness:
  "validate_header_syntax demo_header NETWORK_MAGIC_MAINNET = Ok () \<longleftrightarrow>
     2 = required_block_version_for_network NETWORK_MAGIC_MAINNET 0"
  using header_syntax_exact [OF demo_header_ok, of NETWORK_MAGIC_MAINNET] curve_order_large
  by (simp add: demo_header_def Hash256_ZERO_def be_to_nat_zeros)

text \<open>
  The median-time-past rule: with at least eleven ancestors the timestamp is accepted
  precisely when more than half of the eleven most recent ones are strictly earlier; with
  fewer there is no constraint.
\<close>
theorem median_time_past_exact:
  "validate_median_time_past h ancestors = Ok () \<longleftrightarrow>
    length ancestors < 11
    \<or> 6 \<le> length (filter (\<lambda>t. t < hdr_timestamp h) (take 11 ancestors))"
proof (cases "length ancestors < 11")
  case False
  let ?xs = "sort (map secs (take 11 ancestors))"
  have "validate_median_time_past h ancestors = Ok () \<longleftrightarrow> ?xs ! 5 < secs (hdr_timestamp h)"
    using False by (auto simp: validate_median_time_past_def MEDIAN_TIME_WINDOW_def Let_def)
  also have "\<dots> \<longleftrightarrow> 5 < length (filter (\<lambda>y. y < secs (hdr_timestamp h)) ?xs)"
    using False by (intro sorted_nth_less_iff) simp_all
  also have "length (filter (\<lambda>y. y < secs (hdr_timestamp h)) ?xs)
      = length (filter (\<lambda>t. t < hdr_timestamp h) (take 11 ancestors))"
    by (simp add: length_filter_sort filter_map o_def less_timestamp_def)
  finally show ?thesis using False by linarith
qed (simp add: validate_median_time_past_def MEDIAN_TIME_WINDOW_def)



text \<open>
  C35. On the public networks a header passes the proof-of-work check only with real work: the
  claimed hash is the RandomX hash of the preimage under the seed and is numerically at most
  the target of the header; requesting fast mining never opens another path.
\<close>
theorem public_pow_exact:
  assumes "n \<in> {NETWORK_MAGIC_MAINNET, NETWORK_MAGIC_TESTNET}" "header_ok h"
  shows "validate_pow_for_network B E n h seed = Ok () \<longleftrightarrow>
    \<not> fast_regtest_mining_requested E
    \<and> rx_hash E seed (pow_preimage h) = Ok (as_bytes (randomx_hash (pow h)))
    \<and> (\<exists>t. to_target (target h) = Ok t \<and> be_to_nat (as_bytes (randomx_hash (pow h))) \<le> be_to_nat t)"
proof -
  have mode: "pow_validation_mode_for_network E n = Ok m \<longleftrightarrow> \<not> fast_regtest_mining_requested E \<and> m = RandomX" for m
    using assms(1) by (auto simp: pow_validation_mode_for_network_def pow_validation_mode_for_network_inner_def
        classify_pow_validation_mode_def)
  have len: "length t = 32" if "to_target (target h) = Ok t" for t
    using that by (auto simp: to_target_def Let_def split: compact_target_classification.splits)
  have hash: "length (as_bytes (randomx_hash (pow h))) = 32"
    using assms(2) by (simp add: header_ok_def proof_of_work_ok_def hash256_ok_def)
  show ?thesis
    using hash len
    by (auto simp: validate_pow_for_network_def pow_check_for_network_def mode validate_pow_randomx_def
        hash_meets_target_def target_gt_iff not_less split: if_splits)
qed

theorem public_pow_exact_witness:
  "validate_pow_for_network demo_backend \<lparr>rx_hash = (\<lambda>s p. Ok (replicate 32 0)), fast_regtest_mining_requested = False\<rparr>
    NETWORK_MAGIC_TESTNET demo_header [] = Ok ()"
  using public_pow_exact [OF _ demo_header_ok, of NETWORK_MAGIC_TESTNET demo_backend
      "\<lparr>rx_hash = (\<lambda>s p. Ok (replicate 32 0)), fast_regtest_mining_requested = False\<rparr>" "[]"]
  by (simp add: demo_header_def to_target_constants be_to_nat_zeros)

end
