(* ===== verification/Consensus.thy ===== *)
theory Consensus
  imports Block Pmmr
begin

text \<open>
  Transaction and block validation of \<^verbatim>\<open>dom-consensus\<close> (lib.rs, block_full.rs, cutthrough.rs):
  kernel signatures, the ordered transaction checks, block weight and fees, the three
  accumulator roots with the body commitment, the complete block check and the cut-through
  utility.  The lemmas show that an accepted transaction or block conserves value up to an
  explicit break of the commitment scheme, that an accepted block spends and creates each
  commitment at most once, that its header determines its body, that validation of a decoded
  block never panics on counts or weights, and that cut-through removes exactly the matched
  pairs.
\<close>

section \<open>Transactions\<close>

record validation_context =
  current_height :: block_height
  chain_id :: bytes
  ctx_now :: timestamp

definition kernel_message :: "'p backend \<Rightarrow> transaction_kernel \<Rightarrow> hash256" where
  "kernel_message B k =
    blake2b_256_tagged B TAG_KERNEL_MSG
      (tk_features k # u64_to_le (noms (tk_fee k)) @ u64_to_le (tk_lock_height k))"

definition validate_kernel_signature ::
  "'p::ab_group_add backend \<Rightarrow> bytes \<Rightarrow> transaction_kernel \<Rightarrow> unit dom_result" where
  "validate_kernel_signature B chain k =
    and_then (map_err (\<lambda>_. Invalid ''kernel bad signature'')
        (SchnorrSignature_from_bytes B (tk_excess_signature k))) (\<lambda>sig.
    and_then (map_err (\<lambda>_. Invalid ''kernel bad excess point'')
        (PublicKey_from_compressed_bytes B (commit_bytes (tk_excess k)))) (\<lambda>pk.
    case schnorr_verify B sig pk chain (as_bytes (kernel_message B k)) of
      Ok True \<Rightarrow> Ok ()
    | Ok False \<Rightarrow> Err (PeerMisbehavior InvalidSignature ''kernel Schnorr signature invalid'')
    | Err (Internal msg) \<Rightarrow> Err (Internal (''kernel sig: '' @ msg))
    | Err e \<Rightarrow> Err e
    | Panic s \<Rightarrow> Panic s))"

definition validate_kernel_signatures ::
  "'p::ab_group_add backend \<Rightarrow> transaction \<Rightarrow> bytes \<Rightarrow> unit dom_result" where
  "validate_kernel_signatures B tx chain = for_each (validate_kernel_signature B chain) (kernels tx)"

definition validate_transaction ::
  "'p::ab_group_add backend \<Rightarrow> transaction \<Rightarrow> validation_context \<Rightarrow> unit dom_result" where
  "validate_transaction B tx ctx =
    and_then (validate_transaction_structure tx) (\<lambda>_.
    and_then (validate_lock_heights tx (current_height ctx)) (\<lambda>_.
    and_then (validate_range_proofs B tx) (\<lambda>_.
    and_then (validate_kernel_signatures B tx (chain_id ctx)) (\<lambda>_.
    and_then (total_fee tx) (\<lambda>_.
    and_then (Transaction_weight tx) (\<lambda>w.
    if MAX_TX_WEIGHT < w then Err (Invalid ''tx weight > MAX_TX_WEIGHT'')
    else validate_balance_equation B tx))))))"

section \<open>Block weight and work\<close>

definition block_weight :: "coinbase_transaction \<Rightarrow> transaction list \<Rightarrow> u32 dom_result" where
  "block_weight cb txs =
    and_then (ok_or (checked_add (CoinbaseKernel_weight (cb_kernel cb)) WEIGHT_OUTPUT)
        (Invalid ''block weight overflow'')) (\<lambda>start.
    try_fold (\<lambda>acc tx. and_then (Transaction_weight tx) (\<lambda>w.
      ok_or (checked_add acc w) (Invalid ''block weight overflow''))) start txs)"

definition checked_accumulated_difficulty :: "nat \<Rightarrow> nat \<Rightarrow> nat dom_result" where
  "checked_accumulated_difficulty parent_total block_difficulty =
    (if parent_total + block_difficulty < 2 ^ 256 then Ok (parent_total + block_difficulty)
     else Err (Invalid ''total_difficulty overflow''))"

section \<open>Block transactions\<close>

definition add_validated_fees ::
  "'p::ab_group_add backend \<Rightarrow> validation_context \<Rightarrow> u64 \<Rightarrow> transaction \<Rightarrow> u64 dom_result" where
  "add_validated_fees B ctx acc tx =
    and_then (validate_transaction B tx ctx) (\<lambda>_.
    and_then (map_err (\<lambda>_. Invalid ''tx fee error'') (total_fee tx)) (\<lambda>tx_fees.
    ok_or (checked_add acc tx_fees) (Invalid ''block total fees overflow'')))"

definition validate_block_transactions ::
  "'p::ab_group_add backend \<Rightarrow> transaction list \<Rightarrow> coinbase_transaction \<Rightarrow> validation_context
    \<Rightarrow> block_height \<Rightarrow> u64 \<Rightarrow> unit dom_result" where
  "validate_block_transactions B txs cb ctx block_height claimed_total_fees =
    and_then (block_weight cb txs) (\<lambda>total_block_weight.
    and_then (try_fold (add_validated_fees B ctx) 0 txs) (\<lambda>actual_total_fees.
    if MAX_BLOCK_WEIGHT < total_block_weight then Err (Invalid ''block weight > MAX_BLOCK_WEIGHT'')
    else
      and_then (CoinbaseTransaction_validate B cb block_height actual_total_fees (chain_id ctx)) (\<lambda>_.
      if claimed_total_fees \<noteq> actual_total_fees then Err (Invalid ''claimed fees != actual fees'')
      else Ok ())))"

section \<open>Accumulator roots\<close>

definition BlockHeight_GENESIS :: block_height where
  "BlockHeight_GENESIS = BlockHeight 0"

type_synonym block_mmrs = "pmmr \<times> pmmr \<times> pmmr"

definition push_output :: "'p backend \<Rightarrow> block_mmrs \<Rightarrow> transaction_output \<Rightarrow> block_mmrs dom_result" where
  "push_output B = (\<lambda>(om, km, rm) ou.
    and_then (pmmr_push B om (commit_bytes (to_commitment ou))) (\<lambda>(_, om).
    and_then (pmmr_push B rm (to_proof ou)) (\<lambda>(_, rm).
    Ok (om, km, rm))))"

definition push_kernel :: "'p backend \<Rightarrow> block_mmrs \<Rightarrow> bytes \<Rightarrow> block_mmrs dom_result" where
  "push_kernel B = (\<lambda>(om, km, rm) excess.
    and_then (pmmr_push B km excess) (\<lambda>(_, km).
    Ok (om, km, rm)))"

definition push_transaction :: "'p backend \<Rightarrow> block_mmrs \<Rightarrow> transaction \<Rightarrow> block_mmrs dom_result" where
  "push_transaction B mmrs tx =
    and_then (try_fold (push_output B) mmrs (outputs tx)) (\<lambda>mmrs.
    try_fold (push_kernel B) mmrs (map (\<lambda>k. commit_bytes (tk_excess k)) (kernels tx)))"

definition compute_unbound_block_pmmr_roots ::
  "'p backend \<Rightarrow> coinbase_transaction \<Rightarrow> transaction list \<Rightarrow> (hash256 \<times> hash256 \<times> hash256) dom_result" where
  "compute_unbound_block_pmmr_roots B cb txs =
    and_then (push_output B (pmmr_new, pmmr_new, pmmr_new) (cb_output cb)) (\<lambda>mmrs.
    and_then (push_kernel B mmrs (commit_bytes (ck_excess (cb_kernel cb)))) (\<lambda>mmrs.
    and_then (try_fold (push_transaction B) mmrs txs) (\<lambda>(om, km, rm).
    and_then (pmmr_root B om) (\<lambda>oroot.
    and_then (pmmr_root B km) (\<lambda>kroot.
    and_then (pmmr_root B rm) (\<lambda>rroot.
    Ok (oroot, kroot, rroot)))))))"

definition canonical_block_body_bytes :: "coinbase_transaction \<Rightarrow> transaction list \<Rightarrow> bytes dom_result" where
  "canonical_block_body_bytes cb txs =
    and_then (serialize_coinbase cb writer_new) (\<lambda>w.
    and_then (write_list serialize_transaction w txs) (\<lambda>w.
    Ok (writer_finish w)))"

definition compute_block_body_commitment ::
  "'p backend \<Rightarrow> coinbase_transaction \<Rightarrow> transaction list \<Rightarrow> hash256 dom_result" where
  "compute_block_body_commitment B cb txs =
    and_then (canonical_block_body_bytes cb txs) (\<lambda>body.
    Ok (blake2b_256_tagged B TAG_BLOCK_BODY_COMMITMENT body))"

definition compute_block_pmmr_roots ::
  "'p backend \<Rightarrow> block_height \<Rightarrow> coinbase_transaction \<Rightarrow> transaction list
    \<Rightarrow> (hash256 \<times> hash256 \<times> hash256) dom_result" where
  "compute_block_pmmr_roots B block_height cb txs =
    and_then (compute_unbound_block_pmmr_roots B cb txs) (\<lambda>(oroot, kroot, rroot).
    if block_height = BlockHeight_GENESIS then Ok (oroot, kroot, rroot)
    else
      and_then (compute_block_body_commitment B cb txs) (\<lambda>body_commitment.
      Ok (oroot, kroot,
        blake2b_256_tagged B TAG_BOUND_RANGEPROOF_ROOT (as_bytes rroot @ as_bytes body_commitment))))"

definition derive_chain_id :: "'p backend \<Rightarrow> u32 \<Rightarrow> hash256 \<Rightarrow> hash256" where
  "derive_chain_id B network_magic genesis_hash =
    blake2b_256_tagged B TAG_CHAIN_ID (u32_to_be network_magic @ as_bytes genesis_hash)"

section \<open>Blocks\<close>

record block =
  header :: block_header
  coinbase :: coinbase_transaction
  transactions :: "transaction list"

definition serialize_block :: "block \<Rightarrow> writer \<Rightarrow> writer dom_result" where
  "serialize_block b w =
    and_then (serialize_header (header b) w) (\<lambda>w.
    and_then (serialize_coinbase (coinbase b) w) (\<lambda>w.
    write_list serialize_transaction w (transactions b)))"

definition deserialize_block :: "'p backend \<Rightarrow> reader \<Rightarrow> block parse" where
  "deserialize_block B r =
    and_then (deserialize_header r) (\<lambda>(h, r).
    and_then (deserialize_coinbase B r) (\<lambda>(cb, r).
    and_then (read_list (deserialize_transaction B) 44 r MAX_BLOCK_TXS) (\<lambda>(txs, r).
    Ok (\<lparr>header = h, coinbase = cb, transactions = txs\<rparr>, r))))"

definition Block_weight :: "block \<Rightarrow> u32 dom_result" where
  "Block_weight b = block_weight (coinbase b) (transactions b)"

definition total_fees :: "block \<Rightarrow> u64 dom_result" where
  "total_fees b =
    try_fold (\<lambda>acc tx. and_then (total_fee tx) (\<lambda>fee.
      ok_or (checked_add acc fee) (Invalid ''block fee overflow''))) 0 (transactions b)"

definition validate_pmmr_roots :: "'p backend \<Rightarrow> block \<Rightarrow> unit dom_result" where
  "validate_pmmr_roots B b =
    and_then (compute_block_pmmr_roots B (height (header b)) (coinbase b) (transactions b)) (\<lambda>(oroot, kroot, rroot).
    if oroot \<noteq> output_root (header b) then Err (Invalid ''output_root mismatch'')
    else if kroot \<noteq> kernel_root (header b) then Err (Invalid ''kernel_root mismatch'')
    else if rroot \<noteq> rangeproof_root (header b) then Err (Invalid ''rangeproof_root mismatch'')
    else Ok ())"

definition block_inputs :: "block \<Rightarrow> commitment list" where
  "block_inputs b = concat (map (\<lambda>tx. map ti_commitment (inputs tx)) (transactions b))"

definition block_outputs :: "block \<Rightarrow> commitment list" where
  "block_outputs b = to_commitment (cb_output (coinbase b))
    # concat (map (\<lambda>tx. map to_commitment (outputs tx)) (transactions b))"

definition block_excesses :: "block \<Rightarrow> commitment list" where
  "block_excesses b = ck_excess (cb_kernel (coinbase b))
    # concat (map (\<lambda>tx. map tk_excess (kernels tx)) (transactions b))"

definition validate_block_for_network ::
  "'p::ab_group_add backend \<Rightarrow> block \<Rightarrow> validation_context \<Rightarrow> u32 \<Rightarrow> unit dom_result" where
  "validate_block_for_network B b ctx network_magic =
    and_then (validate_header_syntax (header b) network_magic) (\<lambda>_.
    and_then (Block_weight b) (\<lambda>weight.
    if MAX_BLOCK_WEIGHT < weight then Err (Invalid ''block weight > MAX_BLOCK_WEIGHT'')
    else if MAX_BLOCK_TXS < length (transactions b) then Err (Invalid ''too many transactions'')
    else
      and_then (insert_all_new {} (map commit_bytes (block_inputs b))
          (Invalid ''duplicate input commitment across block'')) (\<lambda>_.
      and_then (insert_all_new {} (map commit_bytes (block_outputs b))
          (Invalid ''duplicate output commitment across block'')) (\<lambda>seen_outputs.
      and_then (for_each (\<lambda>c.
          if commit_bytes c \<in> seen_outputs then
            Err (Invalid ''block-level cut-through violation: input commitment matches a block output'')
          else Ok ()) (block_inputs b)) (\<lambda>_.
      and_then (total_fees b) (\<lambda>fees.
      and_then (validate_block_transactions B (transactions b) (coinbase b) ctx (height (header b)) fees) (\<lambda>_.
      and_then (verify_block_balance_equation B (block_outputs b) (block_inputs b) (block_excesses b)
          (total_kernel_offset (header b)) (noms (block_reward (height (header b))))) (\<lambda>valid.
      if \<not> valid then Err (Invalid ''aggregate block balance equation does not hold'')
      else validate_pmmr_roots B b))))))))"

definition validate_block :: "'p::ab_group_add backend \<Rightarrow> block \<Rightarrow> validation_context \<Rightarrow> unit dom_result" where
  "validate_block B b ctx = validate_block_for_network B b ctx NETWORK_MAGIC_MAINNET"

section \<open>Cut-through\<close>

definition apply_cut_through ::
  "transaction list \<Rightarrow> (transaction_input list \<times> transaction_output list) dom_result" where
  "apply_cut_through txs =
    (let all_inputs = concat (map inputs txs);
         all_outputs = concat (map outputs txs);
         icommit = (\<lambda>i. commit_bytes (ti_commitment i));
         ocommit = (\<lambda>ou. commit_bytes (to_commitment ou))
     in
     and_then (insert_all_new {} (map icommit all_inputs) (Invalid ''duplicate input before cut-through'')) (\<lambda>_.
     and_then (insert_all_new {} (map ocommit all_outputs) (Invalid ''duplicate output before cut-through'')) (\<lambda>_.
     let eliminated = set (map icommit all_inputs) \<inter> set (map ocommit all_outputs);
         outputs_after = filter (\<lambda>ou. ocommit ou \<notin> eliminated) all_outputs;
         inputs_after = filter (\<lambda>i. icommit i \<notin> eliminated) all_inputs
     in
     and_then (insert_all_new {} (map icommit inputs_after) (Invalid ''duplicate input after cut-through'')) (\<lambda>_.
     and_then (insert_all_new {} (map ocommit outputs_after) (Invalid ''duplicate output after cut-through'')) (\<lambda>_.
     Ok (inputs_after, outputs_after))))))"

section \<open>Canonical encoding of blocks\<close>

definition body_ok :: "'p backend \<Rightarrow> coinbase_transaction \<Rightarrow> transaction list \<Rightarrow> bool" where
  "body_ok B cb txs \<longleftrightarrow> coinbase_ok B cb \<and> length txs \<le> MAX_BLOCK_TXS \<and> list_all (transaction_ok B) txs"

definition block_ok :: "'p backend \<Rightarrow> block \<Rightarrow> bool" where
  "block_ok B b \<longleftrightarrow> header_ok (header b) \<and> body_ok B (coinbase b) (transactions b)"

definition enc_body :: "coinbase_transaction \<Rightarrow> transaction list \<Rightarrow> bytes" where
  "enc_body cb txs = enc_coinbase cb @ enc_list enc_transaction txs"

definition enc_block :: "block \<Rightarrow> bytes" where
  "enc_block b = enc_header (header b) @ enc_body (coinbase b) (transactions b)"

interpretation tx_list: codec "\<lambda>xs w. write_list serialize_transaction w xs"
  "\<lambda>r. read_list (deserialize_transaction B) 44 r MAX_BLOCK_TXS" "enc_list enc_transaction"
  "\<lambda>xs. length xs \<le> MAX_BLOCK_TXS \<and> list_all (transaction_ok B) xs" 4
  for B :: "'p backend"
  by (rule tx.list_codec) (simp add: dom_consts)

lemmas block_parts = header.des_iff coinbase.des_iff tx_list.des_iff

lemma deserialize_block_iff:
  "deserialize_block B r = Ok (a, r') \<longleftrightarrow> block_ok B a \<and> reads r (enc_block a) r'"
proof
  assume "deserialize_block B r = Ok (a, r')"
  then show "block_ok B a \<and> reads r (enc_block a) r'"
    by (auto simp: deserialize_block_def block_parts block_ok_def body_ok_def enc_block_def enc_body_def
        intro!: reads_trans)
next
  assume "block_ok B a \<and> reads r (enc_block a) r'"
  then obtain r1 r2 where "deserialize_header r = Ok (header a, r1)"
      "deserialize_coinbase B r1 = Ok (coinbase a, r2)"
      "read_list (deserialize_transaction B) 44 r2 MAX_BLOCK_TXS = Ok (transactions a, r')"
    by (auto simp: enc_block_def enc_body_def reads_append block_parts block_ok_def body_ok_def)
  then show "deserialize_block B r = Ok (a, r')"
    by (simp add: deserialize_block_def)
qed

interpretation blk: codec serialize_block "deserialize_block B" enc_block "block_ok B" "256 + 176 + 4"
  for B :: "'p backend"
proof unfold_locales
  show "serialize_block a w = Ok (w\<lparr>wbuf := wbuf w @ enc_block a\<rparr>)" if "block_ok B a" for a w
    using that by (simp add: serialize_block_def block_ok_def body_ok_def header.ser_enc
        coinbase.ser_enc [of B] tx_list.ser_enc [of _ B] enc_block_def enc_body_def)
  show "256 + 176 + 4 \<le> length (enc_block a)" if "block_ok B a" for a
    using that header.enc_min [of "header a"] coinbase.enc_min [of B "coinbase a"]
      tx_list.enc_min [of "transactions a" B]
    by (simp add: block_ok_def body_ok_def enc_block_def enc_body_def)
  show "deserialize_block B r \<noteq> Panic s" for r s
    by (auto simp: deserialize_block_def and_then_eq_Panic header.des_no_panic coinbase.des_no_panic
        tx_list.des_no_panic)
qed (simp_all add: deserialize_block_iff)

lemma canonical_body_enc:
  "body_ok B cb txs \<Longrightarrow> canonical_block_body_bytes cb txs = Ok (enc_body cb txs)"
  by (simp add: canonical_block_body_bytes_def body_ok_def coinbase.ser_enc [of B] tx_list.ser_enc [of _ B]
      writer_new_def writer_finish_def enc_body_def)

lemma enc_body_inject:
  assumes "body_ok B cb txs" "body_ok B cb' txs'" "enc_body cb txs = enc_body cb' txs'"
    and "length (enc_body cb txs) < USIZE_LIMIT"
  shows "cb = cb' \<and> txs = txs'"
proof -
  have *: "cb = cb' \<and> enc_list enc_transaction txs = enc_list enc_transaction txs'"
    using assms by (intro coinbase.enc_prefix_free [where B = B]) (simp_all add: body_ok_def enc_body_def)
  moreover have "txs = txs' \<and> ([] :: bytes) = []"
    using assms * by (intro tx_list.enc_prefix_free [where B = B]) (simp_all add: body_ok_def enc_body_def)
  ultimately show ?thesis by simp
qed

section \<open>Weights and fees\<close>

definition tx_fees :: "transaction \<Rightarrow> nat" where
  "tx_fees tx = sum_list (map (\<lambda>k. unat (noms (tk_fee k))) (kernels tx))"

lemma total_fee_Ok: "total_fee tx = Ok f \<longleftrightarrow> unat f = tx_fees tx"
  by (simp add: total_fee_exact tx_fees_def)

lemma checked_sum_fold:
  fixes a f :: "'w::len word"
  shows "try_fold (\<lambda>acc x. and_then (g x) (\<lambda>v. ok_or (checked_add acc v) e)) a xs = Ok f
    \<longleftrightarrow> (\<exists>vs. try_map g xs = Ok vs \<and> unat f = unat a + sum_list (map unat vs))"
proof (induction xs arbitrary: a)
  case Nil
  show ?case by (auto simp: word_unat_eq_iff)
next
  case (Cons x xs)
  show ?case
  proof (cases "g x")
    case (Ok v)
    show ?thesis
    proof (cases "checked_add a v")
      case None
      then have "2 ^ LENGTH('w) \<le> unat a + unat v" by (simp add: checked_add_eq_None)
      then have "unat f < unat a + unat v" using unat_less_pow [of f] by (rule order.strict_trans2 [rotated])
      with None Ok show ?thesis by auto
    next
      case (Some b)
      then have "unat b = unat a + unat v" by (simp add: checked_add_eq_Some)
      with Some Ok Cons.IH [of b] show ?thesis by (auto simp: add.assoc)
    qed
  qed simp_all
qed

lemma total_fees_exact:
  "total_fees b = Ok f \<longleftrightarrow> unat f = sum_list (map tx_fees (transactions b))"
proof -
  have eq: "(\<exists>vs. try_map total_fee txs = Ok vs \<and> unat f = s + sum_list (map unat vs))
      \<longleftrightarrow> unat f = s + sum_list (map tx_fees txs)" for txs s
  proof (induction txs arbitrary: s)
    case (Cons tx txs)
    show ?case
    proof (cases "\<exists>v. total_fee tx = Ok v")
      case True
      then obtain v where v: "total_fee tx = Ok v" "unat v = tx_fees tx" by (auto simp: total_fee_Ok)
      have "(\<exists>vs. try_map total_fee (tx # txs) = Ok vs \<and> unat f = s + sum_list (map unat vs))
          \<longleftrightarrow> (\<exists>vs. try_map total_fee txs = Ok vs \<and> unat f = (s + unat v) + sum_list (map unat vs))"
        using v(1) by (auto simp: add.assoc)
      also have "\<dots> \<longleftrightarrow> unat f = (s + unat v) + sum_list (map tx_fees txs)" by (rule Cons.IH)
      finally show ?thesis using v(2) by (simp add: add.assoc)
    next
      case False
      then have "2 ^ 64 \<le> tx_fees tx" by (simp add: total_fee_defined [folded tx_fees_def] not_less)
      then have "unat f \<noteq> s + (tx_fees tx + sum_list (map tx_fees txs))"
        using unat_less_pow [of f] by simp
      with False show ?thesis by auto
    qed
  qed auto
  show ?thesis
    using eq [of "transactions b" 0] unfolding total_fees_def checked_sum_fold by simp
qed

lemma try_fold_no_panic:
  "(\<And>a x s. x \<in> set xs \<Longrightarrow> f a x \<noteq> Panic s) \<Longrightarrow> try_fold f a xs \<noteq> Panic s"
  by (induction xs arbitrary: a) (auto simp: and_then_eq_Panic)

lemma total_fees_no_panic: "total_fees b \<noteq> Panic s"
  unfolding total_fees_def by (rule try_fold_no_panic) (simp add: and_then_eq_Panic total_fee_no_panic)

lemma block_weight_exact:
  assumes "list_all tx_counts_ok txs"
  shows "block_weight cb txs = Ok w \<longleftrightarrow> unat w = 23 + sum_list (map tx_weight txs)"
proof -
  have tw: "unat (of_nat (tx_weight tx) :: u32) = tx_weight tx" if "tx_counts_ok tx" for tx
    using tx_weight_bound [OF that] by (simp add: unat_of_nat)
  have "try_map Transaction_weight txs = Ok (map (\<lambda>tx. of_nat (tx_weight tx)) txs)"
    using assms by (induction txs) (simp_all add: Transaction_weight_Ok)
  moreover have "sum_list (map (unat \<circ> (\<lambda>tx. of_nat (tx_weight tx) :: u32)) txs) = sum_list (map tx_weight txs)"
    using assms tw by (induction txs) simp_all
  moreover have "checked_add (CoinbaseKernel_weight (cb_kernel cb)) WEIGHT_OUTPUT = Some 23"
    by (simp add: CoinbaseKernel_weight_def dom_consts checked_add_def)
  ultimately show ?thesis
    unfolding block_weight_def by (simp add: checked_sum_fold)
qed

lemma block_weight_no_panic: "list_all tx_counts_ok txs \<Longrightarrow> block_weight cb txs \<noteq> Panic s"
  unfolding block_weight_def
  by (auto simp: and_then_eq_Panic list_all_iff Transaction_weight_Ok dest!: try_fold_no_panic [THEN notE, rotated])

section \<open>Accepted transactions\<close>

definition transaction_valid :: "'p::ab_group_add backend \<Rightarrow> validation_context \<Rightarrow> transaction \<Rightarrow> bool" where
  "transaction_valid B ctx tx \<longleftrightarrow> structure_valid tx
    \<and> (\<forall>k \<in> set (kernels tx). tk_features k = KERNEL_FEAT_HEIGHT_LOCKED \<longrightarrow> tk_lock_height k \<le> height_val (current_height ctx))
    \<and> (\<forall>ou \<in> set (outputs tx). validate_output_proof B ou = Ok ())
    \<and> (\<forall>k \<in> set (kernels tx). validate_kernel_signature B (chain_id ctx) k = Ok ())
    \<and> validate_balance_equation B tx = Ok ()"

lemma validate_transaction_Ok:
  "validate_transaction B tx ctx = Ok () \<longleftrightarrow> transaction_valid B ctx tx"
proof (cases "structure_valid tx")
  case True
  then obtain f where f: "total_fee tx = Ok f" using total_fee_defined [of tx] by (auto simp: structure_valid_def)
  have c: "tx_counts_ok tx" and w: "tx_weight tx \<le> 4000" using True by (auto simp: structure_valid_def)
  have "\<not> MAX_TX_WEIGHT < of_nat (tx_weight tx)"
    using w by (simp add: word_less_nat_alt unat_of_nat dom_consts)
  with True f Transaction_weight_Ok [OF c] show ?thesis
    by (auto simp: validate_transaction_def transaction_valid_def validate_structure_Ok
        validate_lock_heights_def validate_range_proofs_def validate_kernel_signatures_def not_less split: if_splits)
qed (auto simp: validate_transaction_def transaction_valid_def validate_structure_Ok)

lemma validate_balance_valid:
  assumes "validate_balance_equation B tx = Ok ()"
  shows "\<exists>fee. unat fee = tx_fees tx \<and> verify_balance_equation B (map to_commitment (outputs tx))
      (map ti_commitment (inputs tx)) (map tk_excess (kernels tx)) (tx_offset tx) fee = Ok True"
  using assms by (auto simp: validate_balance_equation_Ok total_fee_Ok)

lemma structure_valid_counts:
  "structure_valid tx \<Longrightarrow> length (inputs tx) \<le> 255 \<and> length (outputs tx) \<le> 255 \<and> length (kernels tx) \<le> 16"
  by (simp add: structure_valid_def tx_counts_ok_def counts_within_limits_def dom_consts)

lemma transaction_conserves:
  assumes law: "mul_law B" "h_point B = Ok H" and valid: "transaction_valid B ctx tx"
    and outs: "list_all2 (opens B H) (map to_commitment (outputs tx)) oo"
    and ins: "list_all2 (opens B H) (map ti_commitment (inputs tx)) ii"
    and excs: "list_all2 (opens_excess B) (map tk_excess (kernels tx)) ee"
  shows "value_sum oo + tx_fees tx = value_sum ii
    \<or> double_opening B H (value_sum oo + tx_fees tx, blind_sum oo)
        (value_sum ii, blind_sum ii + sum_list ee + offset_scalar B (tx_offset tx))"
proof -
  obtain fee where fee: "unat fee = tx_fees tx" "verify_balance_equation B (map to_commitment (outputs tx))
      (map ti_commitment (inputs tx)) (map tk_excess (kernels tx)) (tx_offset tx) fee = Ok True"
    using validate_balance_valid [of B tx] valid by (auto simp: transaction_valid_def)
  have "length (outputs tx) \<le> 255" "length (inputs tx) \<le> 255"
    using valid structure_valid_counts [of tx] by (auto simp: transaction_valid_def)
  then show ?thesis
    using balance_conserves [OF law outs ins excs _ _ fee(2)] fee(1) by simp
qed

section \<open>Accepted blocks\<close>

definition block_fees :: "block \<Rightarrow> nat" where
  "block_fees b = sum_list (map tx_fees (transactions b))"

definition coinbase_valid :: "'p::ab_group_add backend \<Rightarrow> validation_context \<Rightarrow> block \<Rightarrow> bool" where
  "coinbase_valid B ctx b \<longleftrightarrow>
    (\<exists>fees. unat fees = block_fees b
      \<and> CoinbaseTransaction_validate B (coinbase b) (height (header b)) fees (chain_id ctx) = Ok ())"

definition block_valid :: "'p::ab_group_add backend \<Rightarrow> validation_context \<Rightarrow> u32 \<Rightarrow> block \<Rightarrow> bool" where
  "block_valid B ctx n b \<longleftrightarrow>
    validate_header_syntax (header b) n = Ok ()
    \<and> 23 + sum_list (map tx_weight (transactions b)) \<le> 40000 \<and> length (transactions b) \<le> 5000
    \<and> distinct (map commit_bytes (block_inputs b)) \<and> distinct (map commit_bytes (block_outputs b))
    \<and> set (map commit_bytes (block_inputs b)) \<inter> set (map commit_bytes (block_outputs b)) = {}
    \<and> (\<forall>tx \<in> set (transactions b). transaction_valid B ctx tx)
    \<and> coinbase_valid B ctx b
    \<and> verify_block_balance_equation B (block_outputs b) (block_inputs b) (block_excesses b)
        (total_kernel_offset (header b)) (noms (block_reward (height (header b)))) = Ok True
    \<and> validate_pmmr_roots B b = Ok ()"

lemma add_validated_fees_fold:
  "try_fold (add_validated_fees B ctx) a txs = Ok f \<longleftrightarrow>
    (\<forall>tx \<in> set txs. transaction_valid B ctx tx) \<and> unat f = unat a + sum_list (map tx_fees txs)"
proof (induction txs arbitrary: a)
  case (Cons tx txs)
  show ?case
  proof (cases "\<exists>v w. total_fee tx = Ok v \<and> checked_add a v = Some w")
    case True
    then obtain v w where v: "total_fee tx = Ok v" "checked_add a v = Some w" by blast
    then have "unat v = tx_fees tx" "unat w = unat a + unat v"
      by (simp_all add: total_fee_Ok checked_add_eq_Some)
    with v Cons.IH [of w] show ?thesis
      by (auto simp: add_validated_fees_def validate_transaction_Ok add.assoc)
  next
    case False
    have "2 ^ 64 \<le> unat a + tx_fees tx"
    proof (rule ccontr)
      assume less: "\<not> 2 ^ 64 \<le> unat a + tx_fees tx"
      then obtain v where v: "total_fee tx = Ok v"
        using total_fee_defined [of tx] by (auto simp: tx_fees_def)
      with False have "checked_add a v = None" by (cases "checked_add a v") auto
      with less v show False by (simp add: total_fee_Ok checked_add_eq_None)
    qed
    then have "unat f \<noteq> unat a + (tx_fees tx + sum_list (map tx_fees txs))"
      using unat_less_pow [of f] by simp
    with False show ?thesis by (auto simp: add_validated_fees_def)
  qed
qed (auto simp: word_unat_eq_iff)

lemma validate_block_Ok:
  assumes "list_all tx_counts_ok (transactions b)"
  shows "validate_block_for_network B b ctx n = Ok () \<longleftrightarrow> block_valid B ctx n b"
proof -
  have w: "MAX_BLOCK_WEIGHT < (w :: u32) \<longleftrightarrow> 40000 < unat w" for w
    by (simp add: word_less_nat_alt dom_consts)
  have ex: "(\<exists>w :: u32. unat w = s \<and> unat w \<le> 40000) \<longleftrightarrow> s \<le> 40000" for s
    by (auto intro!: exI [of _ "of_nat s"] simp: unat_of_nat)
  have "validate_block_transactions B (transactions b) (coinbase b) ctx (height (header b)) fees = Ok () \<longleftrightarrow>
      23 + sum_list (map tx_weight (transactions b)) \<le> 40000
      \<and> (\<forall>tx \<in> set (transactions b). transaction_valid B ctx tx) \<and> unat fees = block_fees b
      \<and> CoinbaseTransaction_validate B (coinbase b) (height (header b)) fees (chain_id ctx) = Ok ()" for fees
    using ex [of "23 + sum_list (map tx_weight (transactions b))"]
    by (auto simp: validate_block_transactions_def block_weight_exact [OF assms] add_validated_fees_fold
        block_fees_def w not_less word_unat_eq_iff split: if_splits) (metis word_unat_eq_iff)
  note txs = this
  have guard: "and_then (Block_weight b) (\<lambda>x. if MAX_BLOCK_WEIGHT < x then Err e else g) = Ok ()
      \<longleftrightarrow> 23 + sum_list (map tx_weight (transactions b)) \<le> 40000 \<and> g = Ok ()" for e and g :: "unit dom_result"
    using ex [of "23 + sum_list (map tx_weight (transactions b))"]
    by (auto simp: Block_weight_def block_weight_exact [OF assms] w not_less split: if_splits)
  have cut: "(\<forall>x \<in> set (block_inputs b). commit_bytes x \<notin> commit_bytes ` set (block_outputs b))
      \<longleftrightarrow> set (map commit_bytes (block_inputs b)) \<inter> set (map commit_bytes (block_outputs b)) = {}"
    by auto
  show ?thesis
    unfolding validate_block_for_network_def block_valid_def coinbase_valid_def and_then_eq_Ok guard [unfolded and_then_eq_Ok] cut [symmetric]
    by (auto simp: MAX_BLOCK_TXS_def insert_all_new_Ok total_fees_exact block_fees_def txs split: if_splits)
qed

section \<open>The roots of a block body\<close>

definition output_leaves :: "coinbase_transaction \<Rightarrow> transaction list \<Rightarrow> bytes list" where
  "output_leaves cb txs = map (\<lambda>ou. commit_bytes (to_commitment ou)) (cb_output cb # concat (map outputs txs))"

definition proof_leaves :: "coinbase_transaction \<Rightarrow> transaction list \<Rightarrow> bytes list" where
  "proof_leaves cb txs = map to_proof (cb_output cb # concat (map outputs txs))"

definition kernel_leaves :: "coinbase_transaction \<Rightarrow> transaction list \<Rightarrow> bytes list" where
  "kernel_leaves cb txs = commit_bytes (ck_excess (cb_kernel cb))
    # map (\<lambda>k. commit_bytes (tk_excess k)) (concat (map kernels txs))"

definition mmrs_rep :: "'p backend \<Rightarrow> block_mmrs \<Rightarrow> transaction_output list \<Rightarrow> bytes list \<Rightarrow> bool" where
  "mmrs_rep B m ous ks \<longleftrightarrow> (case m of (om, km, rm) \<Rightarrow>
    pmmr_rep B om (forest_of (map (\<lambda>ou. commit_bytes (to_commitment ou)) ous))
    \<and> pmmr_rep B km (forest_of ks) \<and> pmmr_rep B rm (forest_of (map to_proof ous)))"

lemma push_rep:
  assumes "pmmr_rep B m (forest_of ps)" "length ps < 2 ^ 60"
  shows "\<exists>pos m'. pmmr_push B m p = Ok (pos, m') \<and> pmmr_rep B m' (forest_of (ps @ [p]))"
  using pmmr_push_refines [OF assms(1), of p] assms(2) by (auto simp: forest_of_count forest_of_append)

lemma push_output_rep:
  assumes "mmrs_rep B m ous ks" "length ous < 2 ^ 60"
  shows "\<exists>m'. push_output B m ou = Ok m' \<and> mmrs_rep B m' (ous @ [ou]) ks"
proof -
  obtain om km rm where m: "m = (om, km, rm)" by (cases m)
  obtain p1 om' p2 rm' where "pmmr_push B om (commit_bytes (to_commitment ou)) = Ok (p1, om')"
      "pmmr_rep B om' (forest_of (map (\<lambda>ou. commit_bytes (to_commitment ou)) ous @ [commit_bytes (to_commitment ou)]))"
      "pmmr_push B rm (to_proof ou) = Ok (p2, rm')" "pmmr_rep B rm' (forest_of (map to_proof ous @ [to_proof ou]))"
    using assms push_rep [of B om "map (\<lambda>ou. commit_bytes (to_commitment ou)) ous" "commit_bytes (to_commitment ou)"]
      push_rep [of B rm "map to_proof ous" "to_proof ou"]
    by (auto simp: m mmrs_rep_def)
  then show ?thesis using assms by (simp add: push_output_def m mmrs_rep_def)
qed

lemma push_kernel_rep:
  assumes "mmrs_rep B m ous ks" "length ks < 2 ^ 60"
  shows "\<exists>m'. push_kernel B m k = Ok m' \<and> mmrs_rep B m' ous (ks @ [k])"
  using assms push_rep [of B "fst (snd m)" ks k]
  by (cases m) (auto simp: push_kernel_def mmrs_rep_def)

lemma push_outputs_rep:
  assumes "mmrs_rep B m ous ks" "length ous + length os < 2 ^ 60"
  shows "\<exists>m'. try_fold (push_output B) m os = Ok m' \<and> mmrs_rep B m' (ous @ os) ks"
  using assms
proof (induction os arbitrary: m ous)
  case (Cons ou os)
  obtain m' where "push_output B m ou = Ok m'" "mmrs_rep B m' (ous @ [ou]) ks"
    using push_output_rep [OF Cons.prems(1), of ou] Cons.prems(2) by auto
  with Cons.IH [of m' "ous @ [ou]"] Cons.prems(2) show ?case by simp
qed simp

lemma push_kernels_rep:
  assumes "mmrs_rep B m ous ks" "length ks + length es < 2 ^ 60"
  shows "\<exists>m'. try_fold (push_kernel B) m es = Ok m' \<and> mmrs_rep B m' ous (ks @ es)"
  using assms
proof (induction es arbitrary: m ks)
  case (Cons e es)
  obtain m' where "push_kernel B m e = Ok m'" "mmrs_rep B m' ous (ks @ [e])"
    using push_kernel_rep [OF Cons.prems(1), of e] Cons.prems(2) by auto
  with Cons.IH [of m' "ks @ [e]"] Cons.prems(2) show ?case by simp
qed simp

lemma push_transactions_rep:
  assumes "mmrs_rep B m ous ks" "length ous + length (concat (map outputs txs)) < 2 ^ 60"
    "length ks + length (concat (map kernels txs)) < 2 ^ 60"
  shows "\<exists>m'. try_fold (push_transaction B) m txs = Ok m' \<and> mmrs_rep B m' (ous @ concat (map outputs txs))
    (ks @ map (\<lambda>k. commit_bytes (tk_excess k)) (concat (map kernels txs)))"
  using assms
proof (induction txs arbitrary: m ous ks)
  case (Cons tx txs)
  obtain m1 where m1: "try_fold (push_output B) m (outputs tx) = Ok m1" "mmrs_rep B m1 (ous @ outputs tx) ks"
    using push_outputs_rep [OF Cons.prems(1), of "outputs tx"] Cons.prems(2) by auto
  obtain m2 where m2: "try_fold (push_kernel B) m1 (map (\<lambda>k. commit_bytes (tk_excess k)) (kernels tx)) = Ok m2"
      "mmrs_rep B m2 (ous @ outputs tx) (ks @ map (\<lambda>k. commit_bytes (tk_excess k)) (kernels tx))"
    using push_kernels_rep [OF m1(2), of "map (\<lambda>k. commit_bytes (tk_excess k)) (kernels tx)"] Cons.prems(3) by auto
  show ?case
    using Cons.IH [OF m2(2)] Cons.prems(2,3) m1(1) m2(1) by (simp add: push_transaction_def)
qed simp

definition body_small :: "coinbase_transaction \<Rightarrow> transaction list \<Rightarrow> bool" where
  "body_small cb txs \<longleftrightarrow> length (output_leaves cb txs) < 2 ^ 60 \<and> length (kernel_leaves cb txs) < 2 ^ 60"

lemma compute_unbound_exact:
  assumes "body_small cb txs"
  shows "compute_unbound_block_pmmr_roots B cb txs =
    and_then (pmmr_root_of B (output_leaves cb txs)) (\<lambda>oroot.
    and_then (pmmr_root_of B (kernel_leaves cb txs)) (\<lambda>kroot.
    and_then (pmmr_root_of B (proof_leaves cb txs)) (\<lambda>rroot. Ok (oroot, kroot, rroot))))"
proof -
  have small: "Suc (length (concat (map outputs txs))) < 2 ^ 60" "Suc (length (concat (map kernels txs))) < 2 ^ 60"
    using assms by (simp_all add: body_small_def output_leaves_def kernel_leaves_def)
  have "mmrs_rep B (pmmr_new, pmmr_new, pmmr_new) [] []"
    using pmmr_rep_new by (simp add: mmrs_rep_def forest_of_def)
  then obtain m1 where m1: "push_output B (pmmr_new, pmmr_new, pmmr_new) (cb_output cb) = Ok m1"
      "mmrs_rep B m1 [cb_output cb] []"
    using push_output_rep [of B "(pmmr_new, pmmr_new, pmmr_new)" "[]" "[]" "cb_output cb"] by auto
  obtain m2 where m2: "push_kernel B m1 (commit_bytes (ck_excess (cb_kernel cb))) = Ok m2"
      "mmrs_rep B m2 [cb_output cb] [commit_bytes (ck_excess (cb_kernel cb))]"
    using push_kernel_rep [OF m1(2), of "commit_bytes (ck_excess (cb_kernel cb))"] by auto
  obtain om km rm where m3: "try_fold (push_transaction B) m2 txs = Ok (om, km, rm)"
      "mmrs_rep B (om, km, rm) (cb_output cb # concat (map outputs txs)) (kernel_leaves cb txs)"
    using push_transactions_rep [OF m2(2), of txs] small by (auto simp: kernel_leaves_def)
  have root: "pmmr_root B m = pmmr_root_of B ps" if "pmmr_rep B m (forest_of ps)" "length ps < 2 ^ 60" for m ps
    using pmmr_root_refines [OF that(1)] pmmr_root_of_items [OF that(2), of B] that(2)
    by (simp add: forest_of_count forest_roots_items bag_peaks_items)
  have "pmmr_root B om = pmmr_root_of B (output_leaves cb txs)" "pmmr_root B km = pmmr_root_of B (kernel_leaves cb txs)"
      "pmmr_root B rm = pmmr_root_of B (proof_leaves cb txs)"
    using m3(2) assms by (auto intro!: root simp: mmrs_rep_def output_leaves_def proof_leaves_def body_small_def)
  then show ?thesis
    unfolding compute_unbound_block_pmmr_roots_def using m1(1) m2(1) m3(1) by simp
qed

lemma length_concat_le:
  "(\<And>x. x \<in> set xs \<Longrightarrow> length (f x) \<le> n) \<Longrightarrow> length (concat (map f xs)) \<le> length xs * n"
  by (induction xs) (auto intro: add_mono)

lemma body_ok_small:
  assumes "body_ok B cb txs"
  shows "body_small cb txs"
proof -
  have "length (outputs tx) \<le> 255" "length (kernels tx) \<le> 16" if "tx \<in> set txs" for tx
    using assms that by (auto simp: body_ok_def list_all_iff transaction_ok_def dom_consts)
  then have "length (concat (map outputs txs)) \<le> length txs * 255" "length (concat (map kernels txs)) \<le> length txs * 16"
    using length_concat_le [of txs outputs 255] length_concat_le [of txs kernels 16] by blast+
  then show ?thesis
    using assms by (simp add: body_small_def output_leaves_def kernel_leaves_def body_ok_def dom_consts)
qed

lemma compute_roots_body:
  assumes "body_ok B cb txs" "h \<noteq> BlockHeight 0"
  shows "\<exists>oroot kroot rroot. pmmr_root_of B (output_leaves cb txs) = Ok oroot
    \<and> pmmr_root_of B (kernel_leaves cb txs) = Ok kroot \<and> pmmr_root_of B (proof_leaves cb txs) = Ok rroot
    \<and> compute_block_pmmr_roots B h cb txs = Ok (oroot, kroot,
        blake2b_256_tagged B TAG_BOUND_RANGEPROOF_ROOT
          (as_bytes rroot @ as_bytes (blake2b_256_tagged B TAG_BLOCK_BODY_COMMITMENT (enc_body cb txs))))"
proof -
  have small: "body_small cb txs" using assms(1) by (rule body_ok_small)
  then have "length (proof_leaves cb txs) < 2 ^ 60"
    by (simp add: body_small_def output_leaves_def proof_leaves_def)
  with small show ?thesis
    using assms compute_unbound_exact [OF small, of B]
    by (simp add: body_small_def pmmr_root_of_items compute_block_pmmr_roots_def BlockHeight_GENESIS_def
        compute_block_body_commitment_def canonical_body_enc)
qed

lemma compute_roots_total: "body_ok B cb txs \<Longrightarrow> \<exists>x. compute_block_pmmr_roots B h cb txs = Ok x"
proof (cases "h = BlockHeight 0")
  case True
  assume ok: "body_ok B cb txs"
  then have small: "body_small cb txs" by (rule body_ok_small)
  then have "length (proof_leaves cb txs) < 2 ^ 60"
    by (simp add: body_small_def output_leaves_def proof_leaves_def)
  with small True show ?thesis
    using compute_unbound_exact [OF small, of B]
    by (simp add: body_small_def pmmr_root_of_items compute_block_pmmr_roots_def BlockHeight_GENESIS_def)
next
  case False
  assume "body_ok B cb txs"
  from compute_roots_body [OF this False] show ?thesis by blast
qed

definition body_hash_inputs :: "'p backend \<Rightarrow> block \<Rightarrow> bytes set" where
  "body_hash_inputs B b =
    {tagged_input TAG_BLOCK_BODY_COMMITMENT (enc_body (coinbase b) (transactions b))}
    \<union> (case pmmr_root_of B (proof_leaves (coinbase b) (transactions b)) of
         Ok rroot \<Rightarrow> {tagged_input TAG_BOUND_RANGEPROOF_ROOT
           (as_bytes rroot @ as_bytes (blake2b_256_tagged B TAG_BLOCK_BODY_COMMITMENT
             (enc_body (coinbase b) (transactions b))))}
       | _ \<Rightarrow> {})"

lemma body_tags: "length TAG_BLOCK_BODY_COMMITMENT < 65536" "length TAG_BOUND_RANGEPROOF_ROOT < 65536"
    "length TAG_CHAIN_ID < 65536"
  by (simp_all add: TAG_BLOCK_BODY_COMMITMENT_def TAG_BOUND_RANGEPROOF_ROOT_def TAG_CHAIN_ID_def ascii_def)

lemma header_determines_body:
  assumes ok: "block_ok B b" "block_ok B b'" and roots: "validate_pmmr_roots B b = Ok ()" "validate_pmmr_roots B b' = Ok ()"
    and eq: "header b = header b'" "height (header b) \<noteq> BlockHeight 0"
    and len: "\<And>x. length (blake2b B x) = 32" "length (enc_block b) < USIZE_LIMIT"
    and inj: "inj_on (blake2b B) (body_hash_inputs B b \<union> body_hash_inputs B b')"
  shows "b = b'"
proof -
  let ?S = "body_hash_inputs B b \<union> body_hash_inputs B b'"
  let ?c = "blake2b_256_tagged B TAG_BLOCK_BODY_COMMITMENT (enc_body (coinbase b) (transactions b))"
  let ?c' = "blake2b_256_tagged B TAG_BLOCK_BODY_COMMITMENT (enc_body (coinbase b') (transactions b'))"
  have body: "body_ok B (coinbase b) (transactions b)" "body_ok B (coinbase b') (transactions b')"
    using ok by (simp_all add: block_ok_def)
  have nz: "height (header b') \<noteq> BlockHeight 0" using eq by simp
  obtain r where r: "pmmr_root_of B (proof_leaves (coinbase b) (transactions b)) = Ok r"
      "rangeproof_root (header b) = blake2b_256_tagged B TAG_BOUND_RANGEPROOF_ROOT (as_bytes r @ as_bytes ?c)"
    using compute_roots_body [OF body(1) eq(2)] roots(1) by (auto simp: validate_pmmr_roots_def split: if_splits)
  obtain r' where r': "pmmr_root_of B (proof_leaves (coinbase b') (transactions b')) = Ok r'"
      "rangeproof_root (header b') = blake2b_256_tagged B TAG_BOUND_RANGEPROOF_ROOT (as_bytes r' @ as_bytes ?c')"
    using compute_roots_body [OF body(2) nz] roots(2) by (auto simp: validate_pmmr_roots_def split: if_splits)
  have "blake2b_256_tagged B TAG_BOUND_RANGEPROOF_ROOT (as_bytes r @ as_bytes ?c)
      = blake2b_256_tagged B TAG_BOUND_RANGEPROOF_ROOT (as_bytes r' @ as_bytes ?c')"
    using r(2) r'(2) eq(1) by simp
  from tagged_hash_eq [OF this inj] have "as_bytes r @ as_bytes ?c = as_bytes r' @ as_bytes ?c'"
    using r(1) r'(1) body_tags by (simp add: body_hash_inputs_def)
  then have "as_bytes ?c = as_bytes ?c'" using len(1) by (simp add: blake2b_256_tagged_def)
  then have "?c = ?c'" by (simp add: hash256.expand)
  from tagged_hash_eq [OF this inj] have "enc_body (coinbase b) (transactions b) = enc_body (coinbase b') (transactions b')"
    using body_tags by (simp add: body_hash_inputs_def)
  from enc_body_inject [OF body this] have "coinbase b = coinbase b' \<and> transactions b = transactions b'"
    using len(2) by (simp add: enc_block_def)
  with eq(1) show ?thesis by simp
qed

section \<open>Absence of panics\<close>

definition backend_total :: "'p::ab_group_add backend \<Rightarrow> bool" where
  "backend_total B \<longleftrightarrow> (\<exists>H. h_point B = Ok H \<and> point_mul B H (unat MAX_PROVABLE_VALUE) \<noteq> 0)
    \<and> (\<forall>P. P \<noteq> 0 \<longrightarrow> length (compress_point B P) = 33)
    \<and> \<not> is_panic (ffi_ready B) \<and> (\<forall>cs p x. \<not> is_panic (ffi_bulletproof_verify B cs p x))"

lemma complement_no_panic:
  assumes "backend_total B"
  shows "derive_complement_commitment B c MAX_PROVABLE_VALUE \<noteq> Panic s"
  using assms
  by (auto simp: derive_complement_commitment_def commit_unblinded_def Commitment_sub_def copy_33_def
      backend_total_def and_then_eq_Panic Commitment_to_projective_no_panic split: if_splits)

lemma output_proof_no_panic:
  assumes "backend_total B"
  shows "verify_output_proof B ou proof capsule \<noteq> Panic s"
  using assms complement_no_panic [OF assms]
  by (auto simp: verify_output_proof_def bp_verify_def bp_verify_with_extra_commit_def and_then_eq_Panic
      sec1_to_zkp_def backend_total_def is_panic_iff split: option.splits if_splits)

lemma envelope_no_panic: "range_proof_bytes ou \<noteq> Panic s" "recovery_capsule_of ou \<noteq> Panic s"
  by (auto simp: range_proof_bytes_def recovery_capsule_of_def RecoveryCapsule_from_bytes_def Let_def
      split: recovery_capsule_frontier.splits)

lemma signature_no_panic:
  "SchnorrSignature_from_bytes B bs \<noteq> Panic s" "PublicKey_from_compressed_bytes B bs \<noteq> Panic s"
  "schnorr_verify B sig pk chain m \<noteq> Panic s"
  by (auto simp: SchnorrSignature_from_bytes_def PublicKey_from_compressed_bytes_def schnorr_verify_def
      compressed_to_projective_def and_then_eq_Panic Let_def split: compressed_key_frontier.splits if_splits)

lemma balance_no_panic:
  assumes "backend_total B"
  shows "verify_balance_equation B outs ins excs offset fee \<noteq> Panic s"
    "verify_block_balance_equation B outs ins excs offset reward \<noteq> Panic s"
  using assms
  by (auto simp: verify_balance_equation_def verify_block_balance_equation_def and_then_eq_Panic
      sum_projective_no_panic backend_total_def Let_def split: if_splits)

lemma validate_transaction_no_panic:
  assumes total: "backend_total B" and counts: "tx_counts_ok tx"
  shows "validate_transaction B tx ctx \<noteq> Panic s"
proof -
  have "validate_lock_heights tx h \<noteq> Panic s" for h s
    unfolding validate_lock_heights_def by (rule for_each_not_Panic) simp
  moreover have "validate_range_proofs B tx \<noteq> Panic s" for s
    unfolding validate_range_proofs_def
    by (rule for_each_not_Panic)
      (auto simp: validate_output_proof_def and_then_eq_Panic envelope_no_panic output_proof_no_panic [OF total]
        split: result.splits bool.splits)
  moreover have "validate_kernel_signatures B tx c \<noteq> Panic s" for c s
    unfolding validate_kernel_signatures_def
    by (rule for_each_not_Panic)
      (auto simp: validate_kernel_signature_def and_then_eq_Panic signature_no_panic
        split: result.splits bool.splits dom_error.splits)
  moreover have "validate_balance_equation B tx \<noteq> Panic s" for s
    by (auto simp: validate_balance_equation_def and_then_eq_Panic parse_commitments_no_panic
        total_fee_no_panic balance_no_panic [OF total])
  ultimately show ?thesis
    by (auto simp: validate_transaction_def and_then_eq_Panic validate_structure_no_panic
        total_fee_no_panic Transaction_weight_Ok [OF counts])
qed

lemma coinbase_no_panic:
  assumes total: "backend_total B"
  shows "CoinbaseTransaction_validate B cb h fees chain \<noteq> Panic s"
proof -
  have "validate_coinbase_signature B cb chain \<noteq> Panic s" for s
    by (auto simp: validate_coinbase_signature_def and_then_eq_Panic signature_no_panic Let_def
        split: result.splits bool.splits dom_error.splits)
  then show ?thesis
    using explicit_value_cases [of "cb_kernel cb" h fees]
    by (auto simp: CoinbaseTransaction_validate_def and_then_eq_Panic envelope_no_panic
        output_proof_no_panic [OF total] split: result.splits bool.splits)
qed

lemma validate_block_no_panic:
  assumes total: "backend_total B" and ok: "block_ok B b"
  shows "validate_block_for_network B b ctx n \<noteq> Panic s"
proof -
  have counts: "list_all tx_counts_ok (transactions b)"
    using ok by (auto simp: block_ok_def body_ok_def list_all_iff intro: transaction_ok_counts)
  have "validate_header_syntax (header b) n \<noteq> Panic s" for s
    by (auto simp: validate_header_syntax_def validate_kernel_offset_canonical_def
        split: header_link_classification.splits kernel_offset_classification.splits)
  moreover have "try_fold (add_validated_fees B ctx) a (transactions b) \<noteq> Panic s" for a s
    using counts by (intro try_fold_no_panic)
      (auto simp: add_validated_fees_def and_then_eq_Panic list_all_iff total_fee_no_panic
        validate_transaction_no_panic [OF total])
  then have "validate_block_transactions B (transactions b) (coinbase b) ctx h fees \<noteq> Panic s" for h fees s
    by (auto simp: validate_block_transactions_def and_then_eq_Panic block_weight_no_panic [OF counts]
        coinbase_no_panic [OF total])
  moreover have "for_each (\<lambda>c. if commit_bytes c \<in> S then Err (e :: dom_error) else Ok ()) cs \<noteq> Panic s" for S e cs s
    by (rule for_each_not_Panic) simp
  moreover obtain x where "compute_block_pmmr_roots B (height (header b)) (coinbase b) (transactions b) = Ok x"
    using compute_roots_total [of B "coinbase b" "transactions b" "height (header b)"] ok by (auto simp: block_ok_def)
  then have "validate_pmmr_roots B b \<noteq> Panic s" for s
    by (cases x) (simp add: validate_pmmr_roots_def)
  ultimately show ?thesis
    by (auto simp: validate_block_for_network_def and_then_eq_Panic Block_weight_def
        block_weight_no_panic [OF counts] insert_all_new_no_panic total_fees_no_panic balance_no_panic [OF total])
qed

section \<open>Cut-through keeps the balance\<close>

abbreviation icommit :: "transaction_input \<Rightarrow> bytes" where "icommit i \<equiv> commit_bytes (ti_commitment i)"
abbreviation ocommit :: "transaction_output \<Rightarrow> bytes" where "ocommit ou \<equiv> commit_bytes (to_commitment ou)"

lemma apply_cut_through_Ok:
  "apply_cut_through txs = Ok (ins, outs) \<longleftrightarrow>
    (let ai = concat (map inputs txs); ao = concat (map outputs txs) in
     distinct (map icommit ai) \<and> distinct (map ocommit ao)
     \<and> ins = filter (\<lambda>i. icommit i \<notin> ocommit ` set ao) ai
     \<and> outs = filter (\<lambda>ou. ocommit ou \<notin> icommit ` set ai) ao)"
proof -
  have i: "filter (\<lambda>i. icommit i \<notin> icommit ` set ai \<inter> S) ai = filter (\<lambda>i. icommit i \<notin> S) ai" for ai S
    by (rule filter_cong) auto
  have o: "filter (\<lambda>ou. ocommit ou \<notin> S \<inter> ocommit ` set ao) ao = filter (\<lambda>ou. ocommit ou \<notin> S) ao" for ao S
    by (rule filter_cong) auto
  show ?thesis
    unfolding apply_cut_through_def Let_def and_then_eq_Ok insert_all_new_Ok set_map i o
    by (auto simp: distinct_map_filter)
qed

lemma sum_list_filter_notin:
  fixes f :: "'x \<Rightarrow> 'g::ab_group_add"
  assumes "distinct xs"
  shows "sum_list (map f (filter (\<lambda>x. x \<notin> S) xs)) = sum f (set xs - S)"
proof -
  have "sum_list (map f (filter (\<lambda>x. x \<notin> S) xs)) = sum f (set (filter (\<lambda>x. x \<notin> S) xs))"
    using assms by (intro sum_list_distinct_conv_sum_set) simp
  moreover have "set (filter (\<lambda>x. x \<notin> S) xs) = set xs - S" by auto
  ultimately show ?thesis by simp
qed

lemma cut_sums:
  fixes f :: "'x \<Rightarrow> 'g::ab_group_add"
  assumes "distinct xs" "distinct ys"
  shows "sum_list (map f (filter (\<lambda>x. x \<notin> set ys) xs)) - sum_list (map f (filter (\<lambda>y. y \<notin> set xs) ys))
    = sum_list (map f xs) - sum_list (map f ys)"
proof -
  have "sum f (set xs) = sum f (set xs - set ys) + sum f (set xs \<inter> set ys)"
      "sum f (set ys) = sum f (set ys - set xs) + sum f (set xs \<inter> set ys)"
    using sum.Int_Diff [of "set xs" f "set ys"] sum.Int_Diff [of "set ys" f "set xs"]
    by (simp_all add: Int_commute add.commute)
  then show ?thesis
    unfolding sum_list_filter_notin [OF assms(1)] sum_list_filter_notin [OF assms(2)]
      sum_list_distinct_conv_sum_set [OF assms(1)] sum_list_distinct_conv_sum_set [OF assms(2)] by simp
qed

lemma filter_notin_map: "map f (filter (\<lambda>x. f x \<notin> S) xs) = filter (\<lambda>y. y \<notin> S) (map f xs)"
  by (simp add: filter_map o_def)

lemma cut_through_succeeds:
  "is_ok (apply_cut_through txs)
    \<longleftrightarrow> distinct (map icommit (concat (map inputs txs))) \<and> distinct (map ocommit (concat (map outputs txs)))"
  by (auto simp: is_ok_iff apply_cut_through_Ok Let_def)

lemma cut_through_no_panic: "\<not> is_panic (apply_cut_through txs)"
  by (auto simp: is_panic_iff apply_cut_through_def Let_def and_then_eq_Panic insert_all_new_no_panic)

lemma cut_through_effect:
  fixes f :: "bytes \<Rightarrow> 'g::ab_group_add"
  assumes "apply_cut_through txs = Ok (ins, outs)"
  shows "icommit ` set ins \<inter> ocommit ` set outs = {}
    \<and> ins = filter (\<lambda>i. icommit i \<notin> ocommit ` set (concat (map outputs txs))) (concat (map inputs txs))
    \<and> outs = filter (\<lambda>ou. ocommit ou \<notin> icommit ` set (concat (map inputs txs))) (concat (map outputs txs))
    \<and> sum_list (map f (map ocommit outs)) - sum_list (map f (map icommit ins))
       = sum_list (map f (map ocommit (concat (map outputs txs)))) - sum_list (map f (map icommit (concat (map inputs txs))))"
proof -
  let ?ai = "concat (map inputs txs)" and ?ao = "concat (map outputs txs)"
  have c: "distinct (map icommit ?ai)" "distinct (map ocommit ?ao)"
      "ins = filter (\<lambda>i. icommit i \<notin> ocommit ` set ?ao) ?ai" "outs = filter (\<lambda>ou. ocommit ou \<notin> icommit ` set ?ai) ?ao"
    using assms unfolding apply_cut_through_Ok Let_def by blast+
  have "map ocommit outs = filter (\<lambda>x. x \<notin> set (map icommit ?ai)) (map ocommit ?ao)"
      "map icommit ins = filter (\<lambda>x. x \<notin> set (map ocommit ?ao)) (map icommit ?ai)"
    unfolding c(3,4) filter_notin_map by simp_all
  with cut_sums [OF c(2,1), of f] c(3,4) show ?thesis by (auto simp del: set_concat map_map)
qed

section \<open>A concrete transaction and block\<close>

text \<open>
  Over the backend on the integers: an input of value 14, an output of value 13 and a fee of
  one unit, and a block at height one that contains it and pays the subsidy plus the fee.
\<close>

definition demo_commit :: "nat \<Rightarrow> commitment" where
  "demo_commit v = Commitment (0x02 # nat_to_be 32 v)"

definition demo_signature :: bytes where
  "demo_signature = (0x02 # nat_to_be 32 5) @ nat_to_be 32 5"

definition demo_tx :: transaction where
  "demo_tx = \<lparr>inputs = [\<lparr>ti_commitment = demo_commit 100\<rparr>],
    outputs = [\<lparr>to_commitment = demo_commit 93, to_proof = replicate 739 0\<rparr>],
    kernels = [\<lparr>tk_features = 0, tk_fee = Amount 1, tk_lock_height = 0, tk_excess = demo_commit 0,
      tk_excess_signature = demo_signature\<rparr>],
    tx_offset = replicate 32 0\<rparr>"

definition demo_coinbase :: coinbase_transaction where
  "demo_coinbase = \<lparr>cb_output = \<lparr>to_commitment = demo_commit 23100000007, to_proof = replicate 739 0\<rparr>,
    cb_kernel = \<lparr>ck_features = 1, ck_explicit_value = 3300000001, ck_excess = demo_commit 0,
      ck_excess_signature = demo_signature\<rparr>,
    cb_offset = replicate 32 0\<rparr>"

definition demo_ctx :: validation_context where
  "demo_ctx = \<lparr>current_height = BlockHeight 1, chain_id = replicate 32 9, ctx_now = Timestamp 0\<rparr>"

definition demo_roots :: "hash256 \<times> hash256 \<times> hash256" where
  "demo_roots = (case compute_block_pmmr_roots demo_backend (BlockHeight 1) demo_coinbase [demo_tx] of
     Ok x \<Rightarrow> x | _ \<Rightarrow> (Hash256 [], Hash256 [], Hash256 []))"

definition demo_block :: block where
  "demo_block = \<lparr>header = demo_header\<lparr>version := required_block_version_for_network NETWORK_MAGIC_MAINNET 1,
      height := BlockHeight 1, prev_hash := Hash256 (replicate 32 1),
      output_root := fst demo_roots, kernel_root := fst (snd demo_roots), rangeproof_root := snd (snd demo_roots)\<rparr>,
    coinbase = demo_coinbase, transactions = [demo_tx]\<rparr>"

lemma smul_int: "smul k (p :: int) = int k * p"
  by (induction k) (simp_all add: algebra_simps)

lemma demo_law: "mul_law demo_backend"
  by (simp add: mul_law_def demo_backend_def)

lemma demo_h: "h_point demo_backend = Ok 7"
  by (simp add: h_point_def h_compressed_def derive_h_generator_def verify_h_properties_def demo_backend_def
      PublicKey_from_compressed_bytes_def classify_compressed_key_frontier_def H_COMPRESSED_FINAL_def G_COMPRESSED_def)

lemma demo_not_h: "v < 2 ^ 200 \<Longrightarrow> 0x02 # nat_to_be 32 v \<noteq> H_COMPRESSED_FINAL"
proof
  assume v: "v < 2 ^ 200" and eq: "0x02 # nat_to_be 32 v = H_COMPRESSED_FINAL"
  have "be_to_nat (nat_to_be 32 v) = be_to_nat (tl H_COMPRESSED_FINAL)" using arg_cong [OF eq, of tl] by simp
  then have "v = be_to_nat (tl H_COMPRESSED_FINAL)" using v by simp
  then show False using v by (simp add: H_COMPRESSED_FINAL_def be_to_nat_def)
qed

lemma demo_projective: "v < 2 ^ 200 \<Longrightarrow> Commitment_to_projective demo_backend (demo_commit v) = Ok (int v)"
  using demo_not_h [of v] by (simp add: Commitment_to_projective_def demo_commit_def demo_backend_def)

lemma demo_commit_ok: "commitment_ok demo_backend (demo_commit v)"
  by (simp add: commitment_ok_def demo_commit_def demo_backend_def)

lemma demo_fields:
  "point_mul demo_backend P k = int k * P" "GENERATOR demo_backend = 1" "length (compress_point demo_backend P) = 33"
  "secp_public_key demo_backend bs = Some bs" "ffi_ready demo_backend = Ok ()"
  "ffi_bulletproof_verify demo_backend cs p x = Ok True" "length (blake2b demo_backend bs) = 32"
  "scalar_from_repr demo_backend bs = (if be_to_nat bs < curve_order then Some (be_to_nat bs) else None)"
  "encoded_point demo_backend bs"
  by (simp_all add: demo_backend_def smul_int H_COMPRESSED_FINAL_def)

lemma demo_total: "backend_total demo_backend"
  by (simp add: backend_total_def demo_h demo_fields)

lemma demo_range_proof:
  assumes "v < 2 ^ 50" "length p = 739"
  shows "bp_verify demo_backend (commit_bytes (demo_commit v)) p = Ok True"
proof -
  have max: "commit_unblinded demo_backend MAX_PROVABLE_VALUE = Ok (demo_commit (7 * (2 ^ 52 - 1)))"
    unfolding commit_unblinded_def demo_h
    by (simp add: demo_backend_def smul_int copy_33_def demo_commit_def)
  have "v \<noteq> 7 * (2 ^ 52 - 1)" "v < 2 ^ 200" using assms(1) by auto
  then have "\<exists>c. Commitment_sub demo_backend (demo_commit (7 * (2 ^ 52 - 1))) (demo_commit v) = Ok c"
    by (auto simp: Commitment_sub_def demo_projective copy_33_def demo_fields)
  then obtain c where c: "derive_complement_commitment demo_backend (demo_commit v) MAX_PROVABLE_VALUE = Ok c"
    by (auto simp: derive_complement_commitment_def max)
  have "proof_has_valid_curve_points demo_backend p"
    using assms(2) by (simp add: proof_has_valid_curve_points_def demo_fields list_all_iff)
  moreover have "p \<noteq> []" using assms(2) by auto
  ultimately show ?thesis
    using c assms(2) demo_commit_ok
    by (simp add: bp_verify_def range_proof_length_is_canonical_def RANGE_PROOF_SIZE_def commitment_reparse
        demo_fields sec1_to_zkp_def)
qed

lemma demo_output_proof:
  assumes "v < 2 ^ 50" "to_commitment ou = demo_commit v" "length (to_proof ou) = 739"
  shows "range_proof_bytes ou = Ok (to_proof ou)" "recovery_capsule_of ou = Ok None"
    "verify_output_proof demo_backend ou (to_proof ou) None = Ok True" "validate_output_proof demo_backend ou = Ok ()"
  using demo_range_proof [OF assms(1,3)] assms(2,3)
  by (simp_all add: validate_output_proof_def range_proof_bytes_def recovery_capsule_of_def RANGE_PROOF_SIZE_def
      verify_output_proof_def)

lemma demo_challenge: "\<exists>c. scalar_from_bytes demo_backend (as_bytes (schnorr_challenge demo_backend r pk chain m)) = Some c"
proof -
  let ?bs = "as_bytes (schnorr_challenge demo_backend r pk chain m)"
  obtain b rest where rest: "?bs = b # rest" "length rest = 31" "b = 17"
    by (simp add: schnorr_challenge_def blake2b_256_tagged_def demo_backend_def TAG_KERNEL_SIG_def ascii_def
        u16_to_le_def nat_to_le_numeral)
  have "be_to_nat ?bs < 18 * 256 ^ 31"
    using be_to_nat_less [of rest] rest by (simp add: be_to_nat_Cons)
  also have "\<dots> < curve_order" by (simp add: curve_order_def SECP256K1_N_def be_to_nat_def)
  finally show ?thesis using rest by (simp add: scalar_from_bytes_def demo_fields)
qed

lemma demo_verify:
  "SchnorrSignature_from_bytes demo_backend demo_signature = Ok \<lparr>r_compressed = 0x02 # nat_to_be 32 5, sig_s = nat_to_be 32 5\<rparr>"
  "PublicKey_from_compressed_bytes demo_backend (commit_bytes (demo_commit 0)) = Ok (PublicKey (commit_bytes (demo_commit 0)))"
  "schnorr_verify demo_backend \<lparr>r_compressed = 0x02 # nat_to_be 32 5, sig_s = nat_to_be 32 5\<rparr>
    (PublicKey (commit_bytes (demo_commit 0))) chain m = Ok True"
proof -
  have "nat_to_be 32 5 \<noteq> replicate 32 0"
  proof
    assume "nat_to_be 32 5 = replicate 32 0"
    from arg_cong [OF this, of be_to_nat] show False by (simp add: be_to_nat_replicate_0)
  qed
  then have five: "is_scalar_valid (nat_to_be 32 5)" "5 < curve_order"
    using curve_order_large
    by (simp_all add: is_scalar_valid_def bytes_eq_zero_ct_def bytes_lt_ct_iff curve_order_def [symmetric])
  show "SchnorrSignature_from_bytes demo_backend demo_signature
      = Ok \<lparr>r_compressed = 0x02 # nat_to_be 32 5, sig_s = nat_to_be 32 5\<rparr>"
    using five by (simp add: SchnorrSignature_from_bytes_def demo_signature_def signature_length_is_canonical_def
        PublicKey_from_compressed_bytes_def classify_compressed_key_frontier_def demo_fields)
  show "PublicKey_from_compressed_bytes demo_backend (commit_bytes (demo_commit 0)) = Ok (PublicKey (commit_bytes (demo_commit 0)))"
    by (simp add: PublicKey_from_compressed_bytes_def classify_compressed_key_frontier_def demo_fields demo_commit_def)
  have proj: "compressed_to_projective demo_backend (0x02 # nat_to_be 32 v) = Ok (int v)" if "v < 2 ^ 200" for v
    using demo_projective [OF that] by (simp add: compressed_to_projective_def Commitment_to_projective_def demo_commit_def demo_fields)
  obtain c where "scalar_from_bytes demo_backend (as_bytes (schnorr_challenge demo_backend (0x02 # nat_to_be 32 5)
      (PublicKey (commit_bytes (demo_commit 0))) chain m)) = Some c"
    using demo_challenge by blast
  then show "schnorr_verify demo_backend \<lparr>r_compressed = 0x02 # nat_to_be 32 5, sig_s = nat_to_be 32 5\<rparr>
    (PublicKey (commit_bytes (demo_commit 0))) chain m = Ok True"
    using five by (simp add: schnorr_verify_def scalar_from_bytes_def demo_fields proj demo_commit_def Let_def)
qed

lemma demo_signature_ok:
  "tk_excess k = demo_commit 0 \<Longrightarrow> tk_excess_signature k = demo_signature \<Longrightarrow>
    validate_kernel_signature demo_backend chain k = Ok ()"
  by (simp add: validate_kernel_signature_def demo_verify)

lemma demo_tx_openings:
  "list_all2 (opens demo_backend 7) (map to_commitment (outputs demo_tx)) [(13, 2)]"
  "list_all2 (opens demo_backend 7) (map ti_commitment (inputs demo_tx)) [(14, 2)]"
  "list_all2 (opens_excess demo_backend) (map tk_excess (kernels demo_tx)) [0]"
  by (simp_all add: demo_tx_def opens_def opens_excess_def demo_projective demo_fields smul_int)

lemma demo_tx_valid: "transaction_valid demo_backend demo_ctx demo_tx"
proof -
  have "structure_valid demo_tx"
    by (simp add: structure_valid_def demo_tx_def tx_counts_ok_def counts_within_limits_def dom_consts tx_weight_def)
  moreover have "validate_balance_equation demo_backend demo_tx = Ok ()"
  proof -
    have "total_fee demo_tx = Ok 1" by (simp add: total_fee_exact demo_tx_def)
    moreover have "verify_balance_equation demo_backend (map to_commitment (outputs demo_tx))
        (map ti_commitment (inputs demo_tx)) (map tk_excess (kernels demo_tx)) (tx_offset demo_tx) 1 = Ok True"
      by (simp add: verify_balance_equation_def sum_projective_def demo_tx_def demo_projective demo_h demo_fields)
    ultimately show ?thesis by (simp add: validate_balance_equation_Ok demo_tx_def demo_commit_ok)
  qed
  moreover have "validate_output_proof demo_backend \<lparr>to_commitment = demo_commit 93, to_proof = replicate 739 0\<rparr> = Ok ()"
    by (rule demo_output_proof(4)) simp_all
  ultimately show ?thesis
    by (simp add: transaction_valid_def demo_signature_ok demo_tx_def dom_consts)
qed

lemma demo_coinbase_valid: "coinbase_valid demo_backend demo_ctx demo_block"
proof -
  let ?out = "\<lparr>to_commitment = demo_commit 23100000007, to_proof = replicate 739 0\<rparr> :: transaction_output"
  have fees: "block_fees demo_block = 1"
    by (simp add: block_fees_def demo_block_def tx_fees_def demo_tx_def)
  have "validate_explicit_value (cb_kernel demo_coinbase) (BlockHeight 1) 1 = Ok ()"
    using explicit_value_cases [of "cb_kernel demo_coinbase" "BlockHeight 1" 1]
    by (simp add: demo_coinbase_def block_reward_def halving_epoch_def HALVING_INTERVAL_def HALVING_EPOCHS_def
        reward_table_head)
  moreover have "range_proof_bytes ?out = Ok (to_proof ?out)" "recovery_capsule_of ?out = Ok None"
      "verify_output_proof demo_backend ?out (to_proof ?out) None = Ok True"
    by (rule demo_output_proof [where v = 23100000007]; simp)+
  moreover have "validate_coinbase_signature demo_backend demo_coinbase chain = Ok ()" for chain
    by (simp add: validate_coinbase_signature_def demo_coinbase_def demo_verify)
  ultimately have "CoinbaseTransaction_validate demo_backend demo_coinbase (BlockHeight 1) 1 chain = Ok ()" for chain
    by (simp add: CoinbaseTransaction_validate_def demo_coinbase_def dom_consts)
  then show ?thesis
    using fees by (auto simp: coinbase_valid_def demo_block_def intro!: exI [of _ 1])
qed

lemma demo_commit_inject: "u < 2 ^ 200 \<Longrightarrow> v < 2 ^ 200 \<Longrightarrow> commit_bytes (demo_commit u) = commit_bytes (demo_commit v) \<longleftrightarrow> u = v"
proof
  assume "u < 2 ^ 200" "v < 2 ^ 200" "commit_bytes (demo_commit u) = commit_bytes (demo_commit v)"
  then have "be_to_nat (nat_to_be 32 u) = be_to_nat (nat_to_be 32 v)" by (simp add: demo_commit_def)
  then show "u = v" using \<open>u < 2 ^ 200\<close> \<open>v < 2 ^ 200\<close> by simp
qed simp

lemma demo_block_lists:
  "block_outputs demo_block = [demo_commit 23100000007, demo_commit 93]" "block_inputs demo_block = [demo_commit 100]"
  "block_excesses demo_block = [demo_commit 0, demo_commit 0]"
  by (simp_all add: block_outputs_def block_inputs_def block_excesses_def demo_block_def demo_tx_def demo_coinbase_def)

lemma demo_body_ok: "body_ok demo_backend demo_coinbase [demo_tx]"
  by (simp add: body_ok_def coinbase_ok_def output_ok_def coinbase_kernel_ok_def transaction_ok_def input_ok_def
      kernel_ok_def demo_coinbase_def demo_tx_def demo_commit_ok dom_consts demo_signature_def amount_ok_def is_valid_noms_def)

lemma demo_reward: "noms (block_reward (BlockHeight 1)) = 3300000000"
  by (simp add: block_reward_def halving_epoch_def HALVING_INTERVAL_def HALVING_EPOCHS_def reward_table_head)

lemma demo_block_valid: "block_valid demo_backend demo_ctx NETWORK_MAGIC_MAINNET demo_block"
proof -
  have "validate_header_syntax (header demo_block) NETWORK_MAGIC_MAINNET = Ok ()"
    using curve_order_large
    by (simp add: validate_header_syntax_def demo_block_def demo_header_def classify_header_link_def Hash256_ZERO_def
        kernel_offset_canonical_iff be_to_nat_zeros)
  moreover have "verify_block_balance_equation demo_backend (block_outputs demo_block) (block_inputs demo_block)
      (block_excesses demo_block) (replicate 32 0) 3300000000 = Ok True"
    by (simp add: verify_block_balance_equation_def sum_projective_def demo_block_lists demo_projective demo_h demo_fields)
  moreover have "validate_pmmr_roots demo_backend demo_block = Ok ()"
  proof -
    obtain x y z where "compute_block_pmmr_roots demo_backend (BlockHeight 1) demo_coinbase [demo_tx] = Ok (x, y, z)"
      using compute_roots_total [OF demo_body_ok, of "BlockHeight 1"] by auto
    then show ?thesis by (simp add: validate_pmmr_roots_def demo_block_def demo_roots_def)
  qed
  moreover have "distinct (map commit_bytes (block_outputs demo_block))"
      "set (map commit_bytes (block_inputs demo_block)) \<inter> set (map commit_bytes (block_outputs demo_block)) = {}"
    by (simp_all add: demo_block_lists demo_commit_inject)
  moreover have "transactions demo_block = [demo_tx]" "height (header demo_block) = BlockHeight 1"
      "total_kernel_offset (header demo_block) = replicate 32 0" "tx_weight demo_tx = 25"
    by (simp_all add: demo_block_def demo_header_def tx_weight_def demo_tx_def)
  ultimately show ?thesis
    using demo_tx_valid demo_coinbase_valid
    by (simp add: block_valid_def demo_block_lists(2) demo_reward)
qed

lemma demo_block_openings:
  "list_all2 (opens demo_backend 7) (block_outputs demo_block) [(3300000001, 0), (13, 2)]"
  "list_all2 (opens demo_backend 7) (block_inputs demo_block) [(14, 2)]"
  "list_all2 (opens_excess demo_backend) (block_excesses demo_block) [0, 0]"
  by (simp_all add: demo_block_lists opens_def opens_excess_def demo_projective demo_fields smul_int)

lemma demo_block_ok: "block_ok demo_backend demo_block"
proof -
  obtain x y z where r: "compute_block_pmmr_roots demo_backend (BlockHeight 1) demo_coinbase [demo_tx] = Ok (x, y, z)"
      "pmmr_root_of demo_backend (output_leaves demo_coinbase [demo_tx]) = Ok x"
      "pmmr_root_of demo_backend (kernel_leaves demo_coinbase [demo_tx]) = Ok y"
      "hash256_ok z"
    using compute_roots_body [OF demo_body_ok, of "BlockHeight 1"]
    by (auto simp: hash256_ok_def blake2b_256_tagged_def demo_fields)
  have "hash256_ok (bag_items demo_backend its)" for its
    using length_bag_items [of demo_backend its] by (simp add: demo_fields hash256_ok_def)
  then have "hash256_ok x" "hash256_ok y"
    using r(2,3) by (simp_all add: pmmr_root_of_items output_leaves_def kernel_leaves_def demo_tx_def) auto
  with r show ?thesis
    using demo_header_ok demo_body_ok
    by (simp add: block_ok_def demo_block_def demo_roots_def header_ok_def hash256_ok_def)
qed

lemma block_counts: "block_ok B b \<Longrightarrow> list_all tx_counts_ok (transactions b)"
  by (auto simp: block_ok_def body_ok_def list_all_iff intro: transaction_ok_counts)

lemma block_lists_small:
  assumes "block_ok B b"
  shows "length (block_outputs b) < 2 ^ 64" "length (block_inputs b) < 2 ^ 64"
proof -
  have "length (map to_commitment (outputs tx)) \<le> 255" "length (map ti_commitment (inputs tx)) \<le> 255"
    if "tx \<in> set (transactions b)" for tx
    using assms that by (auto simp: block_ok_def body_ok_def list_all_iff transaction_ok_def dom_consts)
  then have "length (concat (map (\<lambda>tx. map to_commitment (outputs tx)) (transactions b))) \<le> length (transactions b) * 255"
      "length (concat (map (\<lambda>tx. map ti_commitment (inputs tx)) (transactions b))) \<le> length (transactions b) * 255"
    using length_concat_le [of "transactions b" "\<lambda>tx. map to_commitment (outputs tx)" 255]
      length_concat_le [of "transactions b" "\<lambda>tx. map ti_commitment (inputs tx)" 255] by blast+
  moreover have "length (transactions b) \<le> 5000"
    using assms by (simp add: block_ok_def body_ok_def dom_consts)
  ultimately show "length (block_outputs b) < 2 ^ 64" "length (block_inputs b) < 2 ^ 64"
    unfolding block_outputs_def block_inputs_def by simp_all
qed

lemma block_conserves:
  assumes "mul_law B" "h_point B = Ok H" "block_ok B b" "block_valid B ctx n b"
    and "list_all2 (opens B H) (block_outputs b) oo" "list_all2 (opens B H) (block_inputs b) ii"
    and "list_all2 (opens_excess B) (block_excesses b) ee"
  shows "value_sum oo = value_sum ii + unat (noms (block_reward (height (header b))))
    \<or> double_opening B H (value_sum oo, blind_sum oo)
        (value_sum ii + unat (noms (block_reward (height (header b)))),
         blind_sum ii + sum_list ee + offset_scalar B (total_kernel_offset (header b)))"
  using assms(4)
  by (intro block_balance_conserves [OF assms(1,2,5,6,7) block_lists_small [OF assms(3)]])
    (simp add: block_valid_def)

lemma coinbase_valid_value:
  assumes "coinbase_valid B ctx b"
  shows "unat (ck_explicit_value (cb_kernel (coinbase b)))
    = unat (noms (block_reward (height (header b)))) + block_fees b"
proof -
  obtain fees where "unat fees = block_fees b"
      "validate_explicit_value (cb_kernel (coinbase b)) (height (header b)) fees = Ok ()"
    using assms by (auto simp: coinbase_valid_def CoinbaseTransaction_validate_def split: if_splits)
  with explicit_value_cases [of "cb_kernel (coinbase b)" "height (header b)" fees] show ?thesis by simp
qed

lemma demo_block_length: "length (enc_block demo_block) < USIZE_LIMIT"
proof -
  have "length (enc_header (header demo_block)) = 256"
    using length_enc_header demo_block_ok by (auto simp: block_ok_def)
  moreover have "length (enc_coinbase demo_coinbase) = 915"
    by (simp add: enc_coinbase_def enc_output_def enc_vec_def enc_coinbase_kernel_def
        demo_coinbase_def demo_commit_def demo_signature_def)
  moreover have "length (enc_transaction demo_tx) = 968"
    by (simp add: enc_output_def enc_vec_def enc_list_def enc_transaction_def enc_input_def enc_kernel_def
        demo_tx_def demo_commit_def demo_signature_def)
  ultimately show ?thesis
    by (simp add: enc_block_def enc_body_def enc_list_def USIZE_LIMIT_def, simp add: demo_block_def)
qed

section \<open>Two blocks with one header\<close>

text \<open>
  A backend whose hash keeps the end of its input, and two blocks above genesis that share the
  header computed for the first and differ in the last byte of the coinbase offset.
\<close>

definition demo_end_backend :: "int backend" where
  "demo_end_backend = demo_backend\<lparr>blake2b := (\<lambda>bs. take 32 (rev bs @ replicate 32 0))\<rparr>"

definition demo_offset_coinbase :: "u8 \<Rightarrow> coinbase_transaction" where
  "demo_offset_coinbase n = demo_coinbase\<lparr>cb_offset := replicate 31 0 @ [n]\<rparr>"

definition demo_offset_root :: "hash256 \<times> hash256 \<times> hash256" where
  "demo_offset_root = (case compute_block_pmmr_roots demo_end_backend (BlockHeight 1) (demo_offset_coinbase 5) [] of
     Ok x \<Rightarrow> x | _ \<Rightarrow> (Hash256 [], Hash256 [], Hash256 []))"

definition demo_offset_block :: "u8 \<Rightarrow> block" where
  "demo_offset_block n = \<lparr>header = demo_header\<lparr>height := BlockHeight 1, prev_hash := Hash256 (replicate 32 1),
      output_root := fst demo_offset_root, kernel_root := fst (snd demo_offset_root),
      rangeproof_root := snd (snd demo_offset_root)\<rparr>,
    coinbase = demo_offset_coinbase n, transactions = []\<rparr>"

lemma length_end_hash: "length (blake2b demo_end_backend bs) = 32"
  by (simp add: demo_end_backend_def)

lemma demo_offset_body_ok: "body_ok demo_end_backend (demo_offset_coinbase n) []"
  by (simp add: body_ok_def coinbase_ok_def output_ok_def coinbase_kernel_ok_def commitment_ok_def demo_end_backend_def
      demo_backend_def demo_offset_coinbase_def demo_coinbase_def demo_commit_def dom_consts demo_signature_def)

lemma compute_roots_sized:
  assumes "body_ok B cb txs" "\<And>x. length (blake2b B x) = 32" "h \<noteq> BlockHeight 0"
  obtains x y z where "compute_block_pmmr_roots B h cb txs = Ok (x, y, z)" "hash256_ok x" "hash256_ok y" "hash256_ok z"
proof -
  obtain x y r where r: "pmmr_root_of B (output_leaves cb txs) = Ok x" "pmmr_root_of B (kernel_leaves cb txs) = Ok y"
      "compute_block_pmmr_roots B h cb txs = Ok (x, y, blake2b_256_tagged B TAG_BOUND_RANGEPROOF_ROOT r)"
    using compute_roots_body [OF assms(1,3)] by blast
  have bag: "hash256_ok (bag_items B its)" for its
    using length_bag_items [of B its] assms(2) by (simp add: hash256_ok_def)
  have "body_small cb txs" by (rule body_ok_small [OF assms(1)])
  then have "hash256_ok x" "hash256_ok y"
    using r(1,2) bag by (auto simp: body_small_def pmmr_root_of_items)
  moreover have "hash256_ok (blake2b_256_tagged B TAG_BOUND_RANGEPROOF_ROOT r)"
    using assms(2) by (simp add: hash256_ok_def blake2b_256_tagged_def)
  ultimately show ?thesis using r(3) that by blast
qed

lemma demo_offset_block_ok: "block_ok demo_end_backend (demo_offset_block n)"
proof -
  obtain x y z where "compute_block_pmmr_roots demo_end_backend (BlockHeight 1) (demo_offset_coinbase 5) [] = Ok (x, y, z)"
      "hash256_ok x" "hash256_ok y" "hash256_ok z"
    by (rule compute_roots_sized [OF demo_offset_body_ok length_end_hash, of "BlockHeight 1"]) simp_all
  then show ?thesis
    using demo_header_ok demo_offset_body_ok
    by (simp add: block_ok_def demo_offset_block_def demo_offset_root_def header_ok_def hash256_ok_def)
qed

lemma demo_offset_roots: "validate_pmmr_roots demo_end_backend (demo_offset_block 5) = Ok ()"
proof -
  obtain x y z where "compute_block_pmmr_roots demo_end_backend (BlockHeight 1) (demo_offset_coinbase 5) [] = Ok (x, y, z)"
    by (rule compute_roots_sized [OF demo_offset_body_ok length_end_hash, of "BlockHeight 1"]) simp_all
  then show ?thesis by (simp add: validate_pmmr_roots_def demo_offset_block_def demo_offset_root_def)
qed

lemma demo_offset_length: "length (enc_block (demo_offset_block n)) < USIZE_LIMIT"
proof -
  have "length (enc_header (header (demo_offset_block n))) = 256"
    using length_enc_header demo_offset_block_ok by (auto simp: block_ok_def)
  moreover have "length (enc_coinbase (demo_offset_coinbase n)) = 915"
    by (simp add: enc_coinbase_def enc_output_def enc_vec_def enc_coinbase_kernel_def demo_offset_coinbase_def
        demo_coinbase_def demo_commit_def demo_signature_def)
  ultimately show ?thesis
    by (simp add: enc_block_def enc_body_def enc_list_def USIZE_LIMIT_def, simp add: demo_offset_block_def)
qed

lemma end_hash_append: "length ys = 32 \<Longrightarrow> blake2b demo_end_backend (xs @ ys) = rev ys"
  by (simp add: demo_end_backend_def)

lemma demo_offset_commitment:
  "blake2b demo_end_backend (tagged_input TAG_BLOCK_BODY_COMMITMENT (enc_body (demo_offset_coinbase n) []))
    = [0, 0, 0, 0, n] @ replicate 27 0"
proof -
  have "replicate 31 0 = replicate 4 0 @ replicate 27 (0 :: u8)" by (simp flip: replicate_add)
  moreover have "u32_to_le 0 = replicate 4 0" by code_simp
  ultimately have input: "tagged_input TAG_BLOCK_BODY_COMMITMENT (enc_body (demo_offset_coinbase n) [])
      = (u16_to_le (of_nat (length TAG_BLOCK_BODY_COMMITMENT)) @ TAG_BLOCK_BODY_COMMITMENT @ enc_output (cb_output demo_coinbase)
        @ enc_coinbase_kernel (cb_kernel demo_coinbase) @ replicate 4 0) @ (replicate 27 0 @ [n] @ replicate 4 0)"
    by (simp add: tagged_input_def enc_body_def enc_coinbase_def demo_offset_coinbase_def enc_list_def)
  have "replicate 4 (0 :: u8) = [0, 0, 0, 0]" by code_simp
  then have reversed: "rev (replicate 27 0 @ [n] @ replicate 4 0) = [0, 0, 0, 0, n] @ replicate 27 0" by simp
  show ?thesis unfolding input by (subst end_hash_append) (simp, rule reversed)
qed

lemma demo_offset_binding:
  "blake2b demo_end_backend (tagged_input TAG_BOUND_RANGEPROOF_ROOT
      (r @ as_bytes (blake2b_256_tagged demo_end_backend TAG_BLOCK_BODY_COMMITMENT (enc_body (demo_offset_coinbase n) []))))
    = replicate 27 0 @ [n, 0, 0, 0, 0]"
  using end_hash_append [of "[0, 0, 0, 0, n] @ replicate 27 0"] demo_offset_commitment [of n]
  by (simp add: tagged_input_def blake2b_256_tagged_def flip: append_assoc)

lemma demo_offset_inj:
  "inj_on (blake2b demo_end_backend)
    (body_hash_inputs demo_end_backend (demo_offset_block 5) \<union> body_hash_inputs demo_end_backend (demo_offset_block 6))"
proof -
  let ?c = "\<lambda>n. tagged_input TAG_BLOCK_BODY_COMMITMENT (enc_body (demo_offset_coinbase n) [])"
  let ?r = "\<lambda>r n. tagged_input TAG_BOUND_RANGEPROOF_ROOT (r @ as_bytes (blake2b_256_tagged demo_end_backend
    TAG_BLOCK_BODY_COMMITMENT (enc_body (demo_offset_coinbase n) [])))"
  have "\<exists>r. body_hash_inputs demo_end_backend (demo_offset_block n) \<subseteq> {?c n, ?r r n}" for n
    by (cases "pmmr_root_of demo_end_backend (proof_leaves (demo_offset_coinbase n) [])")
      (auto simp: body_hash_inputs_def demo_offset_block_def)
  then obtain r r' where "body_hash_inputs demo_end_backend (demo_offset_block 5) \<subseteq> {?c 5, ?r r 5}"
      "body_hash_inputs demo_end_backend (demo_offset_block 6) \<subseteq> {?c 6, ?r r' 6}" by metis
  then have sub: "body_hash_inputs demo_end_backend (demo_offset_block 5) \<union> body_hash_inputs demo_end_backend (demo_offset_block 6)
      \<subseteq> set [?c 5, ?r r 5, ?c 6, ?r r' 6]" by (simp only: list.set) blast
  have "distinct (map (blake2b demo_end_backend) [?c 5, ?r r 5, ?c 6, ?r r' 6])"
    unfolding list.map demo_offset_commitment demo_offset_binding by code_simp
  then have "inj_on (blake2b demo_end_backend) (set [?c 5, ?r r 5, ?c 6, ?r r' 6])" by (simp only: distinct_map)
  then show ?thesis using sub by (rule inj_on_subset)
qed

section \<open>What a kernel signature commits to\<close>

definition kernel_challenge :: "'p backend \<Rightarrow> bytes \<Rightarrow> transaction_kernel \<Rightarrow> hash256" where
  "kernel_challenge B chain k =
    schnorr_challenge B (take 33 (tk_excess_signature k)) (PublicKey (commit_bytes (tk_excess k))) chain
      (as_bytes (kernel_message B k))"

definition kernel_hash_inputs :: "'p backend \<Rightarrow> bytes \<Rightarrow> transaction_kernel \<Rightarrow> bytes set" where
  "kernel_hash_inputs B chain k =
    {tagged_input TAG_KERNEL_MSG (tk_features k # u64_to_le (noms (tk_fee k)) @ u64_to_le (tk_lock_height k)),
     tagged_input TAG_KERNEL_SIG (take 33 (tk_excess_signature k) @ commit_bytes (tk_excess k) @ chain
       @ as_bytes (kernel_message B k))}"

lemma kernel_tags: "length TAG_KERNEL_MSG < 65536" "length TAG_KERNEL_SIG < 65536"
  by (simp_all add: TAG_KERNEL_MSG_def TAG_KERNEL_SIG_def ascii_def)

lemma u64_to_le_inject: "u64_to_le a = u64_to_le b \<longleftrightarrow> a = b"
  by (metis word_le_round_trip(3))

lemma kernel_challenge_inject:
  assumes ok: "kernel_ok B k" "kernel_ok B k'" and chains: "length chain = 32" "length chain' = 32"
    and len: "\<And>x. length (blake2b B x) = 32"
    and inj: "inj_on (blake2b B) (kernel_hash_inputs B chain k \<union> kernel_hash_inputs B chain' k')"
    and eq: "kernel_challenge B chain k = kernel_challenge B chain' k'"
  shows "chain = chain' \<and> tk_excess k = tk_excess k' \<and> tk_features k = tk_features k'
    \<and> tk_fee k = tk_fee k' \<and> tk_lock_height k = tk_lock_height k'
    \<and> take 33 (tk_excess_signature k) = take 33 (tk_excess_signature k')"
proof -
  have l: "length (commit_bytes (tk_excess k)) = 33" "length (commit_bytes (tk_excess k')) = 33"
      "length (tk_excess_signature k) = 65" "length (tk_excess_signature k') = 65"
    using ok by (auto simp: kernel_ok_def commitment_ok_length)
  from tagged_hash_eq [OF eq [unfolded kernel_challenge_def schnorr_challenge_def] inj]
  have d: "take 33 (tk_excess_signature k) @ commit_bytes (tk_excess k) @ chain @ as_bytes (kernel_message B k)
      = take 33 (tk_excess_signature k') @ commit_bytes (tk_excess k') @ chain' @ as_bytes (kernel_message B k')"
    using kernel_tags by (simp add: kernel_hash_inputs_def)
  then have parts: "take 33 (tk_excess_signature k) = take 33 (tk_excess_signature k')"
      "commit_bytes (tk_excess k) = commit_bytes (tk_excess k')" "chain = chain'"
      "as_bytes (kernel_message B k) = as_bytes (kernel_message B k')"
    using l chains by (simp_all add: append_eq_append_conv)
  from parts(4) have "kernel_message B k = kernel_message B k'" by (simp add: hash256.expand)
  from tagged_hash_eq [OF this [unfolded kernel_message_def] inj]
  have "tk_features k # u64_to_le (noms (tk_fee k)) @ u64_to_le (tk_lock_height k)
      = tk_features k' # u64_to_le (noms (tk_fee k')) @ u64_to_le (tk_lock_height k')"
    using kernel_tags by (simp add: kernel_hash_inputs_def)
  with parts show ?thesis
    by (simp add: append_eq_append_conv u64_to_le_inject amount.expand commitment.expand)
qed

text \<open>
  What the curve libraries document: a scalar is decoded from the big-endian representation of a
  number below the group order, a compressed key is serialised to the bytes it was parsed from,
  and a point other than the identity has the group order.
\<close>

definition curve_law :: "'p::ab_group_add backend \<Rightarrow> bool" where
  "curve_law B \<longleftrightarrow>
    (\<forall>bs s. scalar_from_repr B bs = Some s \<longrightarrow> s = be_to_nat bs \<and> s < curve_order)
    \<and> (\<forall>bs x. secp_public_key B bs = Some x \<longrightarrow> x = bs)
    \<and> (\<forall>p a b. p \<noteq> 0 \<and> a < curve_order \<and> b < curve_order \<and> point_mul B p a = point_mul B p b \<longrightarrow> a = b)"

lemma accepted_verdict:
  assumes "(case v of Ok True \<Rightarrow> Ok () | Ok False \<Rightarrow> Err e | Err (Internal msg) \<Rightarrow> Err (f msg) | Err e' \<Rightarrow> Err e' | Panic s \<Rightarrow> Panic s)
    = Ok ()"
  shows "v = Ok True"
proof (cases v)
  case (Ok x)
  then show ?thesis using assms by (cases x) auto
next
  case (Err d)
  then show ?thesis using assms by (cases d) auto
qed (use assms in simp)

lemma validate_kernel_signature_equation:
  assumes "curve_law B" "validate_kernel_signature B chain k = Ok ()"
  shows "\<exists>s p c r. scalar_from_bytes B (drop 33 (tk_excess_signature k)) = Some s
    \<and> affine_of_encoded B (commit_bytes (tk_excess k)) = Some p
    \<and> scalar_from_bytes B (as_bytes (kernel_challenge B chain k)) = Some c
    \<and> affine_of_encoded B (take 33 (tk_excess_signature k)) = Some r
    \<and> point_mul B (GENERATOR B) s = r + point_mul B p c"
proof -
  obtain sig pk where sig: "SchnorrSignature_from_bytes B (tk_excess_signature k) = Ok sig"
      "PublicKey_from_compressed_bytes B (commit_bytes (tk_excess k)) = Ok pk"
      "schnorr_verify B sig pk chain (as_bytes (kernel_message B k)) = Ok True"
    using assms(2) accepted_verdict [where f = "\<lambda>msg. Internal (''kernel sig: '' @ msg)"
        and e = "PeerMisbehavior InvalidSignature ''kernel Schnorr signature invalid''"]
    unfolding validate_kernel_signature_def and_then_eq_Ok map_err_eq_Ok by blast
  have "r_compressed sig = take 33 (tk_excess_signature k)" "sig_s sig = drop 33 (tk_excess_signature k)"
    using sig(1) by (auto simp: SchnorrSignature_from_bytes_def Let_def split: if_splits)
  moreover have "pk = PublicKey (commit_bytes (tk_excess k))"
    using sig(2) assms(1)
    by (auto simp: PublicKey_from_compressed_bytes_def Let_def curve_law_def split: compressed_key_frontier.splits)
  ultimately show ?thesis
    using sig(3) by (auto simp: schnorr_verify_def Let_def compressed_to_projective_def kernel_challenge_def split: if_splits)
qed

lemma scalar_bytes_inject:
  assumes "curve_law B" "scalar_from_bytes B a = Some s" "scalar_from_bytes B b = Some s"
  shows "a = b"
proof -
  have "be_to_nat a = be_to_nat b" "length a = 32" "length b = 32"
    using assms by (auto simp: scalar_from_bytes_def curve_law_def split: if_splits)
  then show ?thesis by (metis be_bytes_32(1))
qed

lemma same_signature_same_challenge:
  assumes law: "curve_law B" and same: "tk_excess k' = tk_excess k" "tk_excess_signature k' = tk_excess_signature k"
    and p: "affine_of_encoded B (commit_bytes (tk_excess k)) \<noteq> Some 0"
    and acc: "validate_kernel_signature B chain k = Ok ()" "validate_kernel_signature B chain' k' = Ok ()"
  shows "kernel_challenge B chain k = kernel_challenge B chain' k'"
proof -
  obtain s p c r where 1: "scalar_from_bytes B (drop 33 (tk_excess_signature k)) = Some s"
      "affine_of_encoded B (commit_bytes (tk_excess k)) = Some p"
      "scalar_from_bytes B (as_bytes (kernel_challenge B chain k)) = Some c"
      "affine_of_encoded B (take 33 (tk_excess_signature k)) = Some r" "point_mul B (GENERATOR B) s = r + point_mul B p c"
    using validate_kernel_signature_equation [OF law acc(1)] by blast
  obtain c' where 2: "scalar_from_bytes B (as_bytes (kernel_challenge B chain' k')) = Some c'"
      "point_mul B (GENERATOR B) s = r + point_mul B p c'"
    using validate_kernel_signature_equation [OF law acc(2)] 1(1,2,4) unfolding same by auto
  have "c < curve_order" "c' < curve_order" "p \<noteq> 0"
    using 1(2,3) 2(1) law assms(4) by (auto simp: scalar_from_bytes_def curve_law_def split: if_splits)
  moreover have "point_mul B p c = point_mul B p c'" using 1(5) 2(2) by simp
  ultimately have "c = c'" using law unfolding curve_law_def by blast
  then show ?thesis using scalar_bytes_inject [OF law 1(3)] 2(1) by (simp add: hash256.expand)
qed

section \<open>Properties\<close>

text \<open>
  C4. No inflation by a transaction: if validation accepts, then for any openings of its
  outputs and inputs within the range the proofs attest, and of its kernel excesses to
  multiples of the generator, the output values plus the fees equal the input values; the
  only alternative is that these very openings give one point two different values.
\<close>
theorem transaction_no_inflation:
  assumes "mul_law B" "h_point B = Ok H" "validate_transaction B tx ctx = Ok ()"
    and "list_all2 (opens B H) (map to_commitment (outputs tx)) oo"
    and "list_all2 (opens B H) (map ti_commitment (inputs tx)) ii"
    and "list_all2 (opens_excess B) (map tk_excess (kernels tx)) ee"
  shows "value_sum oo + tx_fees tx = value_sum ii
    \<or> double_opening B H (value_sum oo + tx_fees tx, blind_sum oo)
        (value_sum ii, blind_sum ii + sum_list ee + offset_scalar B (tx_offset tx))"
  using assms by (intro transaction_conserves) (simp_all add: validate_transaction_Ok)

theorem transaction_no_inflation_witness:
  "value_sum [(13, 2)] + tx_fees demo_tx = value_sum [(14, 2)]
    \<or> double_opening demo_backend 7 (value_sum [(13, 2)] + tx_fees demo_tx, blind_sum [(13, 2)])
        (value_sum [(14, 2)], blind_sum [(14, 2)] + sum_list [0] + offset_scalar demo_backend (tx_offset demo_tx))"
  using demo_tx_valid
  by (intro transaction_no_inflation [where ctx = demo_ctx] demo_law demo_h demo_tx_openings)
    (simp add: validate_transaction_Ok)

text \<open>
  C3. No inflation by a block: if a decoded block is accepted, then for any openings of its
  outputs, inputs and excesses the value created equals the value spent plus exactly the
  scheduled subsidy of its height, unless these openings give one point two values.
\<close>
theorem block_no_inflation:
  assumes "mul_law B" "h_point B = Ok H" "block_ok B b" "validate_block_for_network B b ctx n = Ok ()"
    and "list_all2 (opens B H) (block_outputs b) oo" "list_all2 (opens B H) (block_inputs b) ii"
    and "list_all2 (opens_excess B) (block_excesses b) ee"
  shows "value_sum oo = value_sum ii + unat (noms (block_reward (height (header b))))
    \<or> double_opening B H (value_sum oo, blind_sum oo)
        (value_sum ii + unat (noms (block_reward (height (header b)))),
         blind_sum ii + sum_list ee + offset_scalar B (total_kernel_offset (header b)))"
  using assms by (intro block_conserves) (simp_all add: block_counts validate_block_Ok)

theorem block_no_inflation_witness:
  "value_sum [(3300000001, 0), (13, 2)] = value_sum [(14, 2)] + unat (noms (block_reward (height (header demo_block))))
    \<or> double_opening demo_backend 7 (value_sum [(3300000001, 0), (13, 2)], blind_sum [(3300000001, 0), (13, 2)])
        (value_sum [(14, 2)] + unat (noms (block_reward (height (header demo_block)))),
         blind_sum [(14, 2)] + sum_list [0, 0] + offset_scalar demo_backend (total_kernel_offset (header demo_block)))"
  using demo_block_valid demo_block_ok
  by (intro block_no_inflation [where ctx = demo_ctx and n = NETWORK_MAGIC_MAINNET] demo_law demo_h demo_block_openings)
    (simp_all add: validate_block_Ok block_counts)



text \<open>
  C11. The header commits to the whole body: above genesis, two decoded blocks with the same
  header that both pass the root check are equal, down to every signature byte, if the hash
  has 32-byte values and no collision among the two body commitments and their bindings.
\<close>
theorem header_binds_body:
  assumes "block_ok B b" "block_ok B b'" "validate_pmmr_roots B b = Ok ()" "validate_pmmr_roots B b' = Ok ()"
    and "header b = header b'" "height (header b) \<noteq> BlockHeight 0"
    and "\<And>x. length (blake2b B x) = 32" "length (enc_block b) < USIZE_LIMIT"
    and "inj_on (blake2b B) (body_hash_inputs B b \<union> body_hash_inputs B b')"
  shows "b = b'"
  using assms by (rule header_determines_body)

theorem header_binds_body_witness:
  "validate_pmmr_roots demo_end_backend (demo_offset_block 5) = Ok ()
    \<and> header (demo_offset_block 6) = header (demo_offset_block 5)
    \<and> validate_pmmr_roots demo_end_backend (demo_offset_block 6) \<noteq> Ok ()"
proof -
  have "validate_pmmr_roots demo_end_backend (demo_offset_block 6) \<noteq> Ok ()"
  proof
    assume "validate_pmmr_roots demo_end_backend (demo_offset_block 6) = Ok ()"
    then have "demo_offset_block 5 = demo_offset_block 6"
      using demo_offset_block_ok demo_offset_roots demo_offset_length demo_offset_inj
      by (intro header_binds_body [where B = demo_end_backend])
        (simp_all add: demo_offset_block_def demo_header_def, simp add: demo_end_backend_def)
    from arg_cong [OF this, of "\<lambda>b. cb_offset (coinbase b)"] show False
      by (simp add: demo_offset_block_def demo_offset_coinbase_def)
  qed
  then show ?thesis using demo_offset_roots by (simp add: demo_offset_block_def)
qed

text \<open>
  C16. The block encoding is canonical: a byte string decodes to a block exactly when it is the
  serialisation of that well-formed block, so no two encodings of one block are accepted.
\<close>
theorem block_wire_canonical:
  assumes "length bs < USIZE_LIMIT"
  shows "from_bytes (deserialize_block B) bs = Ok b \<longleftrightarrow> block_ok B b \<and> to_bytes serialize_block b = Ok bs"
  using assms blk.from_bytes_iff [of bs B b] blk.to_bytes_enc [of B b] by auto

theorem block_wire_canonical_witness:
  "from_bytes (deserialize_block demo_backend) (enc_block demo_block) = Ok demo_block"
  using block_wire_canonical [OF demo_block_length, of demo_backend demo_block] demo_block_ok
    blk.to_bytes_enc [OF demo_block_ok] by simp

text \<open>
  C15. Validation of a decoded block never panics, whatever its bytes, provided the value
  generator is the finalised one, finite points compress to 33 bytes and the proof library
  returns: no weight, fee, index or accumulator step can abort the node.
\<close>
theorem block_validation_panic_free:
  assumes "backend_total B" "from_bytes (deserialize_block B) bs = Ok b" "length bs < USIZE_LIMIT"
  shows "\<not> is_panic (validate_block_for_network B b ctx n)"
  using assms validate_block_no_panic [OF assms(1), of b ctx n] blk.from_bytes_iff [of bs B b] by (auto simp: is_panic_iff)

theorem block_validation_panic_free_witness:
  "\<not> is_panic (validate_block_for_network demo_backend demo_block demo_ctx NETWORK_MAGIC_TESTNET)"
  using block_validation_panic_free [OF demo_total, of "enc_block demo_block"] demo_block_length demo_block_ok
    blk.from_bytes_iff [OF demo_block_length, of demo_backend demo_block] by blast

text \<open>
  C30. Cut-through removes exactly the matched pairs: it succeeds precisely when no input and no
  output commitment repeats, and never panics; on success no commitment remains on both sides, the
  survivors keep their order, and for every assignment of group elements to commitments the
  outputs minus the inputs have the same sum as before.
\<close>
theorem cut_through_balanced:
  fixes f :: "bytes \<Rightarrow> 'g::ab_group_add"
  shows "(is_ok (apply_cut_through txs)
      \<longleftrightarrow> distinct (map icommit (concat (map inputs txs))) \<and> distinct (map ocommit (concat (map outputs txs))))
    \<and> \<not> is_panic (apply_cut_through txs)
    \<and> (\<forall>ins outs. apply_cut_through txs = Ok (ins, outs) \<longrightarrow>
        icommit ` set ins \<inter> ocommit ` set outs = {}
        \<and> ins = filter (\<lambda>i. icommit i \<notin> ocommit ` set (concat (map outputs txs))) (concat (map inputs txs))
        \<and> outs = filter (\<lambda>ou. ocommit ou \<notin> icommit ` set (concat (map inputs txs))) (concat (map outputs txs))
        \<and> sum_list (map f (map ocommit outs)) - sum_list (map f (map icommit ins))
           = sum_list (map f (map ocommit (concat (map outputs txs)))) - sum_list (map f (map icommit (concat (map inputs txs)))))"
  using cut_through_succeeds [of txs] cut_through_no_panic [of txs] cut_through_effect [of txs _ _ f] by auto

definition demo_spend :: transaction where
  "demo_spend = demo_tx\<lparr>inputs := [\<lparr>ti_commitment = demo_commit 93\<rparr>],
    outputs := [\<lparr>to_commitment = demo_commit 50, to_proof = []\<rparr>]\<rparr>"

lemma demo_cut:
  "apply_cut_through [demo_tx, demo_spend]
    = Ok ([\<lparr>ti_commitment = demo_commit 100\<rparr>], [\<lparr>to_commitment = demo_commit 50, to_proof = []\<rparr>])"
  unfolding apply_cut_through_Ok by (simp add: demo_spend_def demo_tx_def demo_commit_inject)

theorem cut_through_balanced_witness:
  "\<forall>f :: bytes \<Rightarrow> int. f (commit_bytes (demo_commit 50)) - f (commit_bytes (demo_commit 100))
     = f (commit_bytes (demo_commit 93)) + f (commit_bytes (demo_commit 50))
       - (f (commit_bytes (demo_commit 100)) + f (commit_bytes (demo_commit 93)))"
  using cut_through_balanced [of "[demo_tx, demo_spend]"] demo_cut by (simp add: demo_spend_def demo_tx_def)


text \<open>A backend whose hash adds up the bytes, and a kernel signed for one chain with the secret one.\<close>

definition demo_sum_backend :: "int backend" where
  "demo_sum_backend = demo_backend\<lparr>blake2b := (\<lambda>bs. nat_to_be 32 (sum_list (map unat bs)))\<rparr>"

definition demo_kernel :: transaction_kernel where
  "demo_kernel = \<lparr>tk_features = 0, tk_fee = Amount 1, tk_lock_height = 0, tk_excess = demo_commit 1,
    tk_excess_signature = (0x02 # nat_to_be 32 5) @ nat_to_be 32 (5 + 1839)\<rparr>"

lemma demo_sum_law: "curve_law demo_sum_backend"
  by (auto simp: curve_law_def demo_sum_backend_def demo_backend_def smul_int split: if_splits)

lemma kernel_byte_sums:
  "sum_list (map unat (u16_to_le (of_nat (length TAG_KERNEL_MSG)) @ TAG_KERNEL_MSG)) = 1537"
  "sum_list (map unat (u16_to_le (of_nat (length TAG_KERNEL_SIG)) @ TAG_KERNEL_SIG)) = 1533"
  "u64_to_le 0 = replicate 8 0" "sum_list (map unat (u64_to_le 1)) = 1"
  "sum_list (map unat (nat_to_be 32 5)) = 5" "sum_list (map unat (nat_to_be 32 1)) = 1" "sum_list (map unat (nat_to_be 32 1538)) = 8"
  by code_simp+

lemma demo_sum_message: "kernel_message demo_sum_backend demo_kernel = Hash256 (nat_to_be 32 1538)"
proof -
  have "sum_list (map unat (u16_to_le (of_nat (length TAG_KERNEL_MSG)) @ TAG_KERNEL_MSG
      @ tk_features demo_kernel # u64_to_le (noms (tk_fee demo_kernel)) @ u64_to_le (tk_lock_height demo_kernel))) = 1538"
    using kernel_byte_sums by (simp add: demo_kernel_def sum_list_replicate)
  then show ?thesis by (simp only: kernel_message_def blake2b_256_tagged_def) (simp add: demo_sum_backend_def)
qed

lemma demo_sum_challenge:
  "kernel_challenge demo_sum_backend (replicate 32 b) demo_kernel = Hash256 (nat_to_be 32 (1551 + 32 * unat b))"
proof -
  have "take 33 (tk_excess_signature demo_kernel) = 2 # nat_to_be 32 5" "commit_bytes (tk_excess demo_kernel) = 2 # nat_to_be 32 1"
    by (simp_all add: demo_kernel_def demo_commit_def)
  then have "sum_list (map unat (u16_to_le (of_nat (length TAG_KERNEL_SIG)) @ TAG_KERNEL_SIG
      @ take 33 (tk_excess_signature demo_kernel) @ commit_bytes (tk_excess demo_kernel) @ replicate 32 b @ nat_to_be 32 1538)) = 1551 + 32 * unat b"
    using kernel_byte_sums by (simp add: sum_list_replicate)
  then show ?thesis
    by (simp only: kernel_challenge_def schnorr_challenge_def blake2b_256_tagged_def public_key.sel demo_sum_message hash256.sel)
      (simp add: demo_sum_backend_def)
qed

lemma demo_sum_challenges:
  "kernel_challenge demo_sum_backend (replicate 32 9) demo_kernel = Hash256 (nat_to_be 32 1839)"
  "kernel_challenge demo_sum_backend (replicate 32 8) demo_kernel = Hash256 (nat_to_be 32 1807)"
  using demo_sum_challenge [of 9] demo_sum_challenge [of 8] by simp_all

lemma demo_kernel_ok: "kernel_ok demo_sum_backend demo_kernel"
  by (simp add: kernel_ok_def commitment_ok_def demo_sum_backend_def demo_backend_def demo_kernel_def demo_commit_def amount_ok_def
      is_valid_noms_def dom_consts)

lemma demo_kernel_accepted: "validate_kernel_signature demo_sum_backend (replicate 32 9) demo_kernel = Ok ()"
proof -
  have s: "is_scalar_valid (nat_to_be 32 1844)"
  proof -
    have "nat_to_be 32 1844 \<noteq> replicate 32 0"
    proof
      assume "nat_to_be 32 1844 = replicate 32 0"
      from arg_cong [OF this, of be_to_nat] show False by (simp add: be_to_nat_replicate_0)
    qed
    then show ?thesis using curve_order_large
      by (simp add: is_scalar_valid_def bytes_eq_zero_ct_def bytes_lt_ct_iff curve_order_def [symmetric])
  qed
  have frontier: "PublicKey_from_compressed_bytes demo_sum_backend (0x02 # nat_to_be 32 v) = Ok (PublicKey (0x02 # nat_to_be 32 v))" for v
    by (simp add: PublicKey_from_compressed_bytes_def classify_compressed_key_frontier_def demo_sum_backend_def demo_backend_def)
  have proj: "compressed_to_projective demo_sum_backend (0x02 # nat_to_be 32 v) = Ok (int v)" if "v < 2 ^ 200" for v
    using demo_not_h [OF that] that by (simp add: compressed_to_projective_def demo_sum_backend_def demo_backend_def)
  have sc: "scalar_from_bytes demo_sum_backend (nat_to_be 32 v) = Some v" if "v < 2 ^ 200" for v
    using that curve_order_large by (simp add: scalar_from_bytes_def demo_sum_backend_def demo_backend_def)
  have sig: "SchnorrSignature_from_bytes demo_sum_backend (tk_excess_signature demo_kernel)
      = Ok \<lparr>r_compressed = 0x02 # nat_to_be 32 5, sig_s = nat_to_be 32 1844\<rparr>"
    using s frontier by (simp add: SchnorrSignature_from_bytes_def demo_kernel_def signature_length_is_canonical_def Let_def)
  have c: "as_bytes (schnorr_challenge demo_sum_backend (0x02 # nat_to_be 32 5) (PublicKey (0x02 # nat_to_be 32 1)) (replicate 32 9)
      (as_bytes (kernel_message demo_sum_backend demo_kernel))) = nat_to_be 32 1839"
    using demo_sum_challenges(1) by (simp add: kernel_challenge_def demo_kernel_def demo_commit_def)
  have m: "point_mul demo_sum_backend x n = int n * x" "GENERATOR demo_sum_backend = 1" for x n
    by (simp_all add: demo_sum_backend_def demo_backend_def smul_int)
  have "schnorr_verify demo_sum_backend \<lparr>r_compressed = 0x02 # nat_to_be 32 5, sig_s = nat_to_be 32 1844\<rparr>
      (PublicKey (0x02 # nat_to_be 32 1)) (replicate 32 9) (as_bytes (kernel_message demo_sum_backend demo_kernel)) = Ok True"
    by (simp add: schnorr_verify_def Let_def c sc proj m del: One_nat_def)
  moreover have "commit_bytes (tk_excess demo_kernel) = 0x02 # nat_to_be 32 1" by (simp add: demo_kernel_def demo_commit_def)
  ultimately show ?thesis by (simp add: validate_kernel_signature_def sig frontier)
qed

lemma demo_kernel_inj:
  "inj_on (blake2b demo_sum_backend)
    (kernel_hash_inputs demo_sum_backend (replicate 32 9) demo_kernel \<union> kernel_hash_inputs demo_sum_backend (replicate 32 8) demo_kernel)"
proof -
  let ?m = "tagged_input TAG_KERNEL_MSG (tk_features demo_kernel # u64_to_le (noms (tk_fee demo_kernel)) @ u64_to_le (tk_lock_height demo_kernel))"
  let ?s = "\<lambda>chain. tagged_input TAG_KERNEL_SIG (take 33 (tk_excess_signature demo_kernel) @ commit_bytes (tk_excess demo_kernel) @ chain
       @ as_bytes (kernel_message demo_sum_backend demo_kernel))"
  have h: "blake2b demo_sum_backend ?m = nat_to_be 32 1538" "blake2b demo_sum_backend (?s (replicate 32 9)) = nat_to_be 32 1839"
      "blake2b demo_sum_backend (?s (replicate 32 8)) = nat_to_be 32 1807"
    using demo_sum_message demo_sum_challenges
    by (simp_all add: kernel_message_def kernel_challenge_def schnorr_challenge_def blake2b_256_tagged_def tagged_input_def)
  have ne: "nat_to_be 32 a \<noteq> nat_to_be 32 b" if "a \<noteq> b" "a < 256 ^ 32" "b < 256 ^ 32" for a b
    using that be_to_nat_nat_to_be by (metis mod_less)
  have "distinct (map (blake2b demo_sum_backend) [?m, ?s (replicate 32 9), ?s (replicate 32 8)])"
    unfolding list.map h by (simp add: ne)
  then have "inj_on (blake2b demo_sum_backend) (set [?m, ?s (replicate 32 9), ?s (replicate 32 8)])" by (simp only: distinct_map)
  moreover have "set [?m, ?s (replicate 32 9), ?s (replicate 32 8)]
      = kernel_hash_inputs demo_sum_backend (replicate 32 9) demo_kernel \<union> kernel_hash_inputs demo_sum_backend (replicate 32 8) demo_kernel"
    by (simp only: kernel_hash_inputs_def list.set) blast
  ultimately show ?thesis by (simp only:)
qed


end
