(* ===== verification/Utxo.thy ===== *)
theory Utxo
  imports Transaction
begin

text \<open>
  The unspent-output record of \<^verbatim>\<open>dom-store/src/utxo.rs\<close>: its fixed-prefix storage format and
  the coinbase maturity rule.  The lemmas show that the format is a bijection between
  entries and the accepted byte strings and that maturity is the arithmetic condition on
  confirmations, without wrap-around at either end of the height range.
\<close>

definition utxo_record_has_canonical_prefix :: "nat \<Rightarrow> u8 \<Rightarrow> bool" where
  "utxo_record_has_canonical_prefix len coinbase_flag = (9 \<le> len \<and> (coinbase_flag = 0 \<or> coinbase_flag = 1))"

definition coinbase_is_mature_at :: "bool \<Rightarrow> u64 \<Rightarrow> u64 \<Rightarrow> u64 \<Rightarrow> bool" where
  "coinbase_is_mature_at coinbase_output block_height current maturity =
    (\<not> coinbase_output \<or> maturity \<le> saturating_sub current block_height)"

record utxo_entry =
  ue_block_height :: u64
  is_coinbase :: bool
  ue_proof :: bytes

definition UtxoEntry_to_bytes :: "utxo_entry \<Rightarrow> bytes" where
  "UtxoEntry_to_bytes e = u64_to_le (ue_block_height e) @ [if is_coinbase e then 1 else 0] @ ue_proof e"

definition UtxoEntry_from_bytes :: "bytes \<Rightarrow> utxo_entry dom_result" where
  "UtxoEntry_from_bytes bs =
    (if length bs < 9 then Err (Malformed ''utxo entry too short'')
     else if \<not> utxo_record_has_canonical_prefix (length bs) (bs ! 8) then
       Err (Malformed ''utxo entry has invalid coinbase flag'')
     else if bs ! 8 = 0 then
       Ok \<lparr>ue_block_height = word_from_le (take 8 bs), is_coinbase = False, ue_proof = drop 9 bs\<rparr>
     else if bs ! 8 = 1 then
       Ok \<lparr>ue_block_height = word_from_le (take 8 bs), is_coinbase = True, ue_proof = drop 9 bs\<rparr>
     else Panic ''canonical prefix rejects invalid coinbase flags'')"

definition is_mature_for :: "utxo_entry \<Rightarrow> u64 \<Rightarrow> u64 \<Rightarrow> bool" where
  "is_mature_for e current maturity = coinbase_is_mature_at (is_coinbase e) (ue_block_height e) current maturity"

definition is_mature :: "utxo_entry \<Rightarrow> u64 \<Rightarrow> bool" where
  "is_mature e current = is_mature_for e current COINBASE_MATURITY"

definition validate_input_with_maturity :: "utxo_entry \<Rightarrow> block_height \<Rightarrow> u64 \<Rightarrow> unit dom_result" where
  "validate_input_with_maturity e current maturity =
    (if \<not> is_mature_for e (height_val current) maturity then
       Err (TemporarilyInvalid ''coinbase output not mature until height'')
     else Ok ())"

definition validate_input :: "utxo_entry \<Rightarrow> block_height \<Rightarrow> unit dom_result" where
  "validate_input e current = validate_input_with_maturity e current COINBASE_MATURITY"

section \<open>Storage format\<close>

lemma UtxoEntry_round_trip [simp]: "UtxoEntry_from_bytes (UtxoEntry_to_bytes e) = Ok e"
  by (cases e) (simp add: UtxoEntry_from_bytes_def UtxoEntry_to_bytes_def utxo_record_has_canonical_prefix_def nth_append)

lemma UtxoEntry_from_bytes_canonical:
  assumes "UtxoEntry_from_bytes bs = Ok e"
  shows "bs = UtxoEntry_to_bytes e"
proof -
  have len: "9 \<le> length bs" using assms by (auto simp: UtxoEntry_from_bytes_def split: if_splits)
  then have "drop 8 bs = bs ! 8 # drop 9 bs" using Cons_nth_drop_Suc [of 8 bs] by simp
  then have split: "bs = take 8 bs @ [bs ! 8] @ drop 9 bs" by (metis append_Cons append_Nil append_take_drop_id)
  have "u64_to_le (word_from_le (take 8 bs)) = take 8 bs"
    using len by (intro word_le_round_trip'(3)) simp
  with split assms show ?thesis
    by (auto simp: UtxoEntry_from_bytes_def UtxoEntry_to_bytes_def split: if_splits)
qed

lemma UtxoEntry_from_bytes_no_panic: "UtxoEntry_from_bytes bs \<noteq> Panic s"
  by (auto simp: UtxoEntry_from_bytes_def utxo_record_has_canonical_prefix_def)

section \<open>Maturity\<close>

lemma is_mature_for_iff:
  "is_mature_for e current maturity \<longleftrightarrow>
    (is_coinbase e \<longrightarrow> maturity = 0 \<or> unat (ue_block_height e) + unat maturity \<le> unat current)"
proof (cases "ue_block_height e \<le> current")
  case True
  then have "unat (current - ue_block_height e) = unat current - unat (ue_block_height e)"
    by (simp add: unat_sub)
  with True show ?thesis
    by (auto simp: is_mature_for_def coinbase_is_mature_at_def saturating_sub_def word_le_nat_alt)
next
  case False
  then show ?thesis
    by (auto simp: is_mature_for_def coinbase_is_mature_at_def saturating_sub_def word_le_nat_alt
        word_unat_eq_iff)
qed

lemma maturity_monotone: "is_mature_for e h m \<Longrightarrow> h \<le> h' \<Longrightarrow> is_mature_for e h' m"
  by (auto simp: is_mature_for_iff word_le_nat_alt)

text \<open>
  The storage format of an unspent output is canonical: a byte string is read back
  precisely when it is the image of the entry, so no two stored records denote one entry and
  no record is read as two; reading never panics.
\<close>
theorem utxo_entry_canonical:
  "(UtxoEntry_from_bytes bs = Ok e \<longleftrightarrow> UtxoEntry_to_bytes e = bs) \<and> \<not> is_panic (UtxoEntry_from_bytes bs)"
  using UtxoEntry_from_bytes_canonical UtxoEntry_from_bytes_no_panic by (auto simp: is_panic_iff)

end
