(* ===== verification/Mempool.thy ===== *)
theory Mempool
  imports Consensus Utxo "HOL-Library.AList" "HOL-Library.List_Lexorder" "HOL-Library.Product_Lexorder"
begin

text \<open>
  The transaction pool of \<^verbatim>\<open>dom-mempool/src/lib.rs\<close>: entries, the three indexes, admission with
  its eviction loop, removal, block selection, the canonical snapshot and its digest, and
  reinjection after a rollback.

  A HashMap is an association list with distinct keys whose order stands for the iteration
  order; the BTreeMap from keys to the unit value is its set of keys, ordered
  lexicographically.  An operation on \<^verbatim>\<open>&mut self\<close> returns the new pool beside its result,
  also when it fails.  The lemmas show that every operation keeps the indexes consistent,
  the pool free of conflicting spends and within its weight cap, characterise when
  admission succeeds, and show that listings do not depend on the iteration order.
\<close>

section \<open>Ordering\<close>

datatype ordering = Less | Equal | Greater

definition cmp :: "'a::linorder \<Rightarrow> 'a \<Rightarrow> ordering" where
  "cmp a b = (if a < b then Less else if a = b then Equal else Greater)"

fun then_with :: "ordering \<Rightarrow> ordering \<Rightarrow> ordering" where
  "then_with Equal o2 = o2"
| "then_with o1 _ = o1"

definition entry_fits_block_weight :: "u32 \<Rightarrow> u32 \<Rightarrow> u32 \<Rightarrow> bool" where
  "entry_fits_block_weight used_weight entry_weight max_weight = (entry_weight \<le> saturating_sub max_weight used_weight)"

definition compare_block_selection_order :: "u64 \<Rightarrow> bytes \<Rightarrow> u64 \<Rightarrow> bytes \<Rightarrow> ordering" where
  "compare_block_selection_order left_fee_rate left_hash right_fee_rate right_hash =
    then_with (cmp right_fee_rate left_fee_rate) (cmp left_hash right_hash)"

text \<open>The library sort by a comparator.\<close>

fun insert_by :: "('a \<Rightarrow> 'a \<Rightarrow> ordering) \<Rightarrow> 'a \<Rightarrow> 'a list \<Rightarrow> 'a list" where
  "insert_by c x [] = [x]"
| "insert_by c x (y # ys) = (if c x y = Greater then y # insert_by c x ys else x # y # ys)"

definition sort_by :: "('a \<Rightarrow> 'a \<Rightarrow> ordering) \<Rightarrow> 'a list \<Rightarrow> 'a list" where
  "sort_by c xs = foldr (insert_by c) xs []"

section \<open>Entries\<close>

record mempool_entry =
  me_tx :: transaction
  me_tx_hash :: bytes
  me_fee :: u64
  me_weight :: u32
  me_fee_rate :: u64
  me_received_at :: u64

record persisted_mempool_entry =
  pe_tx :: transaction
  pe_tx_hash :: bytes
  pe_received_at :: u64

datatype persisted_mempool_state = PersistedMempoolState (persisted_entries: "persisted_mempool_entry list")

definition MAX_PERSISTED_MEMPOOL_ENTRIES :: nat where
  "MAX_PERSISTED_MEMPOOL_ENTRIES = MAX_BLOCK_TXS * 10"

definition serialize_persisted_entry :: "persisted_mempool_entry \<Rightarrow> writer \<Rightarrow> writer dom_result" where
  "serialize_persisted_entry e w =
    serialize_transaction (pe_tx e) (write_u64 (write_bytes w (pe_tx_hash e)) (pe_received_at e))"

definition serialize_persisted_state :: "persisted_mempool_state \<Rightarrow> writer \<Rightarrow> writer dom_result" where
  "serialize_persisted_state st w =
    (if 2 ^ 32 \<le> length (persisted_entries st) then Err (Malformed ''persisted mempool entry count exceeds u32'')
     else try_fold (\<lambda>w e. serialize_persisted_entry e w)
       (write_u32 w (of_nat (length (persisted_entries st)))) (persisted_entries st))"

definition deserialize_persisted_entry :: "'p backend \<Rightarrow> reader \<Rightarrow> persisted_mempool_entry parse" where
  "deserialize_persisted_entry B r =
    and_then (read_array 32 r) (\<lambda>(h, r).
    and_then (read_u64 r) (\<lambda>(t, r).
    and_then (deserialize_transaction B r) (\<lambda>(tx, r).
    Ok (\<lparr>pe_tx = tx, pe_tx_hash = h, pe_received_at = t\<rparr>, r))))"

definition deserialize_persisted_state :: "'p backend \<Rightarrow> reader \<Rightarrow> persisted_mempool_state parse" where
  "deserialize_persisted_state B r =
    and_then (read_u32 r) (\<lambda>(len, r).
    if MAX_PERSISTED_MEMPOOL_ENTRIES < unat len then Err (Malformed ''persisted mempool entry count exceeds limit'')
    else
      and_then (read_items (deserialize_persisted_entry B) (unat len) r) (\<lambda>(es, r).
      Ok (PersistedMempoolState es, r)))"

definition MempoolEntry_new :: "transaction \<Rightarrow> bytes \<Rightarrow> u64 \<Rightarrow> mempool_entry dom_result" where
  "MempoolEntry_new tx tx_hash received_at =
    and_then (total_fee tx) (\<lambda>fee.
    and_then (fee_shape tx) (\<lambda>shape.
    and_then (weight_checked tx) (\<lambda>weight.
    and_then (actual_fee_rate fee (ucast weight)) (\<lambda>rate.
    and_then (validate_minimum_fee fee shape) (\<lambda>_.
    Ok \<lparr>me_tx = tx, me_tx_hash = tx_hash, me_fee = fee, me_weight = weight,
        me_fee_rate = noms_per_weight_unit rate, me_received_at = received_at\<rparr>)))))"

section \<open>The pool\<close>

record mempool =
  mp_entries :: "(bytes \<times> mempool_entry) list"
  input_index :: "bytes \<rightharpoonup> bytes"
  fee_index :: "(u64 \<times> bytes) set"
  mp_total_weight :: u64
  mp_max_weight :: u64

definition mempool_new :: mempool where
  "mempool_new = \<lparr>mp_entries = [], input_index = Map.empty, fee_index = {}, mp_total_weight = 0,
    mp_max_weight = ucast MAX_BLOCK_WEIGHT * 10\<rparr>"

definition mempool_len :: "mempool \<Rightarrow> nat" where
  "mempool_len m = length (mp_entries m)"

definition mempool_is_empty :: "mempool \<Rightarrow> bool" where
  "mempool_is_empty m = (mp_entries m = [])"

definition mempool_get_tx :: "mempool \<Rightarrow> bytes \<Rightarrow> mempool_entry option" where
  "mempool_get_tx m h = map_of (mp_entries m) h"

definition mempool_contains :: "mempool \<Rightarrow> bytes \<Rightarrow> bool" where
  "mempool_contains m h = (map_of (mp_entries m) h \<noteq> None)"

fun first_conflict :: "(bytes \<rightharpoonup> bytes) \<Rightarrow> bytes \<Rightarrow> transaction_input list \<Rightarrow> bytes option" where
  "first_conflict ix tx_hash [] = None"
| "first_conflict ix tx_hash (i # is) =
    (case ix (icommit i) of
       Some existing \<Rightarrow> if existing \<noteq> tx_hash then Some existing else first_conflict ix tx_hash is
     | None \<Rightarrow> first_conflict ix tx_hash is)"

definition first_conflicting_tx :: "mempool \<Rightarrow> transaction \<Rightarrow> bytes \<Rightarrow> bytes option" where
  "first_conflicting_tx m tx tx_hash = first_conflict (input_index m) tx_hash (inputs tx)"

definition release_input :: "bytes \<Rightarrow> (bytes \<rightharpoonup> bytes) \<Rightarrow> transaction_input \<Rightarrow> (bytes \<rightharpoonup> bytes)" where
  "release_input tx_hash ix i = (if ix (icommit i) = Some tx_hash then ix(icommit i := None) else ix)"

definition remove_tx :: "mempool \<Rightarrow> bytes \<Rightarrow> mempool" where
  "remove_tx m tx_hash =
    (case map_of (mp_entries m) tx_hash of
       None \<Rightarrow> m
     | Some entry \<Rightarrow> m\<lparr>mp_entries := AList.delete tx_hash (mp_entries m),
         input_index := foldl (release_input tx_hash) (input_index m) (inputs (me_tx entry)),
         fee_index := fee_index m - {(me_fee_rate entry, tx_hash)},
         mp_total_weight := saturating_sub (mp_total_weight m) (ucast (me_weight entry))\<rparr>)"

definition evict_lowest_fee :: "mempool \<Rightarrow> u64 \<Rightarrow> mempool \<times> unit dom_result" where
  "evict_lowest_fee m min_fee_rate =
    (if fee_index m = {} then (m, Ok ())
     else
       let (lowest_rate, h) = Min (fee_index m) in
       if min_fee_rate \<le> lowest_rate then (m, Err (PolicyRejected ''mempool full, fee too low to evict''))
       else (remove_tx m h, Ok ()))"

function evict_until_fits :: "mempool \<Rightarrow> u64 \<Rightarrow> u64 \<Rightarrow> mempool \<times> unit dom_result" where
  "evict_until_fits m fee_rate weight =
    (case checked_add (mp_total_weight m) weight of
       None \<Rightarrow> (m, Panic ''attempt to add with overflow'')
     | Some needed \<Rightarrow>
         if mp_max_weight m < needed then
           case evict_lowest_fee m fee_rate of
             (m', Ok _) \<Rightarrow>
               if mp_total_weight m \<le> mp_total_weight m' then
                 (m', Err (PolicyRejected ''mempool full, unable to free enough space for incoming tx''))
               else evict_until_fits m' fee_rate weight
           | (m', r) \<Rightarrow> (m', r)
         else (m, Ok ()))"
  by pat_completeness auto

termination
  by (relation "measure (\<lambda>(m, _, _). unat (mp_total_weight m))")
    (auto simp: not_le word_less_nat_alt)

declare evict_until_fits.simps [simp del]

definition insert_entry :: "mempool \<Rightarrow> bytes \<Rightarrow> mempool_entry \<Rightarrow> mempool" where
  "insert_entry m tx_hash entry =
    m\<lparr>mp_total_weight := mp_total_weight m + ucast (me_weight entry),
      fee_index := insert (me_fee_rate entry, tx_hash) (fee_index m),
      input_index := foldl (\<lambda>ix i. ix(icommit i \<mapsto> tx_hash)) (input_index m) (inputs (me_tx entry)),
      mp_entries := AList.update tx_hash entry (mp_entries m)\<rparr>"

definition accept_validated_tx :: "mempool \<Rightarrow> transaction \<Rightarrow> bytes \<Rightarrow> u64 \<Rightarrow> mempool \<times> unit dom_result" where
  "accept_validated_tx m tx tx_hash now_secs =
    (if mempool_contains m tx_hash then (m, Err (PolicyRejected ''transaction already in mempool''))
     else if first_conflicting_tx m tx tx_hash \<noteq> None then
       (m, Err (PolicyRejected ''input already reserved by mempool tx''))
     else try_in m (MempoolEntry_new tx tx_hash now_secs) (\<lambda>entry.
       if mp_max_weight m < ucast (me_weight entry) then
         (m, Err (PolicyRejected ''tx weight exceeds mempool max_weight''))
       else
         let (m', r) = evict_until_fits m (me_fee_rate entry) (ucast (me_weight entry)) in
         try_in m' r (\<lambda>_. (insert_entry m' tx_hash entry, Ok ()))))"

definition accept_tx :: "mempool \<Rightarrow> transaction \<Rightarrow> bytes \<Rightarrow> u64 \<Rightarrow> mempool \<times> unit dom_result" where
  "accept_tx m tx tx_hash now_secs =
    try_in m (validate_transaction_structure tx) (\<lambda>_. accept_validated_tx m tx tx_hash now_secs)"

definition precheck_cheap_admission_gates :: "mempool \<Rightarrow> transaction \<Rightarrow> bytes \<Rightarrow> unit dom_result" where
  "precheck_cheap_admission_gates m tx tx_hash =
    (if mempool_contains m tx_hash then Err (PolicyRejected ''transaction already in mempool'')
     else
       and_then (total_fee tx) (\<lambda>fee.
       and_then (fee_shape tx) (\<lambda>shape.
       and_then (weight_checked tx) (\<lambda>weight.
       and_then (validate_minimum_fee fee shape) (\<lambda>_.
       if mp_max_weight m < ucast weight then Err (PolicyRejected ''tx weight exceeds mempool max_weight'')
       else Ok ())))))"

definition check_chain_input ::
  "u64 \<Rightarrow> u64 \<Rightarrow> (bytes \<Rightarrow> utxo_entry option dom_result) \<Rightarrow> transaction_input \<Rightarrow> unit dom_result" where
  "check_chain_input current maturity lookup_utxo i =
    and_then (lookup_utxo (icommit i)) (\<lambda>found.
    case found of
      None \<Rightarrow> Err (PolicyRejected ''input commitment not found in canonical UTXO set'')
    | Some entry \<Rightarrow>
        if is_coinbase entry \<and> \<not> is_mature_for entry current maturity then
          Err (TemporarilyInvalid ''immature coinbase spend'')
        else Ok ())"

definition validate_tx_against_chain_view ::
  "transaction \<Rightarrow> u64 \<Rightarrow> u64 \<Rightarrow> (bytes \<Rightarrow> utxo_entry option dom_result) \<Rightarrow> unit dom_result" where
  "validate_tx_against_chain_view tx current maturity lookup_utxo =
    for_each (check_chain_input current maturity lookup_utxo) (inputs tx)"

definition accept_tx_with_chain_view ::
  "'p::ab_group_add backend \<Rightarrow> mempool \<Rightarrow> transaction \<Rightarrow> bytes \<Rightarrow> u64 \<Rightarrow> u64 \<Rightarrow> bytes \<Rightarrow> u64
    \<Rightarrow> (bytes \<Rightarrow> utxo_entry option dom_result) \<Rightarrow> mempool \<times> unit dom_result" where
  "accept_tx_with_chain_view B m tx tx_hash now_secs current chain maturity lookup_utxo =
    try_in m (precheck_cheap_admission_gates m tx tx_hash) (\<lambda>_.
    try_in m (validate_transaction B tx
        \<lparr>current_height = BlockHeight current, chain_id = chain, ctx_now = Timestamp now_secs\<rparr>) (\<lambda>_.
    try_in m (validate_tx_against_chain_view tx current maturity lookup_utxo) (\<lambda>_.
    accept_validated_tx m tx tx_hash now_secs)))"

section \<open>Listings\<close>

definition entries_in_block_order :: "mempool \<Rightarrow> mempool_entry list" where
  "entries_in_block_order m =
    sort_by (\<lambda>a b. compare_block_selection_order (me_fee_rate a) (me_tx_hash a) (me_fee_rate b) (me_tx_hash b))
      (map snd (mp_entries m))"

fun select_loop :: "u32 \<Rightarrow> u32 \<Rightarrow> mempool_entry list \<Rightarrow> mempool_entry list" where
  "select_loop max_weight used_weight [] = []"
| "select_loop max_weight used_weight (e # es) =
    (if \<not> entry_fits_block_weight used_weight (me_weight e) max_weight then select_loop max_weight used_weight es
     else e # select_loop max_weight (used_weight + me_weight e) es)"

definition select_for_block :: "mempool \<Rightarrow> u32 \<Rightarrow> mempool_entry list" where
  "select_for_block m max_weight = select_loop max_weight 0 (entries_in_block_order m)"

definition all_hashes :: "mempool \<Rightarrow> bytes list" where
  "all_hashes m = sort (map fst (mp_entries m))"

definition mempool_snapshot :: "mempool \<Rightarrow> persisted_mempool_state" where
  "mempool_snapshot m = PersistedMempoolState (sort_key pe_tx_hash
    (map (\<lambda>(_, e). \<lparr>pe_tx = me_tx e, pe_tx_hash = me_tx_hash e, pe_received_at = me_received_at e\<rparr>) (mp_entries m)))"

definition mempool_digest :: "'p backend \<Rightarrow> mempool \<Rightarrow> bytes dom_result" where
  "mempool_digest B m =
    and_then (expect_ok (to_bytes serialize_persisted_state (mempool_snapshot m))
        ''canonical mempool snapshot serialization is infallible'') (\<lambda>bs.
    Ok (as_bytes (blake2b_256 B bs)))"

section \<open>Batches\<close>

text \<open>The stateful map over a sorted batch: each admission sees the pool the previous one left.\<close>

fun admit_all ::
  "(mempool \<Rightarrow> transaction \<Rightarrow> bytes \<Rightarrow> u64 \<Rightarrow> mempool \<times> unit dom_result) \<Rightarrow> mempool
    \<Rightarrow> (transaction \<times> bytes \<times> u64) list \<Rightarrow> mempool \<times> (bytes \<times> unit dom_result) list" where
  "admit_all admit m [] = (m, [])"
| "admit_all admit m ((tx, tx_hash, now_secs) # rest) =
    (let (m1, r) = admit m tx tx_hash now_secs;
         (m2, outcomes) = admit_all admit m1 rest
     in (m2, (tx_hash, r) # outcomes))"

definition reinject_batch ::
  "mempool \<Rightarrow> (transaction \<times> bytes \<times> u64) list \<Rightarrow> mempool \<times> (bytes \<times> unit dom_result) list" where
  "reinject_batch m txs = admit_all accept_tx m (sort_key (\<lambda>(_, h, _). h) txs)"

definition reinject_batch_with_chain_view ::
  "'p::ab_group_add backend \<Rightarrow> mempool \<Rightarrow> (transaction \<times> bytes \<times> u64) list \<Rightarrow> u64 \<Rightarrow> bytes \<Rightarrow> u64
    \<Rightarrow> (bytes \<Rightarrow> utxo_entry option dom_result) \<Rightarrow> mempool \<times> (bytes \<times> unit dom_result) list" where
  "reinject_batch_with_chain_view B m txs current chain maturity lookup_utxo =
    admit_all (\<lambda>m tx h t. accept_tx_with_chain_view B m tx h t current chain maturity lookup_utxo) m
      (sort_key (\<lambda>(_, h, _). h) txs)"

definition remove_confirmed :: "mempool \<Rightarrow> bytes list \<Rightarrow> mempool" where
  "remove_confirmed m spent_commitments =
    foldl remove_tx m (sort (map (\<lambda>e. me_tx_hash e)
      (filter (\<lambda>e. \<exists>i \<in> set (inputs (me_tx e)). icommit i \<in> set spent_commitments) (map snd (mp_entries m)))))"

section \<open>The invariant\<close>

definition spends :: "mempool_entry \<Rightarrow> bytes set" where
  "spends e = icommit ` set (inputs (me_tx e))"

definition pool_weight :: "(bytes \<times> mempool_entry) list \<Rightarrow> nat" where
  "pool_weight es = sum_list (map (\<lambda>(h, e). unat (me_weight e)) es)"

definition entry_ok :: "bytes \<Rightarrow> mempool_entry \<Rightarrow> bool" where
  "entry_ok h e \<longleftrightarrow> structure_valid (me_tx e) \<and> MempoolEntry_new (me_tx e) h (me_received_at e) = Ok e"

definition mempool_ok :: "mempool \<Rightarrow> bool" where
  "mempool_ok m \<longleftrightarrow>
    distinct (map fst (mp_entries m)) \<and> (\<forall>(h, e) \<in> set (mp_entries m). entry_ok h e)
    \<and> fee_index m = (\<lambda>(h, e). (me_fee_rate e, h)) ` set (mp_entries m)
    \<and> (\<forall>c h. input_index m c = Some h \<longleftrightarrow> (\<exists>e. (h, e) \<in> set (mp_entries m) \<and> c \<in> spends e))
    \<and> unat (mp_total_weight m) = pool_weight (mp_entries m)
    \<and> pool_weight (mp_entries m) \<le> unat (mp_max_weight m) \<and> unat (mp_max_weight m) + 2 ^ 32 \<le> 2 ^ 64"

lemma entry_ok_hash: "entry_ok h e \<Longrightarrow> me_tx_hash e = h"
  by (cases e) (auto simp: entry_ok_def MempoolEntry_new_def)

lemma entry_ok_weight: "entry_ok h e \<Longrightarrow> me_weight e = of_nat (tx_weight (me_tx e)) \<and> 0 < unat (me_weight e)"
proof -
  assume ok: "entry_ok h e"
  then have w: "me_weight e = of_nat (tx_weight (me_tx e))" and c: "tx_counts_ok (me_tx e)"
    by (cases e; auto simp: entry_ok_def MempoolEntry_new_def weight_checked_Ok)+
  have "0 < tx_weight (me_tx e)"
    using ok by (auto simp: entry_ok_def structure_valid_def tx_weight_def)
  then show ?thesis using w tx_weight_bound [OF c] by (simp add: unat_of_nat)
qed

lemma unat_ucast_u32 [simp]: "unat (ucast (w :: u32) :: u64) = unat w"
  by (rule unat_ucast_up) simp

lemma unat_u32_less: "unat (w :: u32) < 2 ^ 32"
  using unat_less_pow [of w] by simp

lemma alist_update_new: "k \<notin> fst ` set al \<Longrightarrow> AList.update k v al = al @ [(k, v)]"
  by (induction al) auto

lemma alist_delete_absent: "k \<notin> fst ` set al \<Longrightarrow> AList.delete k al = al"
  by (induction al) (auto simp: AList.delete_eq)

lemma set_alist_delete: "set (AList.delete k al) = {(k', v) \<in> set al. k' \<noteq> k}"
  by (auto simp: AList.delete_eq)

lemma pool_weight_delete:
  assumes "distinct (map fst es)" "map_of es h = Some e"
  shows "pool_weight es = unat (me_weight e) + pool_weight (AList.delete h es)"
  using assms
proof (induction es)
  case (Cons x es)
  then show ?case
  proof (cases "fst x = h")
    case True
    then have "AList.delete h es = es"
      using Cons.prems(1) by (intro alist_delete_absent) simp
    with True Cons.prems show ?thesis by (cases x) (simp add: pool_weight_def AList.delete_eq)
  next
    case False
    with Cons show ?thesis by (cases x) (simp add: pool_weight_def AList.delete_eq)
  qed
qed simp

lemma release_inputs:
  "foldl (release_input h) ix is = (\<lambda>c. if ix c = Some h \<and> c \<in> icommit ` set is then None else ix c)"
  by (induction "is" arbitrary: ix) (auto simp: release_input_def fun_eq_iff)

lemma reserve_inputs:
  "foldl (\<lambda>ix i. ix(icommit i \<mapsto> h)) ix is = (\<lambda>c. if c \<in> icommit ` set is then Some h else ix c)"
  by (induction "is" arbitrary: ix) (auto simp: fun_eq_iff)

lemma conflict_free:
  assumes "mempool_ok m" "(h, e) \<in> set (mp_entries m)" "(k, x) \<in> set (mp_entries m)" "c \<in> spends e" "c \<in> spends x"
  shows "h = k \<and> e = x"
proof -
  have "input_index m c = Some h" "input_index m c = Some k"
    using assms unfolding mempool_ok_def by blast+
  then have "h = k" by simp
  moreover have "distinct (map fst (mp_entries m))" using assms(1) by (simp add: mempool_ok_def)
  ultimately show ?thesis using assms(2,3) by (auto dest: eq_key_imp_eq_value)
qed

section \<open>Removal\<close>

lemma remove_tx_entries: "mp_entries (remove_tx m h) = AList.delete h (mp_entries m)"
  by (simp add: remove_tx_def alist_delete_absent map_of_eq_None_iff split: option.split)

lemma remove_tx_max [simp]: "mp_max_weight (remove_tx m h) = mp_max_weight m"
  by (simp add: remove_tx_def split: option.splits)

lemma remove_tx_ok:
  assumes ok: "mempool_ok m"
  shows "mempool_ok (remove_tx m h)"
proof (cases "map_of (mp_entries m) h")
  case (Some e)
  let ?es = "mp_entries m" and ?es' = "AList.delete h (mp_entries m)"
  have d: "distinct (map fst ?es)" using ok by (simp add: mempool_ok_def)
  have mem: "(h, e') \<in> set ?es \<longleftrightarrow> e' = e" for e'
    using Some d by (metis map_of_is_SomeI map_of_SomeD option.inject)
  have w: "pool_weight ?es = unat (me_weight e) + pool_weight ?es'"
    by (rule pool_weight_delete [OF d Some])
  have "mp_total_weight (remove_tx m h) = mp_total_weight m - ucast (me_weight e)
      \<and> unat (mp_total_weight (remove_tx m h)) = pool_weight ?es'"
    using Some ok w by (simp add: remove_tx_def saturating_sub_def mempool_ok_def word_le_nat_alt unat_sub)
  moreover have "fee_index (remove_tx m h) = (\<lambda>(h, e). (me_fee_rate e, h)) ` set ?es'"
    using ok Some mem by (auto simp: remove_tx_def mempool_ok_def set_alist_delete image_iff)
  moreover have "input_index (remove_tx m h) c = Some k \<longleftrightarrow> (\<exists>x. (k, x) \<in> set ?es' \<and> c \<in> spends x)" for c k
  proof -
    have "input_index m c = Some k \<longleftrightarrow> (\<exists>x. (k, x) \<in> set ?es \<and> c \<in> spends x)" using ok by (simp add: mempool_ok_def)
    moreover have "input_index m c = Some h \<longleftrightarrow> c \<in> spends e" using ok mem by (simp add: mempool_ok_def)
    ultimately show ?thesis
      using Some mem by (auto simp: remove_tx_def set_alist_delete release_inputs spends_def [symmetric])
  qed
  moreover have "distinct (map fst ?es')" using d by (rule AList.distinct_delete)
  ultimately show ?thesis
    using ok w by (auto simp: mempool_ok_def remove_tx_entries set_alist_delete)
qed (use ok in \<open>simp add: remove_tx_def\<close>)

lemma remove_all_entries:
  "set (mp_entries (foldl remove_tx m hs)) = {(h, e) \<in> set (mp_entries m). h \<notin> set hs}"
  by (induction hs arbitrary: m) (auto simp: remove_tx_entries set_alist_delete)

lemma remove_all_ok: "mempool_ok m \<Longrightarrow> mempool_ok (foldl remove_tx m hs)"
  by (induction hs arbitrary: m) (auto intro: remove_tx_ok)

section \<open>Eviction\<close>

lemma fee_index_finite: "mempool_ok m \<Longrightarrow> finite (fee_index m)"
  by (simp add: mempool_ok_def)

lemma evict_lowest_fee_cases:
  assumes ok: "mempool_ok m"
  shows "(mp_entries m = [] \<and> evict_lowest_fee m r = (m, Ok ()))
    \<or> (mp_entries m \<noteq> [] \<and> (\<forall>(h, e) \<in> set (mp_entries m). r \<le> me_fee_rate e)
        \<and> evict_lowest_fee m r = (m, Err (PolicyRejected ''mempool full, fee too low to evict'')))
    \<or> (\<exists>h e. (h, e) \<in> set (mp_entries m) \<and> me_fee_rate e < r \<and> evict_lowest_fee m r = (remove_tx m h, Ok ()))"
proof (cases "mp_entries m = []")
  case False
  have fin: "finite (fee_index m)" and ne: "fee_index m \<noteq> {}"
    using ok False fee_index_finite by (auto simp: mempool_ok_def)
  obtain q h where q: "Min (fee_index m) = (q, h)" by fastforce
  then have "(q, h) \<in> fee_index m" using Min_in [OF fin ne] by simp
  then obtain e where e: "(h, e) \<in> set (mp_entries m)" "me_fee_rate e = q"
    using ok by (auto simp: mempool_ok_def)
  have low: "q \<le> me_fee_rate e'" if "(h', e') \<in> set (mp_entries m)" for h' e'
  proof -
    have "(me_fee_rate e', h') \<in> fee_index m" using that ok by (force simp: mempool_ok_def)
    then have "(q, h) \<le> (me_fee_rate e', h')" using Min_le [OF fin] q by metis
    then show ?thesis by (auto simp: less_eq_prod_def)
  qed
  show ?thesis
  proof (cases "r \<le> q")
    case True
    then have "evict_lowest_fee m r = (m, Err (PolicyRejected ''mempool full, fee too low to evict''))"
      using ne q by (simp add: evict_lowest_fee_def)
    with True False low show ?thesis by fastforce
  next
    case nle: False
    then have "evict_lowest_fee m r = (remove_tx m h, Ok ())" using ne q by (simp add: evict_lowest_fee_def)
    with nle e show ?thesis by (intro disjI2 exI [of _ h] exI [of _ e]) auto
  qed
qed (use ok in \<open>simp add: mempool_ok_def evict_lowest_fee_def\<close>)

definition kept_weight :: "u64 \<Rightarrow> (bytes \<times> mempool_entry) list \<Rightarrow> nat" where
  "kept_weight r es = pool_weight (filter (\<lambda>(h, e). r \<le> me_fee_rate e) es)"

definition evicted_from :: "u64 \<Rightarrow> mempool \<Rightarrow> mempool \<Rightarrow> bool" where
  "evicted_from r m m' \<longleftrightarrow> mp_max_weight m' = mp_max_weight m \<and> set (mp_entries m') \<subseteq> set (mp_entries m)
    \<and> (\<forall>(h, e) \<in> set (mp_entries m) - set (mp_entries m'). me_fee_rate e < r)
    \<and> kept_weight r (mp_entries m') = kept_weight r (mp_entries m)"

lemma evicted_from_refl [simp]: "evicted_from r m m"
  by (simp add: evicted_from_def)

lemma evicted_from_trans: "evicted_from r m m' \<Longrightarrow> evicted_from r m' m'' \<Longrightarrow> evicted_from r m m''"
  unfolding evicted_from_def by (auto; blast)

lemma evicted_from_remove:
  assumes "mempool_ok m" "(h, e) \<in> set (mp_entries m)" "me_fee_rate e < r"
  shows "evicted_from r m (remove_tx m h)"
proof -
  have d: "distinct (map fst (mp_entries m))" using assms(1) by (simp add: mempool_ok_def)
  then have u: "(h, e') \<in> set (mp_entries m) \<Longrightarrow> e' = e" for e'
    using assms(2) by (auto dest: eq_key_imp_eq_value)
  have "filter (\<lambda>(k, e). r \<le> me_fee_rate e) (AList.delete h (mp_entries m))
      = filter (\<lambda>(k, e). r \<le> me_fee_rate e) (mp_entries m)"
    unfolding AList.delete_eq filter_filter using u assms(3) by (intro filter_cong) auto
  then show ?thesis
    using u assms(3) by (auto simp: evicted_from_def remove_tx_entries set_alist_delete kept_weight_def)
qed

lemma remove_tx_total:
  assumes "mempool_ok m" "(h, e) \<in> set (mp_entries m)"
  shows "mp_total_weight (remove_tx m h) < mp_total_weight m"
proof -
  have d: "distinct (map fst (mp_entries m))" and e: "entry_ok h e"
    using assms by (auto simp: mempool_ok_def)
  have "unat (mp_total_weight (remove_tx m h)) = pool_weight (AList.delete h (mp_entries m))"
    using remove_tx_ok [OF assms(1), of h] by (simp add: mempool_ok_def remove_tx_entries)
  moreover have "pool_weight (mp_entries m) = unat (me_weight e) + pool_weight (AList.delete h (mp_entries m))"
    using assms(2) d by (intro pool_weight_delete) simp_all
  ultimately show ?thesis
    using assms(1) conjunct2 [OF entry_ok_weight [OF e]] by (simp add: mempool_ok_def word_less_nat_alt)
qed

lemma pool_weight_filter_le: "pool_weight (filter P es) \<le> pool_weight es"
  by (induction es) (auto simp: pool_weight_def split: prod.splits)

lemma evict_until_fits_exact:
  assumes "mempool_ok m" "unat w < 2 ^ 32" "w \<le> mp_max_weight m"
  shows "\<exists>m' r. evict_until_fits m rate w = (m', r) \<and> mempool_ok m' \<and> evicted_from rate m m'
    \<and> (if kept_weight rate (mp_entries m) + unat w \<le> unat (mp_max_weight m)
       then r = Ok () \<and> pool_weight (mp_entries m') + unat w \<le> unat (mp_max_weight m)
       else r = Err (PolicyRejected ''mempool full, fee too low to evict'')
         \<and> (\<forall>(h, e) \<in> set (mp_entries m'). rate \<le> me_fee_rate e))"
  using assms
proof (induction m rate w rule: evict_until_fits.induct)
  case (1 m rate w)
  have tot: "unat (mp_total_weight m) = pool_weight (mp_entries m)"
      "pool_weight (mp_entries m) \<le> unat (mp_max_weight m)" "unat (mp_max_weight m) + 2 ^ 32 \<le> 2 ^ 64"
    using "1.prems"(1) by (auto simp: mempool_ok_def)
  then have add: "unat (mp_total_weight m) + unat w < 2 ^ 64" using "1.prems"(2) by linarith
  then have ca: "checked_add (mp_total_weight m) w = Some (mp_total_weight m + w)"
      and un: "unat (mp_total_weight m + w) = pool_weight (mp_entries m) + unat w"
    using tot by (simp_all add: checked_add_def unat_add_no_overflow)
  show ?case
  proof (cases "mp_max_weight m < mp_total_weight m + w")
    case False
    have "kept_weight rate (mp_entries m) \<le> pool_weight (mp_entries m)"
      by (simp add: kept_weight_def pool_weight_filter_le)
    then show ?thesis
      using False "1.prems" ca un
      by (intro exI [of _ m] exI [of _ "Ok ()"]) (auto simp: evict_until_fits.simps [of m] word_less_nat_alt)
  next
    case True
    then have over: "unat (mp_max_weight m) < pool_weight (mp_entries m) + unat w"
      using un by (simp add: word_less_nat_alt)
    have ne: "mp_entries m \<noteq> []"
      using over "1.prems"(3) by (auto simp: pool_weight_def word_le_nat_alt)
    consider "\<forall>(h, e) \<in> set (mp_entries m). rate \<le> me_fee_rate e"
        "evict_lowest_fee m rate = (m, Err (PolicyRejected ''mempool full, fee too low to evict''))"
      | h e where "(h, e) \<in> set (mp_entries m)" "me_fee_rate e < rate" "evict_lowest_fee m rate = (remove_tx m h, Ok ())"
      using evict_lowest_fee_cases [OF "1.prems"(1), of rate] ne by auto
    then show ?thesis
    proof cases
      case 1
      then have "filter (\<lambda>(h, e). rate \<le> me_fee_rate e) (mp_entries m) = mp_entries m" by (intro filter_True)
      then have "kept_weight rate (mp_entries m) = pool_weight (mp_entries m)" by (simp add: kept_weight_def)
      with 1 over True ca "1.prems"(1) show ?thesis
        by (intro exI [of _ m] exI [of _ "Err (PolicyRejected ''mempool full, fee too low to evict'')"])
          (simp add: evict_until_fits.simps [of m])
    next
      case 2
      let ?m = "remove_tx m h"
      have less: "mp_total_weight ?m < mp_total_weight m" by (rule remove_tx_total [OF "1.prems"(1) 2(1)])
      have step: "evict_until_fits m rate w = evict_until_fits ?m rate w"
        using True ca 2(3) less by (simp add: evict_until_fits.simps [of m] linorder_not_le [symmetric])
      have ev: "evicted_from rate m ?m" by (rule evicted_from_remove [OF "1.prems"(1) 2(1,2)])
      have "w \<le> mp_max_weight ?m" using "1.prems"(3) by simp
      from "1.IH" [OF ca True 2(3) [symmetric] refl _ remove_tx_ok [OF "1.prems"(1)] "1.prems"(2) this] less
      obtain m' r where m': "evict_until_fits ?m rate w = (m', r)" "mempool_ok m'" "evicted_from rate ?m m'"
        "if kept_weight rate (mp_entries ?m) + unat w \<le> unat (mp_max_weight ?m)
         then r = Ok () \<and> pool_weight (mp_entries m') + unat w \<le> unat (mp_max_weight ?m)
         else r = Err (PolicyRejected ''mempool full, fee too low to evict'')
           \<and> (\<forall>(h, e) \<in> set (mp_entries m'). rate \<le> me_fee_rate e)"
        by (auto simp: not_le)
      moreover have "kept_weight rate (mp_entries ?m) = kept_weight rate (mp_entries m)"
        using ev by (simp add: evicted_from_def)
      ultimately show ?thesis
        using evicted_from_trans [OF ev m'(3)] by (intro exI [of _ m'] exI [of _ r]) (auto simp: step split: if_splits)
    qed
  qed
qed

lemma fee_shape_no_panic: "fee_shape tx \<noteq> Panic s"
  by (simp add: fee_shape_def TransactionShape_from_counts_def and_then_eq_Panic)

lemma weight_checked_no_panic: "weight_checked tx \<noteq> Panic s"
  by (simp add: weight_checked_def and_then_eq_Panic fee_shape_no_panic transaction_weight_def)

lemma validate_minimum_fee_no_panic: "validate_minimum_fee f sh \<noteq> Panic s"
  using fee_breakdown_total [of sh] by (auto simp: validate_minimum_fee_def and_then_eq_Panic)

section \<open>Admission\<close>

lemma first_conflict_None:
  "first_conflict ix h is = None \<longleftrightarrow> (\<forall>i \<in> set is. \<forall>k. ix (icommit i) = Some k \<longrightarrow> k = h)"
  by (induction "is") (auto split: option.splits)

lemma insert_entry_ok:
  assumes ok: "mempool_ok m" and new: "h \<notin> fst ` set (mp_entries m)" and e: "entry_ok h e"
    and free: "\<And>k x. (k, x) \<in> set (mp_entries m) \<Longrightarrow> spends x \<inter> spends e = {}"
    and fits: "pool_weight (mp_entries m) + unat (me_weight e) \<le> unat (mp_max_weight m)"
  shows "mempool_ok (insert_entry m h e) \<and> mp_entries (insert_entry m h e) = mp_entries m @ [(h, e)]"
proof -
  let ?m = "insert_entry m h e"
  have es: "mp_entries ?m = mp_entries m @ [(h, e)]"
    using new by (simp add: insert_entry_def alist_update_new)
  have tot: "unat (mp_total_weight m) + unat (me_weight e) < 2 ^ 64"
    using ok fits by (simp add: mempool_ok_def)
  have "unat (mp_total_weight ?m) = pool_weight (mp_entries ?m)"
    using ok tot unat_add_no_overflow [of "mp_total_weight m" "ucast (me_weight e)"]
    by (simp add: es, simp add: insert_entry_def mempool_ok_def pool_weight_def)
  moreover have "input_index ?m c = Some k \<longleftrightarrow> (\<exists>x. (k, x) \<in> set (mp_entries ?m) \<and> c \<in> spends x)" for c k
  proof -
    have "input_index m c = Some k \<longleftrightarrow> (\<exists>x. (k, x) \<in> set (mp_entries m) \<and> c \<in> spends x)"
      using ok by (simp add: mempool_ok_def)
    moreover have "input_index ?m c = (if c \<in> spends e then Some h else input_index m c)"
      by (simp add: insert_entry_def reserve_inputs spends_def)
    moreover have "c \<notin> spends x" if "c \<in> spends e" "(k, x) \<in> set (mp_entries m)" for x
      using free [OF that(2)] that(1) by blast
    ultimately show ?thesis by (auto simp: es)
  qed
  moreover have "fee_index ?m = (\<lambda>(h, e). (me_fee_rate e, h)) ` set (mp_entries ?m)"
    using ok by (simp add: es, simp add: insert_entry_def mempool_ok_def)
  moreover have "mp_max_weight ?m = mp_max_weight m" by (simp add: insert_entry_def)
  ultimately show ?thesis
    using ok e new fits by (simp add: mempool_ok_def es pool_weight_def)
qed

text \<open>What an admission attempt leaves behind and when it succeeds.\<close>

definition admission :: "mempool \<Rightarrow> bytes \<Rightarrow> mempool_entry \<Rightarrow> mempool \<times> unit dom_result \<Rightarrow> bool" where
  "admission m h e res \<longleftrightarrow> (\<exists>m'. mempool_ok m' \<and> evicted_from (me_fee_rate e) m m'
    \<and> (if kept_weight (me_fee_rate e) (mp_entries m) + unat (me_weight e) \<le> unat (mp_max_weight m)
       then snd res = Ok () \<and> mempool_ok (fst res) \<and> mp_entries (fst res) = mp_entries m' @ [(h, e)]
         \<and> mp_max_weight (fst res) = mp_max_weight m
       else res = (m', Err (PolicyRejected ''mempool full, fee too low to evict''))
         \<and> (\<forall>(k, x) \<in> set (mp_entries m'). me_fee_rate e \<le> me_fee_rate x)))"

lemma accept_validated_tx_cases:
  assumes ok: "mempool_ok m" and st: "structure_valid tx"
  shows "(\<exists>err. accept_validated_tx m tx h t = (m, Err err)
      \<and> (mempool_contains m h \<or> (\<exists>(k, x) \<in> set (mp_entries m). spends x \<inter> icommit ` set (inputs tx) \<noteq> {})
         \<or> MempoolEntry_new tx h t = Err err
         \<or> (\<exists>e. MempoolEntry_new tx h t = Ok e \<and> unat (mp_max_weight m) < unat (me_weight e))))
    \<or> (\<exists>e. MempoolEntry_new tx h t = Ok e \<and> h \<notin> fst ` set (mp_entries m)
        \<and> (\<forall>(k, x) \<in> set (mp_entries m). spends x \<inter> icommit ` set (inputs tx) = {})
        \<and> unat (me_weight e) \<le> unat (mp_max_weight m) \<and> entry_ok h e
        \<and> admission m h e (accept_validated_tx m tx h t))"
proof (cases "mempool_contains m h \<or> first_conflicting_tx m tx h \<noteq> None")
  case True
  have "\<exists>(k, x) \<in> set (mp_entries m). spends x \<inter> icommit ` set (inputs tx) \<noteq> {}" if fc: "first_conflicting_tx m tx h \<noteq> None"
  proof -
    obtain i k where i: "i \<in> set (inputs tx)" "input_index m (icommit i) = Some k"
      using fc unfolding first_conflicting_tx_def first_conflict_None by blast
    then obtain x where "(k, x) \<in> set (mp_entries m)" "icommit i \<in> spends x" using ok by (auto simp: mempool_ok_def)
    with i(1) show ?thesis by blast
  qed
  with True show ?thesis by (auto simp: accept_validated_tx_def)
next
  case False
  have new: "h \<notin> fst ` set (mp_entries m)"
    using False by (auto simp: mempool_contains_def map_of_eq_None_iff)
  have free: "spends x \<inter> icommit ` set (inputs tx) = {}" if x: "(k, x) \<in> set (mp_entries m)" for k x
  proof (rule ccontr)
    assume "spends x \<inter> icommit ` set (inputs tx) \<noteq> {}"
    then obtain i where i: "i \<in> set (inputs tx)" "icommit i \<in> spends x" by auto
    then have "input_index m (icommit i) = Some k" using ok x unfolding mempool_ok_def by blast
    then have "k = h" using False i by (auto simp: first_conflicting_tx_def first_conflict_None)
    with x new show False by force
  qed
  show ?thesis
  proof (cases "MempoolEntry_new tx h t")
    case (Ok e)
    then have fields: "me_tx e = tx" "me_received_at e = t" by (auto simp: MempoolEntry_new_def)
    with Ok st have eok: "entry_ok h e" by (simp add: entry_ok_def)
    show ?thesis
    proof (cases "unat (mp_max_weight m) < unat (me_weight e)")
      case True
      with False Ok show ?thesis
        by (auto simp: accept_validated_tx_def try_in_def word_less_nat_alt)
    next
      case le: False
      have cap: "ucast (me_weight e) \<le> mp_max_weight m" using le by (simp add: word_le_nat_alt)
      obtain m' r where m': "evict_until_fits m (me_fee_rate e) (ucast (me_weight e)) = (m', r)" "mempool_ok m'"
          "evicted_from (me_fee_rate e) m m'"
          "if kept_weight (me_fee_rate e) (mp_entries m) + unat (me_weight e) \<le> unat (mp_max_weight m)
           then r = Ok () \<and> pool_weight (mp_entries m') + unat (me_weight e) \<le> unat (mp_max_weight m)
           else r = Err (PolicyRejected ''mempool full, fee too low to evict'')
             \<and> (\<forall>(h, x) \<in> set (mp_entries m'). me_fee_rate e \<le> me_fee_rate x)"
        using evict_until_fits_exact [OF ok _ cap, of "me_fee_rate e", unfolded unat_ucast_u32, OF unat_u32_less] by blast
      have sub: "set (mp_entries m') \<subseteq> set (mp_entries m)" "mp_max_weight m' = mp_max_weight m"
        using m'(3) by (auto simp: evicted_from_def)
      have res: "accept_validated_tx m tx h t = try_in m' r (\<lambda>_. (insert_entry m' h e, Ok ()))"
        using False Ok le m'(1) by (auto simp: accept_validated_tx_def try_in_def word_less_nat_alt)
      have "admission m h e (accept_validated_tx m tx h t)"
      proof (cases "kept_weight (me_fee_rate e) (mp_entries m) + unat (me_weight e) \<le> unat (mp_max_weight m)")
        case True
        have "spends x \<inter> spends e = {}" if "(k, x) \<in> set (mp_entries m')" for k x
          using free that sub(1) by (auto simp: spends_def fields)
        then have "mempool_ok (insert_entry m' h e) \<and> mp_entries (insert_entry m' h e) = mp_entries m' @ [(h, e)]"
          using m' sub new eok True by (intro insert_entry_ok) auto
        moreover have "mp_max_weight (insert_entry m' h e) = mp_max_weight m" using sub by (simp add: insert_entry_def)
        ultimately show ?thesis
          using True m' by (simp add: admission_def res try_in_def) blast
      next
        case no: False
        with m' show ?thesis by (auto simp: admission_def res try_in_def)
      qed
      moreover have "\<forall>(k, x) \<in> set (mp_entries m). spends x \<inter> icommit ` set (inputs tx) = {}" using free by blast
      ultimately show ?thesis
        using Ok new le eok by (intro disjI2 exI [of _ e]) simp
    qed
  next
    case (Err x)
    with False show ?thesis by (auto simp: accept_validated_tx_def try_in_def)
  next
    case (Panic s)
    moreover have "MempoolEntry_new tx h t \<noteq> Panic s"
      by (auto simp: MempoolEntry_new_def and_then_eq_Panic total_fee_no_panic weight_checked_no_panic fee_shape_no_panic
          actual_fee_rate_def validate_minimum_fee_no_panic split: if_splits)
    ultimately show ?thesis by simp
  qed
qed

lemma accept_validated_tx_ok:
  assumes "mempool_ok m" "structure_valid tx"
  shows "mempool_ok (fst (accept_validated_tx m tx h t)) \<and> mp_max_weight (fst (accept_validated_tx m tx h t)) = mp_max_weight m"
  using accept_validated_tx_cases [OF assms, of h t] assms(1)
proof (elim disjE exE conjE)
  fix e assume a: "admission m h e (accept_validated_tx m tx h t)"
  then obtain m' where "mempool_ok m'" "evicted_from (me_fee_rate e) m m'"
      "fst (accept_validated_tx m tx h t) = m' \<or> mempool_ok (fst (accept_validated_tx m tx h t))
        \<and> mp_max_weight (fst (accept_validated_tx m tx h t)) = mp_max_weight m"
    by (auto simp: admission_def split: if_splits)
  then show ?thesis by (auto simp: evicted_from_def)
qed auto

lemma try_in_ok:
  "P m \<Longrightarrow> (\<And>x. r = Ok x \<Longrightarrow> P (fst (f x))) \<Longrightarrow> P (fst (try_in m r f))"
  by (simp add: try_in_def split: result.split)

lemma accept_tx_ok: "mempool_ok m \<Longrightarrow> mempool_ok (fst (accept_tx m tx h t))"
  unfolding accept_tx_def
  by (rule try_in_ok [where P = mempool_ok]) (auto simp: validate_structure_Ok dest: accept_validated_tx_ok)

lemma accept_tx_with_chain_view_ok:
  "mempool_ok m \<Longrightarrow> mempool_ok (fst (accept_tx_with_chain_view B m tx h t cur chain mat lk))"
  unfolding accept_tx_with_chain_view_def
  by (intro try_in_ok [where P = mempool_ok])
    (auto simp: validate_transaction_Ok transaction_valid_def dest: accept_validated_tx_ok)

lemma admit_all_ok:
  "(\<And>m tx h t. mempool_ok m \<Longrightarrow> mempool_ok (fst (adm m tx h t))) \<Longrightarrow> mempool_ok m \<Longrightarrow> mempool_ok (fst (admit_all adm m txs))"
proof (induction txs arbitrary: m)
  case (Cons x txs)
  obtain tx h t where x: "x = (tx, h, t)" by (cases x)
  have "mempool_ok (fst (adm m tx h t))" using Cons.prems by blast
  from Cons.IH [OF Cons.prems(1) this] show ?case by (auto simp: x split: prod.splits)
qed simp

lemma mempool_new_ok: "mempool_ok mempool_new"
  by (simp add: mempool_ok_def mempool_new_def pool_weight_def dom_consts)

section \<open>Reachable pools\<close>

text \<open>The operations through which the node changes its pool.\<close>

inductive pool_step :: "'p::ab_group_add backend \<Rightarrow> mempool \<Rightarrow> mempool \<Rightarrow> bool" for B where
  admit: "pool_step B m (fst (accept_tx m tx h t))"
| admit_chain: "pool_step B m (fst (accept_tx_with_chain_view B m tx h t cur chain mat lk))"
| remove: "pool_step B m (remove_tx m h)"
| confirm: "pool_step B m (remove_confirmed m spent)"
| reinject: "pool_step B m (fst (reinject_batch m txs))"
| reinject_chain: "pool_step B m (fst (reinject_batch_with_chain_view B m txs cur chain mat lk))"

inductive_cases pool_stepE: "pool_step B m m'"

lemma pool_step_ok: "pool_step B m m' \<Longrightarrow> mempool_ok m \<Longrightarrow> mempool_ok m'"
  by (induction rule: pool_step.induct)
    (simp_all add: accept_tx_ok accept_tx_with_chain_view_ok remove_tx_ok remove_confirmed_def remove_all_ok
      reinject_batch_def reinject_batch_with_chain_view_def admit_all_ok)

definition reachable_pool :: "'p::ab_group_add backend \<Rightarrow> mempool \<Rightarrow> bool" where
  "reachable_pool B m = (pool_step B)\<^sup>*\<^sup>* mempool_new m"

lemma reachable_pool_ok: "reachable_pool B m \<Longrightarrow> mempool_ok m"
  unfolding reachable_pool_def
  by (induction rule: rtranclp_induct) (auto intro: mempool_new_ok pool_step_ok)

lemma remove_confirmed_entries:
  assumes "mempool_ok m"
  shows "set (mp_entries (remove_confirmed m spent)) = {(h, e) \<in> set (mp_entries m). spends e \<inter> set spent = {}}"
proof -
  let ?P = "\<lambda>e. \<exists>i \<in> set (inputs (me_tx e)). icommit i \<in> set spent"
  let ?H = "set (sort (map (\<lambda>e. me_tx_hash e) (filter ?P (map snd (mp_entries m)))))"
  have hash: "me_tx_hash e = h" if "(h, e) \<in> set (mp_entries m)" for h e
    using assms that by (auto simp: mempool_ok_def intro: entry_ok_hash)
  have P: "?P e \<longleftrightarrow> spends e \<inter> set spent \<noteq> {}" for e by (auto simp: spends_def)
  have "h \<in> ?H \<longleftrightarrow> ?P e" if he: "(h, e) \<in> set (mp_entries m)" for h e
  proof
    assume "h \<in> ?H"
    then obtain x where px: "x \<in> snd ` set (mp_entries m)" "?P x" "me_tx_hash x = h"
      unfolding set_sort set_map set_filter by blast
    then obtain k where x: "(k, x) \<in> set (mp_entries m)" "?P x" "me_tx_hash x = h" by auto
    then have "k = h" using hash by auto
    with x he assms have "x = e" by (auto simp: mempool_ok_def dest: eq_key_imp_eq_value)
    with x show "?P e" by simp
  next
    assume p: "?P e"
    have "me_tx_hash e \<in> ?H" unfolding set_sort set_map set_filter using p he by force
    then show "h \<in> ?H" using hash [OF he] by simp
  qed
  then show ?thesis unfolding remove_confirmed_def remove_all_entries P by blast
qed

section \<open>Listings do not depend on the iteration order\<close>

definition block_key :: "mempool_entry \<Rightarrow> u64 \<times> bytes" where
  "block_key e = (- 1 - me_fee_rate e, me_tx_hash e)"

lemma compare_greater:
  "compare_block_selection_order (me_fee_rate a) (me_tx_hash a) (me_fee_rate b) (me_tx_hash b) = Greater
    \<longleftrightarrow> \<not> block_key a \<le> block_key b"
proof -
  have "- 1 - x < - 1 - y \<longleftrightarrow> y < x" for x y :: u64
  proof -
    have "unat (- 1 - z) = 2 ^ 64 - 1 - unat z" for z :: u64
      using unat_less_pow [of z] by (subst unat_sub) (simp_all add: word_le_nat_alt unsigned_minus_1_eq_mask mask_eq_exp_minus_1)
    then show ?thesis using unat_less_pow [of x] unat_less_pow [of y] by (simp add: word_less_nat_alt) linarith
  qed
  then show ?thesis
    by (auto simp: compare_block_selection_order_def cmp_def block_key_def less_eq_prod_def not_le)
qed

lemma sort_by_key:
  assumes "\<And>a b. c a b = Greater \<longleftrightarrow> \<not> f a \<le> f b"
  shows "sort_by c xs = sort_key f xs"
proof -
  have "insert_by c x ys = insort_key f x ys" for x ys
    using assms by (induction ys) simp_all
  then show ?thesis by (simp add: sort_by_def sort_key_def cong: foldr_cong)
qed

lemma entries_in_block_order_key: "entries_in_block_order m = sort_key block_key (map snd (mp_entries m))"
  unfolding entries_in_block_order_def by (rule sort_by_key) (rule compare_greater)

lemma sort_key_unique:
  assumes "distinct (map f xs)" "distinct (map f ys)" "set xs = set ys"
  shows "sort_key f xs = sort_key f ys"
proof (rule map_sorted_distinct_set_unique)
  show "inj_on f (set (sort_key f xs) \<union> set (sort_key f ys))"
    using assms by (simp add: distinct_map)
  have "distinct xs" "distinct ys" using assms by (auto simp: distinct_map)
  then show "distinct (map f (sort_key f xs))" "distinct (map f (sort_key f ys))"
    using assms by (simp_all add: distinct_map)
qed (use assms in simp_all)

lemma pool_hash: "mempool_ok m \<Longrightarrow> (h, e) \<in> set (mp_entries m) \<Longrightarrow> me_tx_hash e = h"
  by (auto simp: mempool_ok_def intro: entry_ok_hash)

lemma pool_hashes_distinct:
  assumes "mempool_ok m"
  shows "distinct (map (\<lambda>(h, e). me_tx_hash e) (mp_entries m))"
proof -
  have "map (\<lambda>(h, e). me_tx_hash e) (mp_entries m) = map fst (mp_entries m)"
    using pool_hash [OF assms] by (intro map_cong) auto
  moreover have "distinct (map fst (mp_entries m))" using assms by (simp add: mempool_ok_def)
  ultimately show ?thesis by metis
qed

lemma pool_keys_distinct:
  assumes "mempool_ok m"
  shows "distinct (map block_key (map snd (mp_entries m)))" "distinct (map snd (mp_entries m))"
proof -
  have d: "distinct (map (\<lambda>(h, e). me_tx_hash e) (mp_entries m))" using assms by (rule pool_hashes_distinct)
  have "map (\<lambda>(h, e). me_tx_hash e) (mp_entries m) = map snd (map block_key (map snd (mp_entries m)))"
    by (simp add: block_key_def case_prod_unfold)
  with d show "distinct (map block_key (map snd (mp_entries m)))" by (metis distinct_map)
  then show "distinct (map snd (mp_entries m))" by (simp only: distinct_map)
qed

lemma block_order_unique:
  assumes "mempool_ok m" "mempool_ok m'" "set (mp_entries m) = set (mp_entries m')"
  shows "entries_in_block_order m = entries_in_block_order m'"
  unfolding entries_in_block_order_key
  using pool_keys_distinct [OF assms(1)] pool_keys_distinct [OF assms(2)] assms(3)
  by (intro sort_key_unique) (simp_all only: set_map)

lemma snapshot_unique:
  assumes "mempool_ok m" "mempool_ok m'" "set (mp_entries m) = set (mp_entries m')"
  shows "mempool_snapshot m = mempool_snapshot m'"
proof -
  let ?f = "\<lambda>(_ :: bytes, e). \<lparr>pe_tx = me_tx e, pe_tx_hash = me_tx_hash e, pe_received_at = me_received_at e\<rparr>"
  have "map pe_tx_hash (map ?f es) = map (\<lambda>(h, e). me_tx_hash e) es" for es by (induction es) auto
  then have "distinct (map pe_tx_hash (map ?f (mp_entries m)))" "distinct (map pe_tx_hash (map ?f (mp_entries m')))"
    using pool_hashes_distinct [OF assms(1)] pool_hashes_distinct [OF assms(2)] by metis+
  then show ?thesis
    unfolding mempool_snapshot_def using assms(3) by (intro arg_cong [where f = PersistedMempoolState] sort_key_unique) simp_all
qed

section \<open>Block selection is greedy\<close>

definition weights :: "mempool_entry list \<Rightarrow> nat" where
  "weights es = sum_list (map (\<lambda>e. unat (me_weight e)) es)"

lemma weights_simps [simp]: "weights [] = 0" "weights (e # es) = unat (me_weight e) + weights es"
    "weights (xs @ ys) = weights xs + weights ys"
  by (simp_all add: weights_def)

lemma entry_fits_iff:
  "u \<le> W \<Longrightarrow> entry_fits_block_weight u w W \<longleftrightarrow> unat u + unat w \<le> unat W"
  by (auto simp: entry_fits_block_weight_def saturating_sub_def word_le_nat_alt unat_sub)

lemma select_loop_append:
  assumes "u \<le> W"
  shows "\<exists>u'. select_loop W u (xs @ ys) = select_loop W u xs @ select_loop W u' ys \<and> u' \<le> W
    \<and> unat u' = unat u + weights (select_loop W u xs)"
  using assms
proof (induction xs arbitrary: u)
  case (Cons e xs)
  show ?case
  proof (cases "entry_fits_block_weight u (me_weight e) W")
    case True
    then have fit: "unat u + unat (me_weight e) \<le> unat W" using entry_fits_iff [OF Cons.prems] by blast
    then have un: "unat (u + me_weight e) = unat u + unat (me_weight e)"
      using unat_less_pow [of W] by (intro unat_add_no_overflow) simp
    then have "u + me_weight e \<le> W" using fit by (simp add: word_le_nat_alt)
    from Cons.IH [OF this] True un show ?thesis by auto
  next
    case False
    with Cons show ?thesis by auto
  qed
qed auto

lemma select_loop_weight: "u \<le> W \<Longrightarrow> unat u + weights (select_loop W u es) \<le> unat W"
  using select_loop_append [of u W es "[]"] by (auto simp: word_le_nat_alt)

lemma select_loop_set: "set (select_loop W u es) \<subseteq> set es"
  by (induction W u es rule: select_loop.induct) auto

lemma select_loop_filter:
  assumes "distinct (xs @ ys)" "u \<le> W"
  shows "filter (\<lambda>e. e \<in> set (select_loop W u (xs @ ys))) xs = select_loop W u xs"
  using assms
proof (induction xs arbitrary: u)
  case (Cons e xs)
  have sub: "set (select_loop W v (xs @ ys)) \<subseteq> set (xs @ ys)" for v by (rule select_loop_set)
  show ?case
  proof (cases "entry_fits_block_weight u (me_weight e) W")
    case True
    then have fit: "unat u + unat (me_weight e) \<le> unat W" using entry_fits_iff [OF Cons.prems(2)] by blast
    then have "unat (u + me_weight e) = unat u + unat (me_weight e)"
      using unat_less_pow [of W] by (intro unat_add_no_overflow) simp
    then have le: "u + me_weight e \<le> W" using fit by (simp add: word_le_nat_alt)
    have "filter (\<lambda>x. x = e \<or> x \<in> set (select_loop W (u + me_weight e) (xs @ ys))) xs
        = filter (\<lambda>x. x \<in> set (select_loop W (u + me_weight e) (xs @ ys))) xs"
      using Cons.prems(1) by (intro filter_cong) auto
    with True Cons.IH [OF _ le] Cons.prems(1) show ?thesis by simp
  next
    case False
    with Cons sub show ?thesis by auto
  qed
qed simp

lemma validate_structure_eq_Ok: "structure_valid tx \<Longrightarrow> validate_transaction_structure tx = Ok ()"
  by (simp add: validate_structure_Ok)

lemma admission_facts:
  assumes "map_of (mp_entries m) h = None" "admission m h e res"
  shows "\<exists>m' r. res = (m', r)
    \<and> (r = Ok () \<longleftrightarrow> kept_weight (me_fee_rate e) (mp_entries m) + unat (me_weight e) \<le> unat (mp_max_weight m))
    \<and> (r = Ok () \<longrightarrow> mempool_get_tx m' h = Some e)
    \<and> (\<forall>(k, x) \<in> set (mp_entries m) - set (mp_entries m'). me_fee_rate x < me_fee_rate e)"
proof -
  obtain m' where m': "evicted_from (me_fee_rate e) m m'"
      "if kept_weight (me_fee_rate e) (mp_entries m) + unat (me_weight e) \<le> unat (mp_max_weight m)
       then snd res = Ok () \<and> mp_entries (fst res) = mp_entries m' @ [(h, e)]
       else res = (m', Err (PolicyRejected ''mempool full, fee too low to evict''))"
    using assms(2) by (auto simp: admission_def split: if_splits)
  have "map_of (mp_entries m') h = None"
    using assms(1) m'(1) by (auto simp: evicted_from_def map_of_eq_None_iff)
  then have "map_of (mp_entries m' @ [(h, e)]) h = Some e" by (simp add: map_add_def)
  then show ?thesis
    using m' by (cases res) (auto simp: evicted_from_def mempool_get_tx_def split: if_splits)
qed

lemma pool_step_max:
  assumes "pool_step B m m'" "mempool_ok m"
  shows "mp_max_weight m' = mp_max_weight m"
proof -
  let ?P = "\<lambda>m'. mempool_ok m' \<and> mp_max_weight m' = mp_max_weight m"
  have a: "?P (fst (accept_tx n tx h t))" if "?P n" for n tx h t
    unfolding accept_tx_def
    by (rule try_in_ok [where P = ?P]) (use that in \<open>auto simp: validate_structure_Ok dest: accept_validated_tx_ok\<close>)
  have c: "?P (fst (accept_tx_with_chain_view B n tx h t cur chain mat lk))" if "?P n" for n tx h t cur chain mat lk
    unfolding accept_tx_with_chain_view_def
    by (intro try_in_ok [where P = ?P])
      (use that in \<open>auto simp: validate_transaction_Ok transaction_valid_def dest: accept_validated_tx_ok\<close>)
  have r: "mp_max_weight (foldl remove_tx n hs) = mp_max_weight n" for n hs
    by (induction hs arbitrary: n) simp_all
  have ad: "?P (fst (admit_all adm n txs))" if "\<And>n tx h t. ?P n \<Longrightarrow> ?P (fst (adm n tx h t))" "?P n" for adm n txs
    using that(2)
  proof (induction txs arbitrary: n)
    case (Cons x txs)
    obtain tx h t where x: "x = (tx, h, t)" by (cases x)
    from Cons.IH [OF that(1) [OF Cons.prems], of tx h t] show ?case by (auto simp: x split: prod.splits)
  qed simp
  from assms show ?thesis
    using a [of m] c [of m] r ad [of accept_tx m, OF a]
      ad [of "\<lambda>n tx h t. accept_tx_with_chain_view B n tx h t cur chain mat lk" m for cur chain mat lk, OF c]
    by (cases rule: pool_step.cases)
      (simp_all add: remove_confirmed_def reinject_batch_def reinject_batch_with_chain_view_def)
qed

lemma reachable_pool_max: "reachable_pool B m \<Longrightarrow> mp_max_weight m = 400000"
  unfolding reachable_pool_def
proof (induction rule: rtranclp_induct)
  case base
  show ?case by (simp add: mempool_new_def dom_consts)
next
  case (step m m')
  then show ?case using pool_step_max reachable_pool_ok by (metis reachable_pool_def)
qed

lemma select_for_block_step:
  assumes "sel = select_loop W 0 es" "distinct es" "es = xs @ e # ys" "filter (\<lambda>x. x \<in> set sel) xs = select_loop W 0 xs"
  shows "e \<in> set sel \<longleftrightarrow> weights (filter (\<lambda>x. x \<in> set sel) xs) + unat (me_weight e) \<le> unat W"
proof -
  obtain u where u: "select_loop W 0 (xs @ e # ys) = select_loop W 0 xs @ select_loop W u (e # ys)" "u \<le> W"
      "unat u = weights (select_loop W 0 xs)"
    using select_loop_append [of 0 W xs "e # ys"] by auto
  have "e \<notin> set (select_loop W 0 xs)" "e \<notin> set (select_loop W u ys)"
    using assms(2,3) select_loop_set by fastforce+
  then have "e \<in> set sel \<longleftrightarrow> entry_fits_block_weight u (me_weight e) W"
    using assms(1,3) u(1) by (auto dest: select_loop_set [THEN subsetD])
  then show ?thesis using entry_fits_iff [OF u(2)] u(3) assms(4) by simp
qed

section \<open>A concrete pool\<close>

text \<open>
  Two transactions of weight 25 that pay 1000 and 3000 per unit, in a pool with a cap of 60.
\<close>

lemma MempoolEntry_new_eq:
  assumes "tx_counts_ok tx" "tx_fees tx < 2 ^ 64" "1000 * tx_weight tx \<le> tx_fees tx" "kernels tx \<noteq> []"
  shows "MempoolEntry_new tx h t = Ok \<lparr>me_tx = tx, me_tx_hash = h, me_fee = of_nat (tx_fees tx),
    me_weight = of_nat (tx_weight tx), me_fee_rate = of_nat (tx_fees tx div tx_weight tx), me_received_at = t\<rparr>"
proof -
  have fee: "total_fee tx = Ok (of_nat (tx_fees tx))"
    using assms(2) by (simp add: total_fee_Ok unat_of_nat)
  have w: "weight_checked tx = Ok (of_nat (tx_weight tx))" using assms(1) by (simp add: weight_checked_Ok)
  obtain s where s: "fee_shape tx = Ok s" "shape_weight s = tx_weight tx"
    using assms(1) by (auto simp: fee_shape_def from_counts_Ok tx_counts_ok_def counts_within_limits_def
        shape_weight_def tx_weight_def dom_consts unat_of_nat)
  obtain b where b: "fee_breakdown s = Ok b" "unat (minimum_fee_noms b) = 1000 * shape_weight s"
    using fee_breakdown_total by blast
  have min: "validate_minimum_fee (of_nat (tx_fees tx)) s = Ok b"
    using b s assms(2,3) by (simp add: validate_minimum_fee_def word_less_nat_alt unat_of_nat)
  have wt: "unat (ucast (of_nat (tx_weight tx) :: u32) :: u64) = tx_weight tx"
    using tx_weight_bound [OF assms(1)] by (simp add: unat_of_nat)
  have pos: "0 < tx_weight tx" using assms(4) by (simp add: tx_weight_def)
  have "(of_nat (tx_fees tx) :: u64) div ucast (of_nat (tx_weight tx) :: u32) = of_nat (tx_fees tx div tx_weight tx)"
    using assms(2) wt by (simp add: word_unat_eq_iff unat_div unat_of_nat div_less_dividend order.strict_trans1 [OF div_le_dividend])
  moreover have "ucast (of_nat (tx_weight tx) :: u32) \<noteq> (0 :: u64)" using wt pos by (metis unat_0 less_irrefl)
  ultimately show ?thesis
    by (simp add: MempoolEntry_new_def fee w s(1) min actual_fee_rate_def)
qed

definition demo_pool_tx :: "nat \<Rightarrow> nat list \<Rightarrow> u64 \<Rightarrow> transaction" where
  "demo_pool_tx c os fee = \<lparr>inputs = [\<lparr>ti_commitment = demo_commit c\<rparr>],
    outputs = map (\<lambda>v. \<lparr>to_commitment = demo_commit v, to_proof = [1]\<rparr>) os,
    kernels = [\<lparr>tk_features = 0, tk_fee = Amount fee, tk_lock_height = 0, tk_excess = demo_commit 0,
      tk_excess_signature = demo_signature\<rparr>], tx_offset = replicate 32 0\<rparr>"

definition demo_entry :: "bytes \<Rightarrow> nat \<Rightarrow> nat \<Rightarrow> u64 \<Rightarrow> u64 \<Rightarrow> mempool_entry" where
  "demo_entry h c v fee rate = \<lparr>me_tx = demo_pool_tx c [v] fee, me_tx_hash = h, me_fee = fee, me_weight = 25,
    me_fee_rate = rate, me_received_at = 0\<rparr>"

definition demo_pool :: mempool where
  "demo_pool = \<lparr>mp_entries = [([1], demo_entry [1] 10 11 25000 1000), ([2], demo_entry [2] 20 21 75000 3000)],
    input_index = [commit_bytes (demo_commit 10) \<mapsto> [1], commit_bytes (demo_commit 20) \<mapsto> [2]],
    fee_index = {(1000, [1]), (3000, [2])}, mp_total_weight = 50, mp_max_weight = 60\<rparr>"

definition demo_small :: transaction where "demo_small = demo_pool_tx 30 [31] 50000"
definition demo_large :: transaction where "demo_large = demo_pool_tx 30 [31, 32] 92000"

definition demo_large_entry :: mempool_entry where
  "demo_large_entry = \<lparr>me_tx = demo_large, me_tx_hash = [3], me_fee = 92000, me_weight = 46, me_fee_rate = 2000,
    me_received_at = 0\<rparr>"

lemma demo_pool_tx_valid:
  assumes "length os \<le> 2" "distinct os" "\<forall>v \<in> set os. v < 2 ^ 200"
  shows "structure_valid (demo_pool_tx c os fee)"
proof -
  have "distinct (map (\<lambda>v. commit_bytes (demo_commit v)) os)"
    using assms by (auto simp: distinct_map inj_on_def demo_commit_inject)
  then show ?thesis
    using assms(1) unat_less_pow [of fee] by (simp add: structure_valid_def demo_pool_tx_def tx_counts_ok_def counts_within_limits_def dom_consts
        tx_weight_def o_def)
qed

lemma demo_pool_tx_values:
  "tx_fees (demo_pool_tx c os fee) = unat fee" "tx_weight (demo_pool_tx c os fee) = 4 + 21 * length os"
  "length os \<le> 2 \<Longrightarrow> tx_counts_ok (demo_pool_tx c os fee)" "kernels (demo_pool_tx c os fee) \<noteq> []"
  by (simp_all add: demo_pool_tx_def tx_fees_def tx_weight_def tx_counts_ok_def counts_within_limits_def dom_consts)

lemma demo_small_valid: "structure_valid demo_small"
  unfolding demo_small_def by (rule demo_pool_tx_valid) simp_all

lemma demo_large_valid: "structure_valid demo_large"
  unfolding demo_large_def by (rule demo_pool_tx_valid) simp_all

lemma demo_small_entry: "MempoolEntry_new demo_small [3] 0 = Ok (demo_entry [3] 30 31 50000 2000)"
  unfolding demo_small_def
  by (subst MempoolEntry_new_eq) (simp_all add: demo_pool_tx_values demo_entry_def)

lemma demo_large_new: "MempoolEntry_new demo_large [3] 0 = Ok demo_large_entry"
  unfolding demo_large_def demo_large_entry_def
  by (subst MempoolEntry_new_eq) (simp_all add: demo_pool_tx_values)

lemma demo_entry_ok:
  "entry_ok [1] (demo_entry [1] 10 11 25000 1000)" "entry_ok [2] (demo_entry [2] 20 21 75000 3000)"
  by (simp_all add: entry_ok_def demo_entry_def demo_pool_tx_valid MempoolEntry_new_eq demo_pool_tx_values)

lemma demo_spends: "spends (demo_entry h c v fee rate) = {commit_bytes (demo_commit c)}"
  by (simp add: spends_def demo_entry_def demo_pool_tx_def)

lemma demo_pool_ok: "mempool_ok demo_pool"
proof -
  have "pool_weight (mp_entries demo_pool) = 50" by (simp add: demo_pool_def pool_weight_def demo_entry_def)
  moreover have "fee_index demo_pool = (\<lambda>(h, e). (me_fee_rate e, h)) ` set (mp_entries demo_pool)"
    by (simp add: demo_pool_def demo_entry_def)
  moreover have "input_index demo_pool c = Some h \<longleftrightarrow> (\<exists>e. (h, e) \<in> set (mp_entries demo_pool) \<and> c \<in> spends e)" for c h
    by (auto simp: demo_pool_def demo_spends demo_commit_inject)
  ultimately show ?thesis
    using demo_entry_ok by (simp add: mempool_ok_def, simp add: demo_pool_def)
qed

lemma demo_pool_free:
  "\<forall>(k, x) \<in> set (mp_entries demo_pool). spends x \<inter> icommit ` set (inputs demo_small) = {}"
  "\<forall>(k, x) \<in> set (mp_entries demo_pool). spends x \<inter> icommit ` set (inputs demo_large) = {}"
  by (simp_all add: demo_pool_def demo_spends demo_small_def demo_large_def demo_pool_tx_def demo_commit_inject)

section \<open>The snapshot on the wire\<close>

definition enc_persisted_entry :: "persisted_mempool_entry \<Rightarrow> bytes" where
  "enc_persisted_entry e = pe_tx_hash e @ u64_to_le (pe_received_at e) @ enc_transaction (pe_tx e)"

definition persisted_entry_ok :: "'p backend \<Rightarrow> persisted_mempool_entry \<Rightarrow> bool" where
  "persisted_entry_ok B e \<longleftrightarrow> length (pe_tx_hash e) = 32 \<and> transaction_ok B (pe_tx e)"

interpretation persisted_entry: codec serialize_persisted_entry "deserialize_persisted_entry B" enc_persisted_entry
  "persisted_entry_ok B" 84
  for B :: "'p backend"
proof unfold_locales
  show "deserialize_persisted_entry B r = Ok (a, r') \<longleftrightarrow> persisted_entry_ok B a \<and> reads r (enc_persisted_entry a) r'"
    for r a r'
    by (cases a) (auto simp: deserialize_persisted_entry_def reader_simps tx.des_iff persisted_entry_ok_def
        enc_persisted_entry_def reads_append)
  show "84 \<le> length (enc_persisted_entry a)" if "persisted_entry_ok B a" for a
    using that tx.enc_min [of B "pe_tx a"] by (simp add: persisted_entry_ok_def enc_persisted_entry_def)
qed (auto simp: serialize_persisted_entry_def writer_simps tx.ser_enc [of B] persisted_entry_ok_def
    enc_persisted_entry_def deserialize_persisted_entry_def and_then_eq_Panic tx.des_no_panic)

definition enc_persisted_state :: "persisted_mempool_state \<Rightarrow> bytes" where
  "enc_persisted_state st = enc_list enc_persisted_entry (persisted_entries st)"

definition persisted_state_ok :: "'p backend \<Rightarrow> persisted_mempool_state \<Rightarrow> bool" where
  "persisted_state_ok B st \<longleftrightarrow> length (persisted_entries st) \<le> MAX_PERSISTED_MEMPOOL_ENTRIES
    \<and> list_all (persisted_entry_ok B) (persisted_entries st)"

lemma max_persisted: "MAX_PERSISTED_MEMPOOL_ENTRIES = 50000"
  by (simp add: MAX_PERSISTED_MEMPOOL_ENTRIES_def dom_consts)

lemma deserialize_persisted_state_iff:
  "deserialize_persisted_state B r = Ok (a, r') \<longleftrightarrow> persisted_state_ok B a \<and> reads r (enc_persisted_state a) r'"
proof
  assume "deserialize_persisted_state B r = Ok (a, r')"
  then obtain c r1 es where r1: "reads r (u32_to_le c) r1" "unat c \<le> 50000" "a = PersistedMempoolState es"
      "read_items (deserialize_persisted_entry B) (unat c) r1 = Ok (es, r')"
    by (auto simp: deserialize_persisted_state_def reader_simps max_persisted split: if_splits)
  then have "length es = unat c \<and> list_all (persisted_entry_ok B) es \<and> reads r1 (concat (map enc_persisted_entry es)) r'"
    using persisted_entry.read_items_iff [OF reads_ok] by blast
  with r1 show "persisted_state_ok B a \<and> reads r (enc_persisted_state a) r'"
    by (auto simp: persisted_state_ok_def enc_persisted_state_def enc_list_def reads_append max_persisted)
next
  assume a: "persisted_state_ok B a \<and> reads r (enc_persisted_state a) r'"
  let ?es = "persisted_entries a"
  obtain r1 where r1: "reads r (u32_to_le (of_nat (length ?es))) r1" "reads r1 (concat (map enc_persisted_entry ?es)) r'"
    using a by (auto simp: enc_persisted_state_def enc_list_def reads_append)
  have n: "unat (of_nat (length ?es) :: u32) = length ?es"
    using a by (intro unat_of_nat_u32) (simp add: persisted_state_ok_def max_persisted)
  have "read_items (deserialize_persisted_entry B) (length ?es) r1 = Ok (?es, r')"
    using a r1 persisted_entry.read_items_iff [OF reads_ok [OF r1(1)], of B "length ?es" ?es r'] by (simp add: persisted_state_ok_def)
  moreover have "read_u32 r = Ok (of_nat (length ?es), r1)" using r1 by (simp add: read_u32_iff)
  ultimately show "deserialize_persisted_state B r = Ok (a, r')"
    using a n by (cases a) (simp add: deserialize_persisted_state_def persisted_state_ok_def max_persisted)
qed

interpretation persisted_state: codec serialize_persisted_state "deserialize_persisted_state B" enc_persisted_state
  "persisted_state_ok B" 4
  for B :: "'p backend"
proof unfold_locales
  show "serialize_persisted_state a w = Ok (w\<lparr>wbuf := wbuf w @ enc_persisted_state a\<rparr>)" if "persisted_state_ok B a" for a w
    using that persisted_entry.ser_items [of B "persisted_entries a"]
    by (simp add: serialize_persisted_state_def persisted_state_ok_def max_persisted enc_persisted_state_def
        enc_list_def writer_simps)
  show "deserialize_persisted_state B r \<noteq> Panic s" for r s
    by (auto simp: deserialize_persisted_state_def and_then_eq_Panic persisted_entry.read_items_no_panic)
qed (auto simp: deserialize_persisted_state_iff enc_persisted_state_def enc_list_def)

section \<open>Properties\<close>

text \<open>
  C12. In every pool reachable from the empty one by admissions, removals, confirmations and
  reinjections, no two transactions spend the same commitment, the pool weighs at most
  400000, every stored hash is the key of its entry, and the reservation index and the fee
  index hold exactly the inputs and the fee rates of the stored transactions.
\<close>
theorem pool_invariant:
  assumes "reachable_pool B m"
  shows "(\<forall>h e k x. mempool_get_tx m h = Some e \<longrightarrow> mempool_get_tx m k = Some x \<longrightarrow> h \<noteq> k \<longrightarrow> spends e \<inter> spends x = {})
    \<and> pool_weight (mp_entries m) \<le> 400000 \<and> unat (mp_total_weight m) = pool_weight (mp_entries m)
    \<and> (\<forall>h e. mempool_get_tx m h = Some e \<longrightarrow> me_tx_hash e = h \<and> structure_valid (me_tx e))
    \<and> (\<forall>c h. input_index m c = Some h \<longleftrightarrow> (\<exists>e. mempool_get_tx m h = Some e \<and> c \<in> spends e))
    \<and> fee_index m = {(me_fee_rate e, h) | h e. mempool_get_tx m h = Some e}"
proof -
  have ok: "mempool_ok m" by (rule reachable_pool_ok [OF assms])
  have mem: "mempool_get_tx m h = Some e \<longleftrightarrow> (h, e) \<in> set (mp_entries m)" for h e
    using ok by (auto simp: mempool_get_tx_def mempool_ok_def dest: map_of_SomeD)
  have max: "mp_max_weight m = 400000" by (rule reachable_pool_max [OF assms])
  have "fee_index m = {(me_fee_rate e, h) | h e. (h, e) \<in> set (mp_entries m)}"
    using ok unfolding mempool_ok_def by force
  moreover have "\<forall>h e k x. (h, e) \<in> set (mp_entries m) \<longrightarrow> (k, x) \<in> set (mp_entries m) \<longrightarrow> h \<noteq> k \<longrightarrow> spends e \<inter> spends x = {}"
    using conflict_free [OF ok] by blast
  moreover have "\<forall>h e. (h, e) \<in> set (mp_entries m) \<longrightarrow> me_tx_hash e = h \<and> structure_valid (me_tx e)"
    using ok pool_hash [OF ok] by (auto simp: mempool_ok_def entry_ok_def)
  ultimately show ?thesis
    using ok unfolding mem by (simp add: mempool_ok_def max)
qed

theorem pool_invariant_witness:
  "pool_weight (mp_entries mempool_new) \<le> 400000 \<and> fee_index mempool_new = {}"
  using pool_invariant [of demo_backend mempool_new]
  by (auto simp: reachable_pool_def mempool_new_def mempool_get_tx_def)

text \<open>
  C22. Admission is exact: a structurally valid transaction that is new, conflicts with no pooled
  transaction, pays the minimum fee and fits the pool on its own is admitted precisely when it
  fits beside the pooled transactions that pay at least its fee rate; what is evicted pays
  strictly less, and an admitted transaction is found under its hash.
\<close>
theorem admission_exact:
  assumes ok: "mempool_ok m" and st: "structure_valid tx" and new: "\<not> mempool_contains m h"
    and entry: "MempoolEntry_new tx h t = Ok e" and cap: "unat (me_weight e) \<le> unat (mp_max_weight m)"
    and free: "\<forall>(k, x) \<in> set (mp_entries m). spends x \<inter> icommit ` set (inputs tx) = {}"
  shows "\<exists>m' r. accept_tx m tx h t = (m', r)
    \<and> (r = Ok () \<longleftrightarrow> kept_weight (me_fee_rate e) (mp_entries m) + unat (me_weight e) \<le> unat (mp_max_weight m))
    \<and> (r = Ok () \<longrightarrow> mempool_get_tx m' h = Some e)
    \<and> (\<forall>(k, x) \<in> set (mp_entries m) - set (mp_entries m'). me_fee_rate x < me_fee_rate e)"
proof -
  have "admission m h e (accept_validated_tx m tx h t)"
    using accept_validated_tx_cases [OF ok st, of h t] new entry cap free by fastforce
  then have "admission m h e (accept_tx m tx h t)"
    using st by (simp add: accept_tx_def try_in_def validate_structure_eq_Ok)
  then show ?thesis by (rule admission_facts [rotated]) (use new in \<open>simp add: mempool_contains_def\<close>)
qed

theorem admission_exact_witness: "snd (accept_tx demo_pool demo_small [3] 0) = Ok ()"
proof -
  let ?e = "demo_entry [3] 30 31 50000 2000"
  have new: "\<not> mempool_contains demo_pool [3]" by (simp add: demo_pool_def mempool_contains_def)
  have cap: "unat (me_weight ?e) \<le> unat (mp_max_weight demo_pool)" by (simp add: demo_entry_def demo_pool_def)
  have fits: "kept_weight (me_fee_rate ?e) (mp_entries demo_pool) + unat (me_weight ?e) \<le> unat (mp_max_weight demo_pool)"
    by (simp add: kept_weight_def pool_weight_def demo_entry_def demo_pool_def)
  from admission_exact [OF demo_pool_ok demo_small_valid new demo_small_entry cap demo_pool_free(1)] fits
  show ?thesis by auto
qed

text \<open>
  C29. A refused admission is not without effect: when the pool is too full of transactions that
  pay at least the incoming fee rate, the incoming transaction is refused, and yet every
  pooled transaction that pays less has been evicted.
\<close>
theorem refused_admission_evicts:
  assumes ok: "mempool_ok m" and st: "structure_valid tx" and new: "\<not> mempool_contains m h"
    and entry: "MempoolEntry_new tx h t = Ok e" and cap: "unat (me_weight e) \<le> unat (mp_max_weight m)"
    and free: "\<forall>(k, x) \<in> set (mp_entries m). spends x \<inter> icommit ` set (inputs tx) = {}"
    and full: "unat (mp_max_weight m) < kept_weight (me_fee_rate e) (mp_entries m) + unat (me_weight e)"
  shows "snd (accept_tx m tx h t) = Err (PolicyRejected ''mempool full, fee too low to evict'')
    \<and> set (mp_entries (fst (accept_tx m tx h t))) = {(k, x) \<in> set (mp_entries m). me_fee_rate e \<le> me_fee_rate x}"
proof -
  have "admission m h e (accept_validated_tx m tx h t)"
    using accept_validated_tx_cases [OF ok st, of h t] new entry cap free by fastforce
  then have "admission m h e (accept_tx m tx h t)"
    using st by (simp add: accept_tx_def try_in_def validate_structure_eq_Ok)
  then obtain m' where m': "evicted_from (me_fee_rate e) m m'"
      "accept_tx m tx h t = (m', Err (PolicyRejected ''mempool full, fee too low to evict''))"
      "\<forall>(k, x) \<in> set (mp_entries m'). me_fee_rate e \<le> me_fee_rate x"
    using full unfolding admission_def by (metis not_less)
  then have "set (mp_entries m') = {(k, x) \<in> set (mp_entries m). me_fee_rate e \<le> me_fee_rate x}"
  proof (intro equalityI subsetI)
    fix kx assume "kx \<in> {(k, x) \<in> set (mp_entries m). me_fee_rate e \<le> me_fee_rate x}"
    then have "kx \<in> set (mp_entries m)" "\<not> me_fee_rate (snd kx) < me_fee_rate e" by (auto simp: not_less)
    moreover obtain k x where "kx = (k, x)" by fastforce
    ultimately show "kx \<in> set (mp_entries m')" using m'(1) unfolding evicted_from_def by auto
  qed (use m' in \<open>auto simp: evicted_from_def\<close>)
  with m'(2) show ?thesis by simp
qed

theorem refused_admission_evicts_witness:
  "snd (accept_tx demo_pool demo_large [3] 0) = Err (PolicyRejected ''mempool full, fee too low to evict'')
    \<and> set (mp_entries (fst (accept_tx demo_pool demo_large [3] 0))) = {([2], demo_entry [2] 20 21 75000 3000)}"
proof -
  have "snd (accept_tx demo_pool demo_large [3] 0) = Err (PolicyRejected ''mempool full, fee too low to evict'')
    \<and> set (mp_entries (fst (accept_tx demo_pool demo_large [3] 0)))
      = {(k, x) \<in> set (mp_entries demo_pool). me_fee_rate (demo_large_entry) \<le> me_fee_rate x}"
    using demo_pool_free
    by (intro refused_admission_evicts [OF demo_pool_ok demo_large_valid _ demo_large_new])
      (simp_all add: demo_pool_def mempool_contains_def demo_large_entry_def kept_weight_def pool_weight_def demo_entry_def)
  moreover have "{(k, x) \<in> set (mp_entries demo_pool). me_fee_rate (demo_large_entry) \<le> me_fee_rate x}
      = {([2], demo_entry [2] 20 21 75000 3000)}"
    by (auto simp: demo_pool_def demo_large_entry_def demo_entry_def)
  ultimately show ?thesis by simp
qed

text \<open>
  C28. Listings do not depend on the history of the pool: two pools that hold the same entries
  agree on the block order, the selection for a block, the hash listing, the snapshot and the
  digest, whatever the iteration order of their maps.
\<close>
theorem listings_order_independent:
  assumes "mempool_ok m" "mempool_ok m'" "set (mp_entries m) = set (mp_entries m')"
  shows "select_for_block m W = select_for_block m' W \<and> all_hashes m = all_hashes m'
    \<and> mempool_snapshot m = mempool_snapshot m' \<and> mempool_digest B m = mempool_digest B m'"
proof -
  have "all_hashes m = all_hashes m'"
    unfolding all_hashes_def using assms by (intro sort_key_unique) (auto simp: mempool_ok_def)
  then show ?thesis
    using block_order_unique [OF assms] snapshot_unique [OF assms]
    by (simp add: select_for_block_def mempool_digest_def)
qed

definition demo_pool_rev :: mempool where
  "demo_pool_rev = demo_pool\<lparr>mp_entries := rev (mp_entries demo_pool)\<rparr>"

theorem listings_order_independent_witness:
  "select_for_block demo_pool 40 = select_for_block demo_pool_rev 40 \<and> all_hashes demo_pool = all_hashes demo_pool_rev
    \<and> mempool_snapshot demo_pool = mempool_snapshot demo_pool_rev
    \<and> mempool_digest demo_backend demo_pool = mempool_digest demo_backend demo_pool_rev"
proof (rule listings_order_independent [OF demo_pool_ok])
  have "pool_weight (rev es) = pool_weight es" for es
    by (simp add: pool_weight_def rev_map [symmetric])
  then show "mempool_ok demo_pool_rev"
    using demo_pool_ok by (simp add: mempool_ok_def demo_pool_rev_def rev_map [symmetric])
  show "set (mp_entries demo_pool) = set (mp_entries demo_pool_rev)" by (simp add: demo_pool_rev_def)
qed

text \<open>
  C24. Block selection is the greedy choice: the selected entries are pooled, weigh at most the
  budget, come in block order, and an entry is taken precisely when it fits beside the entries
  taken before it.
\<close>
theorem selection_greedy:
  assumes "mempool_ok m"
  shows "weights (select_for_block m W) \<le> unat W
    \<and> select_for_block m W = filter (\<lambda>e. e \<in> set (select_for_block m W)) (entries_in_block_order m)
    \<and> sorted (map block_key (entries_in_block_order m)) \<and> set (entries_in_block_order m) = snd ` set (mp_entries m)
    \<and> (\<forall>xs e ys. entries_in_block_order m = xs @ e # ys \<longrightarrow>
        (e \<in> set (select_for_block m W) \<longleftrightarrow>
          weights (filter (\<lambda>x. x \<in> set (select_for_block m W)) xs) + unat (me_weight e) \<le> unat W))"
proof -
  let ?es = "entries_in_block_order m"
  have d: "distinct ?es" unfolding entries_in_block_order_key using pool_keys_distinct(2) [OF assms] by simp
  have sel: "filter (\<lambda>x. x \<in> set (select_for_block m W)) xs = select_loop W 0 xs" if "?es = xs @ ys" for xs ys
    using select_loop_filter [of xs ys 0 W] d that by (simp add: select_for_block_def)
  have "e \<in> set (select_for_block m W) \<longleftrightarrow>
      weights (filter (\<lambda>x. x \<in> set (select_for_block m W)) xs) + unat (me_weight e) \<le> unat W" if eq: "?es = xs @ e # ys" for xs e ys
    by (rule select_for_block_step [OF _ d eq sel [OF eq]]) (simp add: select_for_block_def)
  moreover have "weights (select_for_block m W) \<le> unat W"
    using select_loop_weight [of 0 W ?es] by (simp add: select_for_block_def)
  moreover have "set ?es = snd ` set (mp_entries m)" "sorted (map block_key ?es)"
    by (simp_all add: entries_in_block_order_key)
  ultimately show ?thesis
    using sel [of ?es "[]"] by (simp add: select_for_block_def)
qed

theorem selection_greedy_witness: "weights (select_for_block demo_pool 40) \<le> 40"
  using selection_greedy [OF demo_pool_ok, of 40] by simp

text \<open>
  C23. Admission against the chain is safe: if the production path accepts, the transaction is
  fully valid at that height, each input is an unspent output of the chain that is not an
  immature coinbase, and no other pooled transaction spends it.
\<close>
theorem chain_admission_safe:
  assumes ok: "mempool_ok m" and acc: "accept_tx_with_chain_view B m tx h t cur chain maturity lk = (m', Ok ())"
  shows "mempool_ok m' \<and> (\<exists>e. mempool_get_tx m' h = Some e \<and> me_tx e = tx)
    \<and> transaction_valid B \<lparr>current_height = BlockHeight cur, chain_id = chain, ctx_now = Timestamp t\<rparr> tx
    \<and> (\<forall>i \<in> set (inputs tx). \<exists>u. lk (icommit i) = Ok (Some u)
        \<and> (is_coinbase u \<longrightarrow> maturity = 0 \<or> unat (ue_block_height u) + unat maturity \<le> unat cur))
    \<and> (\<forall>k x. mempool_get_tx m' k = Some x \<longrightarrow> k \<noteq> h \<longrightarrow> spends x \<inter> icommit ` set (inputs tx) = {})"
proof -
  have tv: "transaction_valid B \<lparr>current_height = BlockHeight cur, chain_id = chain, ctx_now = Timestamp t\<rparr> tx"
      and view: "validate_tx_against_chain_view tx cur maturity lk = Ok ()"
      and av: "accept_validated_tx m tx h t = (m', Ok ())"
    using acc by (auto simp: accept_tx_with_chain_view_def try_in_def validate_transaction_Ok split: result.splits)
  have st: "structure_valid tx" using tv by (simp add: transaction_valid_def)
  obtain e where e: "MempoolEntry_new tx h t = Ok e" "h \<notin> fst ` set (mp_entries m)" "admission m h e (m', Ok ())"
    using accept_validated_tx_cases [OF ok st, of h t] by (auto simp: av)
  have ok': "mempool_ok m'" using accept_validated_tx_ok [OF ok st, of h t] by (simp add: av)
  have tx: "me_tx e = tx" using e(1) by (auto simp: MempoolEntry_new_def)
  have get: "mempool_get_tx m' h = Some e"
    using admission_facts [OF _ e(3)] e(2) by (auto simp: map_of_eq_None_iff)
  have "spends x \<inter> icommit ` set (inputs tx) = {}" if "mempool_get_tx m' k = Some x" "k \<noteq> h" for k x
    using conflict_free [OF ok', of h e k x] get that tx
    by (auto simp: mempool_get_tx_def spends_def dest!: map_of_SomeD)
  moreover have "\<exists>u. lk (icommit i) = Ok (Some u)
        \<and> (is_coinbase u \<longrightarrow> maturity = 0 \<or> unat (ue_block_height u) + unat maturity \<le> unat cur)" if "i \<in> set (inputs tx)" for i
    using view that
    by (auto simp: validate_tx_against_chain_view_def check_chain_input_def is_mature_for_iff split: option.splits if_splits)
  ultimately show ?thesis using ok' get tx tv by blast
qed

definition demo_paying :: transaction where
  "demo_paying = demo_tx\<lparr>inputs := [\<lparr>ti_commitment = demo_commit 175093\<rparr>],
    kernels := [(hd (kernels demo_tx))\<lparr>tk_fee := Amount 25000\<rparr>]\<rparr>"

lemma demo_paying_valid: "transaction_valid demo_backend ctx demo_paying"
proof -
  have "structure_valid demo_paying"
    by (simp add: structure_valid_def demo_paying_def demo_tx_def tx_counts_ok_def counts_within_limits_def dom_consts
        tx_weight_def)
  moreover have "validate_balance_equation demo_backend demo_paying = Ok ()"
  proof -
    have "total_fee demo_paying = Ok 25000" by (simp add: total_fee_exact demo_paying_def demo_tx_def)
    moreover have "verify_balance_equation demo_backend (map to_commitment (outputs demo_paying))
        (map ti_commitment (inputs demo_paying)) (map tk_excess (kernels demo_paying)) (tx_offset demo_paying) 25000 = Ok True"
      by (simp add: verify_balance_equation_def sum_projective_def demo_paying_def demo_tx_def demo_projective demo_h
          demo_fields)
    ultimately show ?thesis by (simp add: validate_balance_equation_Ok demo_paying_def demo_tx_def demo_commit_ok)
  qed
  moreover have "validate_output_proof demo_backend \<lparr>to_commitment = demo_commit 93, to_proof = replicate 739 0\<rparr> = Ok ()"
    by (rule demo_output_proof(4)) simp_all
  ultimately show ?thesis
    by (simp add: transaction_valid_def demo_signature_ok demo_paying_def demo_tx_def dom_consts)
qed

definition demo_utxo :: utxo_entry where
  "demo_utxo = \<lparr>ue_block_height = 5, is_coinbase = True, ue_proof = []\<rparr>"

lemma demo_chain_admission:
  "snd (accept_tx_with_chain_view demo_backend mempool_new demo_paying [4] 0 2000 [] 1000 (\<lambda>c. Ok (Some demo_utxo))) = Ok ()"
proof -
  have v: "tx_fees demo_paying = 25000" "tx_weight demo_paying = 25" "tx_counts_ok demo_paying" "kernels demo_paying \<noteq> []"
    by (simp_all add: demo_paying_def demo_tx_def tx_fees_def tx_weight_def tx_counts_ok_def counts_within_limits_def
        dom_consts)
  obtain e where e: "MempoolEntry_new demo_paying [4] 0 = Ok e" "me_weight e = 25"
    using MempoolEntry_new_eq [of demo_paying "[4]" 0] v by simp
  then obtain f sh b where "total_fee demo_paying = Ok f" "fee_shape demo_paying = Ok sh" "validate_minimum_fee f sh = Ok b"
    "weight_checked demo_paying = Ok 25"
    by (auto simp: MempoolEntry_new_def)
  then have pre: "precheck_cheap_admission_gates mempool_new demo_paying [4] = Ok ()"
    by (simp add: precheck_cheap_admission_gates_def mempool_contains_def mempool_new_def dom_consts)
  have st: "structure_valid demo_paying" using demo_paying_valid by (simp add: transaction_valid_def)
  have "snd (accept_validated_tx mempool_new demo_paying [4] 0) = Ok ()"
    using accept_validated_tx_cases [OF mempool_new_ok st, of "[4]" 0] e
    by (auto simp: mempool_contains_def admission_def kept_weight_def pool_weight_def mempool_new_def dom_consts)
  moreover have "validate_tx_against_chain_view demo_paying 2000 1000 (\<lambda>c. Ok (Some demo_utxo)) = Ok ()"
    by (simp add: validate_tx_against_chain_view_def check_chain_input_def demo_utxo_def is_mature_for_iff)
  moreover have "validate_transaction demo_backend demo_paying ctx = Ok ()" for ctx
    using demo_paying_valid v(3) by (simp add: validate_transaction_Ok)
  ultimately show ?thesis
    using pre by (simp add: accept_tx_with_chain_view_def try_in_def)
qed

theorem chain_admission_safe_witness:
  "\<exists>m'. accept_tx_with_chain_view demo_backend mempool_new demo_paying [4] 0 2000 [] 1000 (\<lambda>c. Ok (Some demo_utxo)) = (m', Ok ())
    \<and> (\<exists>e. mempool_get_tx m' [4] = Some e \<and> me_tx e = demo_paying)"
proof -
  obtain m' where m': "accept_tx_with_chain_view demo_backend mempool_new demo_paying [4] 0 2000 [] 1000
      (\<lambda>c. Ok (Some demo_utxo)) = (m', Ok ())"
    using demo_chain_admission by (metis prod.collapse)
  from m' chain_admission_safe [OF mempool_new_ok m'] show ?thesis by blast
qed

text \<open>
  Confirming a block removes exactly the transactions that spend one of its inputs: the
  survivors are the pooled transactions none of whose inputs was spent, and the pool stays
  consistent.
\<close>
theorem remove_confirmed_exact:
  assumes "mempool_ok m"
  shows "mempool_ok (remove_confirmed m spent)
    \<and> set (mp_entries (remove_confirmed m spent)) = {(h, e) \<in> set (mp_entries m). spends e \<inter> set spent = {}}"
  using assms remove_confirmed_entries by (simp add: remove_confirmed_def remove_all_ok)

theorem remove_confirmed_exact_witness:
  "set (mp_entries (remove_confirmed demo_pool [commit_bytes (demo_commit 20)])) = {([1], demo_entry [1] 10 11 25000 1000)}"
proof -
  have "{(h, e) \<in> set (mp_entries demo_pool). spends e \<inter> set [commit_bytes (demo_commit 20)] = {}}
      = {([1], demo_entry [1] 10 11 25000 1000)}"
    by (auto simp: demo_pool_def demo_spends demo_commit_inject)
  then show ?thesis using remove_confirmed_exact [OF demo_pool_ok, of "[commit_bytes (demo_commit 20)]"] by simp
qed

end
