(* ===== verification/Genesis.thy ===== *)
theory Genesis
  imports Consensus
begin

text \<open>
  Genesis identities of \<^verbatim>\<open>dom-chain/src/genesis.rs\<close>: the inscription, the Mainnet identity envelope
  with its canonical encoding, the canonical genesis of every network and the identifier of a
  serialized header.

  The range proof of the legacy genesis coinbase comes from the foreign prover and its
  signature from the RFC 6979 signer; both are fields of the record \<^verbatim>\<open>genesis_signer\<close>.
\<close>

section \<open>Constants\<close>

definition GENESIS_INSCRIPTION_VERSION :: u8 where [dom_consts]: "GENESIS_INSCRIPTION_VERSION = 1"
definition MAX_GENESIS_INSCRIPTION_BYTES :: nat where [dom_consts]: "MAX_GENESIS_INSCRIPTION_BYTES = 256"
definition MAINNET_GENESIS_IDENTITY_VERSION :: u8 where [dom_consts]: "MAINNET_GENESIS_IDENTITY_VERSION = 1"
definition BLOCK_HEADER_BYTES :: nat where [dom_consts]: "BLOCK_HEADER_BYTES = 256"
definition EMPTY_BODY_BYTES :: bytes where [dom_consts]: "EMPTY_BODY_BYTES = replicate 16 0"
definition MAINNET_INSCRIPTION_COUNT :: u8 where [dom_consts]: "MAINNET_INSCRIPTION_COUNT = 1"

definition REGTEST_GENESIS_SIGNING_CONTEXT :: bytes where
  "REGTEST_GENESIS_SIGNING_CONTEXT =
    [0x47, 0x3d, 0x3b, 0xe0, 0xc7, 0x97, 0x55, 0x6b, 0xee, 0x04, 0xa1, 0xdd, 0xc7, 0x7f, 0x13, 0xbb,
     0xd4, 0x3e, 0x92, 0xda, 0xec, 0xca, 0xdc, 0x34, 0xd4, 0xa5, 0xa9, 0xf2, 0xd3, 0xe6, 0x1b, 0xeb]"

definition GENESIS_NONCE_MAINNET :: u64 where "GENESIS_NONCE_MAINNET = 7150"
definition GENESIS_NONCE_REGTEST :: u64 where "GENESIS_NONCE_REGTEST = 0"

definition GENESIS_POW_DIGEST_MAINNET :: bytes where
  "GENESIS_POW_DIGEST_MAINNET =
    [0x00, 0x00, 0x03, 0xbd, 0xa0, 0xb1, 0x41, 0x65, 0x6e, 0x3a, 0x08, 0x6f, 0xbb, 0x2e, 0x01, 0x83,
     0x21, 0xed, 0x26, 0x11, 0xc9, 0xd5, 0xa7, 0x23, 0xbf, 0x9b, 0x85, 0xcc, 0xe9, 0xba, 0xf3, 0xab]"

definition GENESIS_POW_DIGEST_REGTEST :: bytes where
  "GENESIS_POW_DIGEST_REGTEST = replicate 16 0 @
    [0x96, 0x5d, 0xe1, 0xca, 0x3c, 0xdb, 0x82, 0x26, 0xdd, 0x38, 0x7e, 0xa2, 0xa8, 0x75, 0xb6, 0x4d]"

definition GENESIS_MESSAGE :: bytes where
  "GENESIS_MESSAGE = ascii ''Not a store of value. A means of exchange.''"

definition TAG_GENESIS_INSCRIPTION :: bytes where
  "TAG_GENESIS_INSCRIPTION = ascii ''DOM:genesis-inscription:v1''"
definition TAG_MAINNET_GENESIS_IDENTITY :: bytes where
  "TAG_MAINNET_GENESIS_IDENTITY = ascii ''DOM:mainnet-genesis-identity:v1''"
definition TAG_GENESIS_BLINDING :: bytes where
  "TAG_GENESIS_BLINDING = ascii ''DOM:genesis-blinding:v1''"

section \<open>Inscription\<close>

text \<open>The check of \<^verbatim>\<open>std::str::from_utf8\<close>, by the table of well-formed byte sequences.\<close>

definition utf8_cont :: "u8 \<Rightarrow> bool" where
  "utf8_cont b \<longleftrightarrow> 0x80 \<le> b \<and> b \<le> 0xBF"

fun utf8_valid :: "bytes \<Rightarrow> bool" where
  "utf8_valid [] = True"
| "utf8_valid (b # bs) =
    (if b < 0x80 then utf8_valid bs
     else if 0xC2 \<le> b \<and> b \<le> 0xDF then
       (case bs of c # r \<Rightarrow> utf8_cont c \<and> utf8_valid r | _ \<Rightarrow> False)
     else if 0xE0 \<le> b \<and> b \<le> 0xEF then
       (case bs of
          c # d # r \<Rightarrow> utf8_cont c \<and> utf8_cont d \<and> (b = 0xE0 \<longrightarrow> 0xA0 \<le> c) \<and> (b = 0xED \<longrightarrow> c \<le> 0x9F)
            \<and> utf8_valid r
        | _ \<Rightarrow> False)
     else if 0xF0 \<le> b \<and> b \<le> 0xF4 then
       (case bs of
          c # d # e # r \<Rightarrow> utf8_cont c \<and> utf8_cont d \<and> utf8_cont e \<and> (b = 0xF0 \<longrightarrow> 0x90 \<le> c)
            \<and> (b = 0xF4 \<longrightarrow> c \<le> 0x8F) \<and> utf8_valid r
        | _ \<Rightarrow> False)
     else False)"

datatype genesis_inscription = GenesisInscriptionV1 (inscription_payload: bytes)

definition is_empty_mainnet_economic_body :: "bytes \<Rightarrow> bool" where
  "is_empty_mainnet_economic_body body \<longleftrightarrow> body = EMPTY_BODY_BYTES"

definition GenesisInscription_new :: "bytes \<Rightarrow> genesis_inscription dom_result" where
  "GenesisInscription_new bs =
    (if MAX_GENESIS_INSCRIPTION_BYTES < length bs then Err (Invalid ''genesis inscription payload exceeds limit'')
     else if \<not> utf8_valid bs then Err (Invalid ''genesis inscription is not valid UTF-8'')
     else Ok (GenesisInscriptionV1 bs))"

definition mainnet_inscription :: genesis_inscription where
  "mainnet_inscription = GenesisInscriptionV1 GENESIS_MESSAGE"

definition u16_try_from :: "nat \<Rightarrow> dom_error \<Rightarrow> u16 dom_result" where
  "u16_try_from n e = (if n < 2 ^ 16 then Ok (of_nat n) else Err e)"

definition u16_to_be :: "u16 \<Rightarrow> bytes" where "u16_to_be v = nat_to_be 2 (unat v)"

definition inscription_to_canonical_bytes :: "genesis_inscription \<Rightarrow> bytes dom_result" where
  "inscription_to_canonical_bytes i =
    and_then (u16_try_from (length (inscription_payload i)) (Invalid ''genesis inscription length exceeds u16'')) (\<lambda>len.
    Ok (GENESIS_INSCRIPTION_VERSION # u16_to_be len @ inscription_payload i))"

definition inscription_from_canonical_bytes :: "bytes \<Rightarrow> genesis_inscription dom_result" where
  "inscription_from_canonical_bytes encoded =
    (if length encoded < 3 then Err (Malformed ''genesis inscription is shorter than its canonical prefix'')
     else if encoded ! 0 \<noteq> GENESIS_INSCRIPTION_VERSION then
       Err (Invalid ''unsupported genesis inscription version'')
     else
       let declared = be_to_nat [encoded ! 1, encoded ! 2] in
       if MAX_GENESIS_INSCRIPTION_BYTES < declared then
         Err (Invalid ''genesis inscription payload exceeds limit'')
       else if length encoded - 3 \<noteq> declared then Err (Malformed ''genesis inscription length mismatch'')
       else GenesisInscription_new (drop 3 encoded))"

definition inscription_commitment :: "'p backend \<Rightarrow> genesis_inscription \<Rightarrow> hash256 dom_result" where
  "inscription_commitment B i =
    map_ok (blake2b_256_tagged B TAG_GENESIS_INSCRIPTION) (inscription_to_canonical_bytes i)"

section \<open>Mainnet identity envelope\<close>

record mainnet_genesis_identity =
  gi_header_bytes :: bytes
  gi_inscription :: genesis_inscription

definition empty_root :: "'p backend \<Rightarrow> hash256" where
  "empty_root B = blake2b_256_tagged B TAG_PMMR_EMPTY []"

definition validate_mainnet_header :: "'p backend \<Rightarrow> bytes \<Rightarrow> unit dom_result" where
  "validate_mainnet_header B header_bytes =
    (if length header_bytes \<noteq> BLOCK_HEADER_BYTES then Err (Malformed ''Mainnet genesis header must be 256 bytes'')
     else
       and_then (from_bytes deserialize_header header_bytes) (\<lambda>h.
       if height h \<noteq> BlockHeight_GENESIS \<or> prev_hash h \<noteq> Hash256_ZERO then
         Err (Invalid ''Mainnet genesis identity requires a height-zero header with zero previous hash'')
       else if output_root h \<noteq> empty_root B \<or> kernel_root h \<noteq> empty_root B \<or> rangeproof_root h \<noteq> empty_root B then
         Err (Invalid ''Mainnet genesis identity requires empty output, kernel, and range-proof roots'')
       else Ok ()))"

definition validate_exact_mainnet_inscription :: "genesis_inscription \<Rightarrow> unit dom_result" where
  "validate_exact_mainnet_inscription i =
    (if inscription_payload i \<noteq> GENESIS_MESSAGE then
       Err (Invalid ''Mainnet genesis inscription does not match the configured consensus bytes'')
     else Ok ())"

definition MainnetGenesisIdentity_new ::
  "'p backend \<Rightarrow> bytes \<Rightarrow> genesis_inscription \<Rightarrow> mainnet_genesis_identity dom_result" where
  "MainnetGenesisIdentity_new B header_bytes i =
    and_then (validate_mainnet_header B header_bytes) (\<lambda>_.
    and_then (validate_exact_mainnet_inscription i) (\<lambda>_.
    Ok \<lparr>gi_header_bytes = header_bytes, gi_inscription = i\<rparr>))"

definition identity_to_canonical_bytes :: "'p backend \<Rightarrow> mainnet_genesis_identity \<Rightarrow> bytes dom_result" where
  "identity_to_canonical_bytes B g =
    and_then (inscription_to_canonical_bytes (gi_inscription g)) (\<lambda>inscription_bytes.
    and_then (u16_try_from (length (gi_header_bytes g))
        (Internal ''Mainnet genesis header length exceeds u16'')) (\<lambda>header_length.
    and_then (u16_try_from (length EMPTY_BODY_BYTES)
        (Internal ''Mainnet genesis body length exceeds u16'')) (\<lambda>body_length.
    and_then (u16_try_from (length inscription_bytes)
        (Internal ''Mainnet genesis inscription length exceeds u16'')) (\<lambda>inscription_length.
    and_then (inscription_commitment B (gi_inscription g)) (\<lambda>commitment.
    Ok (MAINNET_GENESIS_IDENTITY_VERSION # u16_to_be header_length @ gi_header_bytes g
        @ u16_to_be body_length @ EMPTY_BODY_BYTES @ MAINNET_INSCRIPTION_COUNT
        # u16_to_be inscription_length @ inscription_bytes @ as_bytes commitment))))))"

definition take_bytes :: "bytes \<Rightarrow> nat \<Rightarrow> nat \<Rightarrow> (bytes \<times> nat) dom_result" where
  "take_bytes data cursor len =
    and_then (ok_or (usize_checked_add cursor len) (Malformed ''Mainnet genesis identity length overflow'')) (\<lambda>stop.
    if length data < stop then Err (Malformed ''unexpected end of Mainnet genesis identity'')
    else Ok (take len (drop cursor data), stop))"

definition read_u16_be :: "bytes \<Rightarrow> nat \<Rightarrow> (nat \<times> nat) dom_result" where
  "read_u16_be data cursor =
    and_then (take_bytes data cursor 2) (\<lambda>(v, cursor). Ok (be_to_nat [v ! 0, v ! 1], cursor))"

definition identity_from_canonical_bytes :: "'p backend \<Rightarrow> bytes \<Rightarrow> mainnet_genesis_identity dom_result" where
  "identity_from_canonical_bytes B encoded =
    and_then (take_bytes encoded 0 1) (\<lambda>(v, cursor).
    if v ! 0 \<noteq> MAINNET_GENESIS_IDENTITY_VERSION then Err (Invalid ''unsupported Mainnet genesis identity version'')
    else
    and_then (read_u16_be encoded cursor) (\<lambda>(header_length, cursor).
    if header_length \<noteq> BLOCK_HEADER_BYTES then Err (Malformed ''Mainnet genesis header length must be 256'')
    else
    and_then (take_bytes encoded cursor header_length) (\<lambda>(header_bytes, cursor).
    and_then (validate_mainnet_header B header_bytes) (\<lambda>_.
    and_then (read_u16_be encoded cursor) (\<lambda>(body_length, cursor).
    if body_length \<noteq> length EMPTY_BODY_BYTES then Err (Malformed ''Mainnet genesis empty body length must be 16'')
    else
    and_then (take_bytes encoded cursor body_length) (\<lambda>(body, cursor).
    if \<not> is_empty_mainnet_economic_body body then
      Err (Invalid ''Mainnet genesis body must contain zero inputs, outputs, kernels, and transactions'')
    else
    and_then (take_bytes encoded cursor 1) (\<lambda>(c, cursor).
    if c ! 0 \<noteq> MAINNET_INSCRIPTION_COUNT then Err (Invalid ''Mainnet genesis requires exactly one inscription'')
    else
    and_then (read_u16_be encoded cursor) (\<lambda>(inscription_length, cursor).
    and_then (take_bytes encoded cursor inscription_length) (\<lambda>(inscription_bytes, cursor).
    and_then (inscription_from_canonical_bytes inscription_bytes) (\<lambda>inscription.
    and_then (validate_exact_mainnet_inscription inscription) (\<lambda>_.
    and_then (take_bytes encoded cursor 32) (\<lambda>(stored_commitment, cursor).
    and_then (inscription_commitment B inscription) (\<lambda>computed_commitment.
    if stored_commitment \<noteq> as_bytes computed_commitment then
      Err (Invalid ''Mainnet genesis inscription commitment mismatch'')
    else if cursor \<noteq> length encoded then Err (Malformed ''trailing Mainnet genesis identity bytes'')
    else Ok \<lparr>gi_header_bytes = header_bytes, gi_inscription = inscription\<rparr>)))))))))))))"

definition identity_hash :: "'p backend \<Rightarrow> mainnet_genesis_identity \<Rightarrow> hash256 dom_result" where
  "identity_hash B g =
    map_ok (blake2b_256_tagged B TAG_MAINNET_GENESIS_IDENTITY) (identity_to_canonical_bytes B g)"

definition validate_mainnet_genesis_identity :: "'p backend \<Rightarrow> bytes \<Rightarrow> mainnet_genesis_identity dom_result" where
  "validate_mainnet_genesis_identity B canonical_bytes = identity_from_canonical_bytes B canonical_bytes"

definition canonical_header_identifier :: "'p backend \<Rightarrow> u32 \<Rightarrow> bytes \<Rightarrow> hash256 dom_result" where
  "canonical_header_identifier B network_magic header_bytes =
    and_then (from_bytes deserialize_header header_bytes) (\<lambda>h.
    if network_magic = NETWORK_MAGIC_MAINNET \<and> height h = BlockHeight_GENESIS then
      and_then (MainnetGenesisIdentity_new B header_bytes mainnet_inscription) (identity_hash B)
    else if network_magic = NETWORK_MAGIC_MAINNET \<or> network_magic = NETWORK_MAGIC_TESTNET
        \<or> network_magic = NETWORK_MAGIC_REGTEST then Ok (blake2b_256 B header_bytes)
    else Err (Invalid ''unknown network magic for block identifier''))"

section \<open>Canonical genesis of a network\<close>

record canonical_genesis =
  cg_block :: "block option"
  cg_header_bytes :: bytes
  cg_block_bytes :: bytes
  cg_hash :: hash256

record genesis_signer =
  prove_with_nonce :: "u64 \<Rightarrow> bytes \<Rightarrow> bytes \<Rightarrow> (bytes \<times> bytes) dom_result"
  schnorr_sign :: "secret_key \<Rightarrow> bytes \<Rightarrow> bytes \<Rightarrow> schnorr_signature dom_result"

definition canonical_header :: "u32 \<Rightarrow> asert_anchor \<Rightarrow> hash256 \<Rightarrow> hash256 \<Rightarrow> hash256 \<Rightarrow> block_header" where
  "canonical_header network_magic anchor oroot kroot rroot =
    (let (n, pow_digest) =
       if network_magic = NETWORK_MAGIC_MAINNET then (GENESIS_NONCE_MAINNET, GENESIS_POW_DIGEST_MAINNET)
       else if network_magic = NETWORK_MAGIC_REGTEST then (GENESIS_NONCE_REGTEST, GENESIS_POW_DIGEST_REGTEST)
       else (0, replicate 32 0)
     in \<lparr>version = BLOCK_VERSION_LEGACY, height = BlockHeight_GENESIS, prev_hash = Hash256_ZERO,
          hdr_timestamp = anchor_timestamp anchor, output_root = oroot, kernel_root = kroot,
          rangeproof_root = rroot, total_kernel_offset = replicate 32 0,
          target = CompactTarget (target_to_compact (anchor_target anchor)),
          total_difficulty = target_to_difficulty (anchor_target anchor),
          pow = \<lparr>nonce = n, randomx_hash = Hash256 pow_digest\<rparr>\<rparr>)"

definition construct_mainnet_identity :: "'p backend \<Rightarrow> canonical_genesis dom_result" where
  "construct_mainnet_identity B =
    and_then (genesis_anchor NETWORK_MAGIC_MAINNET) (\<lambda>anchor.
    let h = canonical_header NETWORK_MAGIC_MAINNET anchor (empty_root B) (empty_root B) (empty_root B) in
    and_then (map_err (\<lambda>_. Internal ''genesis header serialization'') (to_bytes serialize_header h)) (\<lambda>header_bytes.
    and_then (MainnetGenesisIdentity_new B header_bytes mainnet_inscription) (\<lambda>identity.
    and_then (identity_to_canonical_bytes B identity) (\<lambda>block_bytes.
    and_then (validate_mainnet_genesis_identity B block_bytes) (\<lambda>_.
    and_then (identity_hash B identity) (\<lambda>hash.
    Ok \<lparr>cg_block = None, cg_header_bytes = header_bytes, cg_block_bytes = block_bytes, cg_hash = hash\<rparr>))))))"

definition build_genesis_coinbase ::
  "'p::ab_group_add backend \<Rightarrow> genesis_signer \<Rightarrow> bytes \<Rightarrow> coinbase_transaction dom_result" where
  "build_genesis_coinbase B S cid =
    (let blinding_hash = blake2b_256_tagged B TAG_GENESIS_BLINDING [] in
     and_then (map_err (\<lambda>_. Internal ''genesis blinding'') (BlindingFactor_from_bytes B (as_bytes blinding_hash))) (\<lambda>blinding.
     let proof_nonce = as_bytes (blake2b_256_tagged B TAG_GENESIS_BLINDING (ascii ''bulletproof-nonce''));
         explicit_value = noms (block_reward BlockHeight_GENESIS)
     in
     and_then (Commitment_commit B explicit_value blinding) (\<lambda>commitment.
     and_then (map_err (\<lambda>_. Internal ''genesis range proof failed'')
         (prove_with_nonce S explicit_value (blind_bytes blinding) proof_nonce)) (\<lambda>(proof, proof_commitment).
     if proof_commitment \<noteq> commit_bytes commitment then Err (Internal ''genesis range proof commitment mismatch'')
     else
     and_then (Commitment_commit B 0 blinding) (\<lambda>excess.
     let message = blake2b_256_tagged B TAG_KERNEL_MSG_COINBASE (KERNEL_FEAT_COINBASE # u64_to_le explicit_value) in
     and_then (map_err (\<lambda>_. Internal ''genesis blinding as key'') (SecretKey_from_bytes B (blind_bytes blinding))) (\<lambda>key.
     and_then (map_err (\<lambda>_. Internal ''genesis signing failed'')
         (schnorr_sign S key (as_bytes message) cid)) (\<lambda>signature.
     Ok \<lparr>cb_output = \<lparr>to_commitment = commitment, to_proof = proof\<rparr>,
          cb_kernel = \<lparr>ck_features = KERNEL_FEAT_COINBASE, ck_explicit_value = explicit_value,
            ck_excess = excess, ck_excess_signature = SchnorrSignature_to_bytes signature\<rparr>,
          cb_offset = replicate 32 0\<rparr>)))))))"

definition build_legacy_canonical_genesis ::
  "'p::ab_group_add backend \<Rightarrow> genesis_signer \<Rightarrow> u32 \<Rightarrow> bytes \<Rightarrow> canonical_genesis dom_result" where
  "build_legacy_canonical_genesis B S network_magic cid =
    and_then (genesis_anchor network_magic) (\<lambda>anchor.
    let ctx = if network_magic = NETWORK_MAGIC_REGTEST then REGTEST_GENESIS_SIGNING_CONTEXT else cid in
    and_then (build_genesis_coinbase B S ctx) (\<lambda>cb.
    and_then (compute_block_pmmr_roots B BlockHeight_GENESIS cb []) (\<lambda>(oroot, kroot, rroot).
    let h = canonical_header network_magic anchor oroot kroot rroot;
        b = \<lparr>header = h, coinbase = cb, transactions = []\<rparr>
    in
    and_then (map_err (\<lambda>_. Internal ''genesis header serialization'') (to_bytes serialize_header h)) (\<lambda>header_bytes.
    and_then (map_err (\<lambda>_. Internal ''genesis block serialization'') (to_bytes serialize_block b)) (\<lambda>block_bytes.
    Ok \<lparr>cg_block = Some b, cg_header_bytes = header_bytes, cg_block_bytes = block_bytes,
         cg_hash = blake2b_256 B header_bytes\<rparr>)))))"

definition build_canonical_genesis ::
  "'p::ab_group_add backend \<Rightarrow> genesis_signer \<Rightarrow> u32 \<Rightarrow> bytes \<Rightarrow> canonical_genesis dom_result" where
  "build_canonical_genesis B S network_magic cid =
    (if network_magic = NETWORK_MAGIC_MAINNET then construct_mainnet_identity B
     else if network_magic = NETWORK_MAGIC_TESTNET \<or> network_magic = NETWORK_MAGIC_REGTEST then
       build_legacy_canonical_genesis B S network_magic cid
     else Err (Invalid ''unknown network magic for canonical genesis''))"

definition canonical_genesis_inscription ::
  "'p backend \<Rightarrow> u32 \<Rightarrow> bytes \<Rightarrow> genesis_inscription option dom_result" where
  "canonical_genesis_inscription B network_magic canonical_bytes =
    (if network_magic = NETWORK_MAGIC_MAINNET then
       map_ok (\<lambda>g. Some (gi_inscription g)) (identity_from_canonical_bytes B canonical_bytes)
     else if network_magic = NETWORK_MAGIC_TESTNET \<or> network_magic = NETWORK_MAGIC_REGTEST then Ok None
     else Err (Invalid ''unknown network magic for genesis inscription''))"

definition CanonicalGenesis_inscription ::
  "'p backend \<Rightarrow> canonical_genesis \<Rightarrow> u32 \<Rightarrow> genesis_inscription option dom_result" where
  "CanonicalGenesis_inscription B g network_magic = canonical_genesis_inscription B network_magic (cg_block_bytes g)"

end
