(* ===== verification/Store.thy ===== *)
theory Store
  imports Utxo "HOL-Library.Finite_Map" "HOL-Library.List_Lexorder"
begin

text \<open>
  The block store of \<^verbatim>\<open>dom-store/src/db.rs\<close>, with the peer records and the header hash of
  \<^verbatim>\<open>peer_store.rs\<close> and \<^verbatim>\<open>block_store.rs\<close>.

  LMDB is an ordered key-value store with atomic write transactions: a database is a finite
  map on byte strings, enumerated in key order, and a write transaction either yields the new
  store or an error and no change.  The argument \<^verbatim>\<open>io\<close> of a write is the failure the
  environment reports for that transaction (disk, map size), if it does; reads return what was
  committed.  The lemmas give the exact effect of every transaction.
\<close>

type_synonym database = "(bytes, bytes) fmap"

record dom_store =
  db_blocks :: database
  db_block_bodies :: database
  db_height :: database
  db_tip :: "bytes option"
  db_utxos :: database
  db_kernels :: database
  db_metadata :: database
  db_tx_identity :: database

definition empty_store :: dom_store where
  "empty_store = \<lparr>db_blocks = fmempty, db_block_bodies = fmempty, db_height = fmempty, db_tip = None,
    db_utxos = fmempty, db_kernels = fmempty, db_metadata = fmempty, db_tx_identity = fmempty\<rparr>"

definition TX_IDENTITY_RETENTION_BLOCKS :: u64 where
  [dom_consts]: "TX_IDENTITY_RETENTION_BLOCKS = 100000"

definition METADATA_UTXO_SET_DIGEST_KEY :: bytes where
  "METADATA_UTXO_SET_DIGEST_KEY = ascii ''canonical_utxo_digest_v1''"

section \<open>Transactions\<close>

definition commit_txn :: "dom_error option \<Rightarrow> 'a \<Rightarrow> 'a dom_result" where
  "commit_txn io s = (case io of Some e \<Rightarrow> Err e | None \<Rightarrow> Ok s)"

definition put_no_overwrite :: "dom_error \<Rightarrow> database \<Rightarrow> bytes \<times> bytes \<Rightarrow> database dom_result" where
  "put_no_overwrite e db kv = (if fmlookup db (fst kv) \<noteq> None then Err e else Ok (fmupd (fst kv) (snd kv) db))"

definition del_existing :: "dom_error \<Rightarrow> database \<Rightarrow> bytes \<Rightarrow> database dom_result" where
  "del_existing e db k = (if fmlookup db k = None then Err e else Ok (fmdrop k db))"

definition fm_entries :: "('k::linorder, 'v) fmap \<Rightarrow> ('k \<times> 'v) list" where
  "fm_entries m = map (\<lambda>k. (k, the (fmlookup m k))) (sorted_list_of_fset (fmdom m))"

section \<open>Reads\<close>

definition get_metadata :: "dom_store \<Rightarrow> bytes \<Rightarrow> bytes option dom_result" where
  "get_metadata s key = Ok (fmlookup (db_metadata s) key)"

definition hash_value :: "string \<Rightarrow> bytes option \<Rightarrow> bytes option dom_result" where
  "hash_value msg v = (case v of
     Some bs \<Rightarrow> if length bs = 32 then Ok (Some bs) else Err (Internal msg)
   | None \<Rightarrow> Ok None)"

definition get_chain_tip :: "dom_store \<Rightarrow> bytes option dom_result" where
  "get_chain_tip s = hash_value ''corrupt chain tip'' (db_tip s)"

definition get_block_header :: "dom_store \<Rightarrow> bytes \<Rightarrow> bytes option dom_result" where
  "get_block_header s h = Ok (fmlookup (db_blocks s) h)"

definition get_hash_at_height :: "dom_store \<Rightarrow> u64 \<Rightarrow> bytes option dom_result" where
  "get_hash_at_height s height = hash_value ''corrupt height index'' (fmlookup (db_height s) (u64_to_le height))"

definition get_utxo :: "dom_store \<Rightarrow> bytes \<Rightarrow> utxo_entry option dom_result" where
  "get_utxo s commitment = (case fmlookup (db_utxos s) commitment of
     Some bs \<Rightarrow> map_ok Some (UtxoEntry_from_bytes bs)
   | None \<Rightarrow> Ok None)"

definition get_block_body :: "dom_store \<Rightarrow> bytes \<Rightarrow> bytes option dom_result" where
  "get_block_body s h = Ok (fmlookup (db_block_bodies s) h)"

definition get_kernel_block :: "dom_store \<Rightarrow> bytes \<Rightarrow> bytes option dom_result" where
  "get_kernel_block s excess = hash_value ''corrupt kernel index'' (fmlookup (db_kernels s) excess)"

definition read_all_utxos_raw :: "dom_store \<Rightarrow> database dom_result" where
  "read_all_utxos_raw s = Ok (db_utxos s)"

definition read_all_kernel_index_raw :: "dom_store \<Rightarrow> database dom_result" where
  "read_all_kernel_index_raw s = Ok (db_kernels s)"

definition read_all_block_headers_raw :: "dom_store \<Rightarrow> (bytes \<times> bytes) list dom_result" where
  "read_all_block_headers_raw s =
    try_map (\<lambda>(key, v). if length key \<noteq> 32 then Err (Internal ''corrupt block hash key'') else Ok (key, v))
      (fm_entries (db_blocks s))"

section \<open>Writes\<close>

definition put_metadata :: "dom_error option \<Rightarrow> dom_store \<Rightarrow> bytes \<Rightarrow> bytes \<Rightarrow> dom_store dom_result" where
  "put_metadata io s key v = commit_txn io (s\<lparr>db_metadata := fmupd key v (db_metadata s)\<rparr>)"

definition delete_metadata :: "dom_error option \<Rightarrow> dom_store \<Rightarrow> bytes \<Rightarrow> dom_store dom_result" where
  "delete_metadata io s key = commit_txn io (s\<lparr>db_metadata := fmdrop key (db_metadata s)\<rparr>)"

definition tx_identity_expired :: "u64 \<Rightarrow> bytes \<times> bytes \<Rightarrow> bool" where
  "tx_identity_expired current kv \<longleftrightarrow>
    length (fst kv) = 32 \<and> length (snd kv) = 41
    \<and> saturating_add (word_from_le (take 8 (drop 33 (snd kv)))) TX_IDENTITY_RETENTION_BLOCKS < current"

definition put_tx_identity ::
  "dom_error option \<Rightarrow> dom_store \<Rightarrow> bytes \<Rightarrow> bytes \<Rightarrow> u64 \<Rightarrow> dom_store dom_result" where
  "put_tx_identity io s tx_hash excess current =
    (let expired = map fst (filter (tx_identity_expired current) (fm_entries (db_tx_identity s)));
         db = foldl (\<lambda>db k. fmdrop k db) (db_tx_identity s) expired
     in commit_txn io (s\<lparr>db_tx_identity := fmupd tx_hash (excess @ u64_to_le current) db\<rparr>))"

definition get_tx_identity :: "dom_store \<Rightarrow> bytes \<Rightarrow> (bytes \<times> u64) option dom_result" where
  "get_tx_identity s tx_hash = (case fmlookup (db_tx_identity s) tx_hash of
     Some bs \<Rightarrow>
       if length bs = 41 then Ok (Some (take 33 bs, word_from_le (take 8 (drop 33 bs))))
       else Err (Internal ''corrupt tx_identity entry'')
   | None \<Rightarrow> Ok None)"

definition ensure_kernel_index :: "database \<Rightarrow> bytes \<times> bytes \<Rightarrow> database dom_result" where
  "ensure_kernel_index db kv = (case fmlookup db (fst kv) of
     Some existing \<Rightarrow>
       if existing = snd kv then Ok db
       else if length existing = 32 then
         Err (Internal ''KERNEL REPLAY DETECTED: excess already indexed to different block'')
       else Err (Internal ''corrupt kernel index'')
   | None \<Rightarrow> Ok (fmupd (fst kv) (snd kv) db))"

definition ensure_kernel_indices ::
  "dom_error option \<Rightarrow> dom_store \<Rightarrow> (bytes \<times> bytes) list \<Rightarrow> dom_store dom_result" where
  "ensure_kernel_indices io s kernel_excesses =
    and_then (try_fold ensure_kernel_index (db_kernels s) kernel_excesses) (\<lambda>db.
    commit_txn io (s\<lparr>db_kernels := db\<rparr>))"

definition commit_block ::
  "dom_error option \<Rightarrow> dom_store \<Rightarrow> bytes \<Rightarrow> u64 \<Rightarrow> bytes \<Rightarrow> bytes \<Rightarrow> (bytes \<times> bytes) list \<Rightarrow> bytes list
    \<Rightarrow> (bytes \<times> bytes) list \<Rightarrow> dom_store dom_result" where
  "commit_block io s block_hash block_height header_bytes block_body_bytes new_utxos spent_utxos kernel_excesses =
    and_then (put_no_overwrite (Internal ''block header already exists'') (db_blocks s) (block_hash, header_bytes)) (\<lambda>blocks.
    and_then (put_no_overwrite (Internal ''block body already exists'') (db_block_bodies s)
        (block_hash, block_body_bytes)) (\<lambda>bodies.
    and_then (try_fold (put_no_overwrite (Internal ''UTXO commitment already exists'')) (db_utxos s) new_utxos) (\<lambda>utxos.
    and_then (try_fold (del_existing (Internal ''spent UTXO not found in canonical store'')) utxos spent_utxos) (\<lambda>utxos.
    and_then (try_fold (put_no_overwrite (Internal ''KERNEL REPLAY DETECTED'')) (db_kernels s) kernel_excesses) (\<lambda>kernels.
    commit_txn io (s\<lparr>db_blocks := blocks, db_block_bodies := bodies,
      db_height := fmupd (u64_to_le block_height) block_hash (db_height s), db_tip := Some block_hash,
      db_utxos := utxos, db_kernels := kernels,
      db_metadata := fmdrop METADATA_UTXO_SET_DIGEST_KEY (db_metadata s)\<rparr>))))))"

definition store_known_block :: "dom_error option \<Rightarrow> dom_store \<Rightarrow> bytes \<Rightarrow> bytes \<Rightarrow> bytes \<Rightarrow> dom_store dom_result" where
  "store_known_block io s block_hash header_bytes block_body_bytes =
    and_then (put_no_overwrite (Internal ''block header already exists'') (db_blocks s) (block_hash, header_bytes)) (\<lambda>blocks.
    and_then (put_no_overwrite (Internal ''block body already exists'') (db_block_bodies s)
        (block_hash, block_body_bytes)) (\<lambda>bodies.
    commit_txn io (s\<lparr>db_blocks := blocks, db_block_bodies := bodies\<rparr>)))"

definition put_or_delete :: "database \<Rightarrow> bytes \<times> bytes option \<Rightarrow> database" where
  "put_or_delete db kv = (case snd kv of Some v \<Rightarrow> fmupd (fst kv) v db | None \<Rightarrow> fmdrop (fst kv) db)"

text \<open>An update to an equal value is skipped and any other overwrites, which is one map update.\<close>

definition apply_reorg ::
  "dom_error option \<Rightarrow> dom_store \<Rightarrow> bytes \<Rightarrow> (u64 \<times> bytes option) list \<Rightarrow> (bytes \<times> bytes option) list
    \<Rightarrow> (bytes \<times> bytes option) list \<Rightarrow> dom_store dom_result" where
  "apply_reorg io s new_tip_hash height_updates utxo_updates kernel_updates =
    commit_txn io (s\<lparr>db_height := foldl put_or_delete (db_height s) (map (\<lambda>(h, v). (u64_to_le h, v)) height_updates),
      db_utxos := foldl put_or_delete (db_utxos s) utxo_updates,
      db_kernels := foldl put_or_delete (db_kernels s) kernel_updates,
      db_tip := Some new_tip_hash,
      db_metadata := fmdrop METADATA_UTXO_SET_DIGEST_KEY (db_metadata s)\<rparr>)"

definition replace_utxo_set ::
  "dom_error option \<Rightarrow> dom_store \<Rightarrow> database \<Rightarrow> bytes \<Rightarrow> dom_store dom_result" where
  "replace_utxo_set io s utxos digest =
    and_then (try_fold (put_no_overwrite (Internal ''rewrite utxo'')) fmempty (fm_entries utxos)) (\<lambda>db.
    commit_txn io (s\<lparr>db_utxos := db, db_metadata := fmupd METADATA_UTXO_SET_DIGEST_KEY digest (db_metadata s)\<rparr>))"

definition persist_utxo_set_digest :: "dom_error option \<Rightarrow> dom_store \<Rightarrow> bytes \<Rightarrow> dom_store dom_result" where
  "persist_utxo_set_digest io s digest =
    commit_txn io (s\<lparr>db_metadata := fmupd METADATA_UTXO_SET_DIGEST_KEY digest (db_metadata s)\<rparr>)"

definition prune_known_blocks :: "dom_error option \<Rightarrow> dom_store \<Rightarrow> bytes list \<Rightarrow> dom_store dom_result" where
  "prune_known_blocks io s prune_hashes =
    (if prune_hashes = [] then Ok s
     else commit_txn io (s\<lparr>db_blocks := foldl (\<lambda>db k. fmdrop k db) (db_blocks s) prune_hashes,
       db_block_bodies := foldl (\<lambda>db k. fmdrop k db) (db_block_bodies s) prune_hashes\<rparr>))"

section \<open>Header hash and peer records\<close>

definition BlockStore_compute_block_hash :: "'p backend \<Rightarrow> bytes \<Rightarrow> hash256" where
  "BlockStore_compute_block_hash B header_bytes = Hash256 (blake2b B header_bytes)"

definition peer_record_has_canonical_length :: "nat \<Rightarrow> bool" where
  "peer_record_has_canonical_length len \<longleftrightarrow> len = 12"

record peer_addr =
  pa_addr :: string
  pa_last_seen :: u64
  pa_failures :: u32

definition PeerAddr_to_bytes :: "peer_addr \<Rightarrow> bytes" where
  "PeerAddr_to_bytes p = u64_to_le (pa_last_seen p) @ u32_to_le (pa_failures p)"

definition PeerAddr_from_bytes :: "string \<Rightarrow> bytes \<Rightarrow> peer_addr dom_result" where
  "PeerAddr_from_bytes addr bs =
    (if \<not> peer_record_has_canonical_length (length bs) then Err (Malformed ''peer entry has invalid length'')
     else Ok \<lparr>pa_addr = addr, pa_last_seen = word_from_le (take 8 bs),
       pa_failures = word_from_le (take 4 (drop 8 bs))\<rparr>)"

definition is_connectable :: "peer_addr \<Rightarrow> bool" where
  "is_connectable p \<longleftrightarrow> pa_failures p < 10"

section \<open>Enumeration\<close>

lemma map_of_fm_entries [simp]: "map_of (fm_entries m) = fmlookup m"
proof
  fix k
  show "map_of (fm_entries m) k = fmlookup m k"
    by (auto simp: fm_entries_def map_of_map_restrict restrict_map_def fmlookup_dom_iff)
qed

lemma set_fm_entries [simp]: "(k, v) \<in> set (fm_entries m) \<longleftrightarrow> fmlookup m k = Some v"
  by (auto simp: fm_entries_def fmlookup_dom_iff image_iff)

lemma map_fst_fm_entries: "map fst (fm_entries m) = sorted_list_of_fset (fmdom m)"
  by (simp add: fm_entries_def comp_def)

lemma distinct_fm_entries: "distinct (map fst (fm_entries m))"
  by (simp add: map_fst_fm_entries sorted_list_of_fset.rep_eq)

lemma fm_entries_Nil: "fm_entries m = [] \<longleftrightarrow> m = fmempty"
proof
  assume "fm_entries m = []"
  then show "m = fmempty" using map_of_fm_entries [of m] by (intro fmap_ext) (simp add: fun_eq_iff)
qed (simp add: fm_entries_def sorted_list_of_fset.rep_eq)

lemma foldl_fmdrop: "fmlookup (foldl (\<lambda>db k. fmdrop k db) m ks) k = (if k \<in> set ks then None else fmlookup m k)"
  by (induction ks arbitrary: m) auto

section \<open>Effect of the write loops\<close>

lemma put_fold_Ok:
  "try_fold (put_no_overwrite e) db kvs = Ok db' \<longleftrightarrow>
    distinct (map fst kvs) \<and> set (map fst kvs) \<inter> fmdom' db = {} \<and> db' = fmadd db (fmap_of_list kvs)"
proof (induction kvs arbitrary: db)
  case Nil
  then show ?case by (auto simp: fmap_of_list.rep_eq intro!: fmap_ext)
next
  case (Cons kv kvs)
  obtain k v where kv: "kv = (k, v)" by (cases kv)
  have eq: "fmadd (fmupd k v db) (fmap_of_list kvs) = fmadd db (fmap_of_list ((k, v) # kvs))" if "k \<notin> set (map fst kvs)"
  proof (rule fmap_ext)
    fix x show "fmlookup (fmadd (fmupd k v db) (fmap_of_list kvs)) x = fmlookup (fmadd db (fmap_of_list ((k, v) # kvs))) x"
      using that by (auto simp: fmlookup_of_list map_add_def map_of_eq_None_iff image_iff fset_of_list_elem fst_def split: option.splits prod.splits)
  qed
  have "try_fold (put_no_overwrite e) db (kv # kvs) = Ok db' \<longleftrightarrow>
      k \<notin> fmdom' db \<and> try_fold (put_no_overwrite e) (fmupd k v db) kvs = Ok db'"
    by (auto simp: kv put_no_overwrite_def fmlookup_dom'_iff)
  also have "\<dots> \<longleftrightarrow> k \<notin> fmdom' db \<and> distinct (map fst kvs) \<and> set (map fst kvs) \<inter> insert k (fmdom' db) = {}
      \<and> db' = fmadd (fmupd k v db) (fmap_of_list kvs)"
    by (simp add: Cons.IH)
  also have "\<dots> \<longleftrightarrow> k \<notin> fmdom' db \<and> distinct (map fst (kv # kvs)) \<and> set (map fst kvs) \<inter> fmdom' db = {}
      \<and> db' = fmadd db (fmap_of_list (kv # kvs))"
    using eq by (auto simp: kv simp del: fmap_of_list_simps)
  finally show ?case by (auto simp: kv simp del: fmap_of_list_simps)
qed

lemma del_fold_Ok:
  "try_fold (del_existing e) db ks = Ok db' \<longleftrightarrow> distinct ks \<and> set ks \<subseteq> fmdom' db \<and> db' = fmdrop_set (set ks) db"
proof (induction ks arbitrary: db)
  case (Cons k ks)
  have "try_fold (del_existing e) db (k # ks) = Ok db' \<longleftrightarrow> k \<in> fmdom' db \<and> try_fold (del_existing e) (fmdrop k db) ks = Ok db'"
    by (auto simp: del_existing_def fmlookup_dom'_iff)
  moreover have "fmdrop_set (set ks) (fmdrop k db) = fmdrop_set (insert k (set ks)) db"
    by (rule fmap_ext) simp
  ultimately show ?case using Cons.IH [of "fmdrop k db"] by auto
qed auto

lemma put_no_overwrite_Ok:
  "put_no_overwrite e db kv = Ok db' \<longleftrightarrow> fst kv \<notin> fmdom' db \<and> db' = fmupd (fst kv) (snd kv) db"
  by (auto simp: put_no_overwrite_def fmlookup_dom'_iff)

lemma fmdom'_fmap_of_list: "fmdom' (fmap_of_list xs) = set (map fst xs)"
  by (auto simp: fmdom'_alt_def fset_of_list.rep_eq)

lemma commit_txn_Ok [simp]: "commit_txn io s = Ok s' \<longleftrightarrow> io = None \<and> s' = s"
  by (auto simp: commit_txn_def split: option.splits)

lemma put_or_delete_fold:
  assumes "distinct (map fst kvs)"
  shows "fmlookup (foldl put_or_delete db kvs) k = (case map_of kvs k of Some v \<Rightarrow> v | None \<Rightarrow> fmlookup db k)"
  using assms
proof (induction kvs arbitrary: db)
  case (Cons kv kvs)
  then show ?case
    by (cases kv) (auto simp: put_or_delete_def map_of_eq_None_iff image_iff split: option.splits)
qed simp

text \<open>The exact effect of committing a block.\<close>

lemma commit_block_Ok:
  "commit_block io s k hgt hb body new spent kern = Ok s' \<longleftrightarrow>
    io = None \<and> k \<notin> fmdom' (db_blocks s) \<and> k \<notin> fmdom' (db_block_bodies s)
    \<and> distinct (map fst new) \<and> set (map fst new) \<inter> fmdom' (db_utxos s) = {}
    \<and> distinct spent \<and> set spent \<subseteq> fmdom' (db_utxos s) \<union> set (map fst new)
    \<and> distinct (map fst kern) \<and> set (map fst kern) \<inter> fmdom' (db_kernels s) = {}
    \<and> s' = s\<lparr>db_blocks := fmupd k hb (db_blocks s), db_block_bodies := fmupd k body (db_block_bodies s),
        db_height := fmupd (u64_to_le hgt) k (db_height s), db_tip := Some k,
        db_utxos := fmdrop_set (set spent) (fmadd (db_utxos s) (fmap_of_list new)),
        db_kernels := fmadd (db_kernels s) (fmap_of_list kern),
        db_metadata := fmdrop METADATA_UTXO_SET_DIGEST_KEY (db_metadata s)\<rparr>"
  unfolding commit_block_def and_then_eq_Ok put_fold_Ok del_fold_Ok commit_txn_Ok put_no_overwrite_Ok fmdom'_add
    fmdom'_fmap_of_list fst_conv snd_conv
  by (auto simp: fmdom'_fmap_of_list)

lemma store_known_block_Ok:
  "store_known_block io s k hb body = Ok s' \<longleftrightarrow>
    io = None \<and> k \<notin> fmdom' (db_blocks s) \<and> k \<notin> fmdom' (db_block_bodies s)
    \<and> s' = s\<lparr>db_blocks := fmupd k hb (db_blocks s), db_block_bodies := fmupd k body (db_block_bodies s)\<rparr>"
  unfolding store_known_block_def and_then_eq_Ok put_no_overwrite_Ok commit_txn_Ok fst_conv snd_conv
  by auto

end
