(* ===== verification/Chain.thy ===== *)
theory Chain
  imports Mempool Genesis Store
begin

text \<open>
  Chain state of \<^verbatim>\<open>dom-chain\<close> (chain_state.rs, reorg.rs): connecting a block to the tip, retaining
  side blocks, promoting a heavier branch, pruning, opening a store with its consistency
  checks, header validation during the initial download and the queries on the tip.

  A method on \<^verbatim>\<open>&mut self\<close> returns the new state beside its result, since an error can leave a
  stored side block behind.  The argument \<^verbatim>\<open>io\<close> gives the failure of the n-th write transaction of
  a call.  The two walks that follow parent pointers until they meet the common ancestor take
  the number of steps they may do; running out is the panic \<^verbatim>\<open>branch walk does not end\<close>, and the
  bound used is the one of the ancestor search that precedes them.
\<close>

section \<open>Constants and types\<close>

definition MAX_REORG_DEPTH_POLICY :: u64 where [dom_consts]: "MAX_REORG_DEPTH_POLICY = 1000"
definition MAX_REORG_DEPTH :: u64 where [dom_consts]: "MAX_REORG_DEPTH = 360"
definition MAX_RETAINED_SIDE_BRANCH_TIPS :: nat where [dom_consts]: "MAX_RETAINED_SIDE_BRANCH_TIPS = 8"
definition MAX_RETAINED_SIDE_BRANCH_REORG_DEPTH :: u64 where
  [dom_consts]: "MAX_RETAINED_SIDE_BRANCH_REORG_DEPTH = MAX_REORG_DEPTH_POLICY"
definition MAX_RETAINED_SIDE_BRANCH_LENGTH :: u64 where
  [dom_consts]: "MAX_RETAINED_SIDE_BRANCH_LENGTH = MAX_REORG_DEPTH_POLICY"
definition UTXO_SET_DIGEST_DOMAIN :: bytes where
  "UTXO_SET_DIGEST_DOMAIN = ascii ''DOM_CANONICAL_UTXO_SET_V1''"
definition CHAIN_CORRUPT :: "string \<Rightarrow> dom_error" where
  "CHAIN_CORRUPT msg = Internal (''CHAIN_CORRUPT: '' @ msg)"

record chain_state =
  cs_store :: dom_store
  tip_hash :: hash256
  tip_height :: block_height
  tip_difficulty :: nat
  genesis_hash :: hash256
  cs_anchor :: asert_anchor
  magic :: u32
  coinbase_maturity :: u64

record expected_target =
  previous_target :: bytes
  next_target :: bytes
  height_delta :: u64
  actual_elapsed_secs :: u64
  expected_elapsed_secs :: u64

record reorg_block_delta =
  rb_block_hash :: bytes
  rb_block_height :: u64
  rb_transactions :: "transaction list"

record reorg_delta =
  common_ancestor_height :: u64
  disconnected_blocks :: "reorg_block_delta list"
  connected_blocks :: "reorg_block_delta list"
  disconnected_txs :: "transaction list"
  connected_txs :: "transaction list"

datatype connect_result = BestChain | Reorg reorg_delta | SideChain | AlreadyHave

definition coinbase_maturity_for_magic :: "u32 \<Rightarrow> u64" where
  "coinbase_maturity_for_magic m =
    (if m = NETWORK_MAGIC_REGTEST then REGTEST_COINBASE_MATURITY else COINBASE_MATURITY)"

definition is_better_fork_choice_tip :: "nat \<Rightarrow> hash256 \<Rightarrow> nat \<Rightarrow> hash256 \<Rightarrow> bool" where
  "is_better_fork_choice_tip candidate_difficulty candidate_hash current_difficulty current_hash \<longleftrightarrow>
    current_difficulty < candidate_difficulty
    \<or> candidate_difficulty = current_difficulty \<and> as_bytes candidate_hash < as_bytes current_hash"

definition compute_block_hash :: "'p backend \<Rightarrow> bytes \<Rightarrow> hash256" where
  "compute_block_hash B header_bytes = Hash256 (blake2b B header_bytes)"

definition compute_block_identifier :: "'p backend \<Rightarrow> u32 \<Rightarrow> bytes \<Rightarrow> hash256 dom_result" where
  "compute_block_identifier B m header_bytes = canonical_header_identifier B m header_bytes"

text \<open>A header read from the store and decoded, with the error of the caller when it is absent.\<close>

definition stored_header :: "dom_store \<Rightarrow> hash256 \<Rightarrow> dom_error \<Rightarrow> block_header dom_result" where
  "stored_header s h e =
    and_then (get_block_header s (as_bytes h)) (\<lambda>found.
    and_then (ok_or found e) (from_bytes deserialize_header))"

section \<open>Common ancestor and depth limits\<close>

fun our_walk :: "dom_store \<Rightarrow> nat \<Rightarrow> hash256 \<Rightarrow> hash256 set \<Rightarrow> hash256 set dom_result" where
  "our_walk s 0 cursor our_chain = Ok our_chain"
| "our_walk s (Suc n) cursor our_chain =
    (let our_chain = insert cursor our_chain in
     if cursor = Hash256_ZERO then Ok our_chain
     else
       and_then (stored_header s cursor (Internal ''missing header during ancestor walk'')) (\<lambda>h.
       if prev_hash h = Hash256_ZERO then Ok (insert Hash256_ZERO our_chain)
       else our_walk s n (prev_hash h) our_chain))"

fun their_walk :: "dom_store \<Rightarrow> hash256 set \<Rightarrow> nat \<Rightarrow> hash256 \<Rightarrow> hash256 option dom_result" where
  "their_walk s our_chain 0 cursor = Ok None"
| "their_walk s our_chain (Suc n) cursor =
    (if cursor \<in> our_chain then Ok (Some cursor)
     else if cursor = Hash256_ZERO then Ok None
     else
       and_then (get_block_header s (as_bytes cursor)) (\<lambda>found.
       case found of
         Some bs \<Rightarrow> and_then (from_bytes deserialize_header bs) (\<lambda>h. their_walk s our_chain n (prev_hash h))
       | None \<Rightarrow> Ok None))"

definition find_common_ancestor :: "dom_store \<Rightarrow> hash256 \<Rightarrow> hash256 \<Rightarrow> hash256 option dom_result" where
  "find_common_ancestor s our_tip their_tip =
    (if our_tip = their_tip then Ok (Some our_tip)
     else
       let max_walk = unat MAX_REORG_DEPTH_POLICY in
       and_then (our_walk s (Suc max_walk) our_tip {}) (\<lambda>our_chain.
       their_walk s our_chain (Suc max_walk) their_tip))"

definition check_reorg_depth :: "u64 \<Rightarrow> unit dom_result" where
  "check_reorg_depth disconnect_count =
    (if MAX_REORG_DEPTH_POLICY < disconnect_count then
       Err (PolicyRejected ''reorg depth exceeds MAX_REORG_DEPTH_POLICY'')
     else Ok ())"

definition check_rolling_finality :: "u64 \<Rightarrow> u64 \<Rightarrow> unit dom_result" where
  "check_rolling_finality local_tip_height disconnect_count =
    (if MAX_REORG_DEPTH \<le> local_tip_height \<and> MAX_REORG_DEPTH \<le> disconnect_count then
       Err (PolicyRejected ''rolling finality rejects reorg depth'')
     else Ok ())"

section \<open>Changes a block makes\<close>

definition new_entry :: "block \<Rightarrow> bool \<Rightarrow> transaction_output \<Rightarrow> bytes \<times> utxo_entry" where
  "new_entry b cb ou =
    (ocommit ou, \<lparr>ue_block_height = height_val (height (header b)), is_coinbase = cb, ue_proof = to_proof ou\<rparr>)"

definition block_new_entries :: "block \<Rightarrow> (bytes \<times> utxo_entry) list" where
  "block_new_entries b = new_entry b True (cb_output (coinbase b))
    # concat (map (\<lambda>tx. map (new_entry b False) (outputs tx)) (transactions b))"

definition block_spent :: "block \<Rightarrow> bytes list" where
  "block_spent b = concat (map (\<lambda>tx. map icommit (inputs tx)) (transactions b))"

definition build_utxo_changeset :: "block \<Rightarrow> (bytes \<times> bytes) list \<times> bytes list" where
  "build_utxo_changeset b =
    (map (\<lambda>(c, e). (c, UtxoEntry_to_bytes e)) (block_new_entries b), block_spent b)"

definition extract_kernel_excesses :: "block \<Rightarrow> hash256 \<Rightarrow> (bytes \<times> bytes) list" where
  "extract_kernel_excesses b block_hash =
    (commit_bytes (ck_excess (cb_kernel (coinbase b))), as_bytes block_hash)
    # concat (map (\<lambda>tx. map (\<lambda>k. (commit_bytes (tk_excess k), as_bytes block_hash)) (kernels tx)) (transactions b))"

definition genesis_canonical_changeset ::
  "block \<Rightarrow> hash256 \<Rightarrow> (bytes \<times> bytes) list \<times> bytes list \<times> (bytes \<times> bytes) list" where
  "genesis_canonical_changeset b block_hash =
    (let (new_utxos, spent_utxos) = build_utxo_changeset b in
     (new_utxos, spent_utxos, extract_kernel_excesses b block_hash))"

section \<open>Overlays of a reorganization\<close>

type_synonym utxo_overlay = "(bytes, utxo_entry option) fmap"
type_synonym kernel_overlay = "(bytes, bytes option) fmap"

definition lookup_utxo :: "dom_store \<Rightarrow> utxo_overlay \<Rightarrow> bytes \<Rightarrow> utxo_entry option dom_result" where
  "lookup_utxo s overlay commitment =
    (case fmlookup overlay commitment of Some entry \<Rightarrow> Ok entry | None \<Rightarrow> get_utxo s commitment)"

definition lookup_kernel :: "dom_store \<Rightarrow> kernel_overlay \<Rightarrow> bytes \<Rightarrow> bytes option dom_result" where
  "lookup_kernel s overlay excess =
    (case fmlookup overlay excess of Some entry \<Rightarrow> Ok entry | None \<Rightarrow> get_kernel_block s excess)"

definition record_block_outputs :: "(bytes, utxo_entry) fmap \<Rightarrow> block \<Rightarrow> (bytes, utxo_entry) fmap" where
  "record_block_outputs out b = foldl (\<lambda>m (c, e). fmupd c e m) out (block_new_entries b)"

fun find_new_entry :: "bytes \<Rightarrow> (bytes \<times> utxo_entry) list \<Rightarrow> utxo_entry option" where
  "find_new_entry c [] = None"
| "find_new_entry c ((c', e) # xs) = (if c' = c then Some e else find_new_entry c xs)"

fun find_output_down :: "'p backend \<Rightarrow> dom_store \<Rightarrow> bytes \<Rightarrow> u64 list \<Rightarrow> utxo_entry option dom_result" where
  "find_output_down B s commitment [] = Ok None"
| "find_output_down B s commitment (h # hs) =
    and_then (get_hash_at_height s h) (\<lambda>found. case found of
      None \<Rightarrow> find_output_down B s commitment hs
    | Some hash \<Rightarrow> and_then (get_block_body s hash) (\<lambda>found. case found of
        None \<Rightarrow> find_output_down B s commitment hs
      | Some body \<Rightarrow>
          if h = 0 \<and> is_ok (validate_mainnet_genesis_identity B body) then find_output_down B s commitment hs
          else
            and_then (map_err (\<lambda>_. Internal ''decode canonical block while resurrecting'')
                (from_bytes (deserialize_block B) body)) (\<lambda>b.
            case find_new_entry commitment (block_new_entries b) of
              Some e \<Rightarrow> Ok (Some e)
            | None \<Rightarrow> find_output_down B s commitment hs)))"

definition heights_upto :: "u64 \<Rightarrow> u64 list" where
  "heights_upto h = map of_nat [0 ..< Suc (unat h)]"

definition find_canonical_output_entry :: "'p backend \<Rightarrow> dom_store \<Rightarrow> u64 \<Rightarrow> bytes \<Rightarrow> utxo_entry option dom_result" where
  "find_canonical_output_entry B s ancestor_height commitment =
    find_output_down B s commitment (rev (heights_upto ancestor_height))"

definition resurrect_input ::
  "'p backend \<Rightarrow> dom_store \<Rightarrow> u64 \<Rightarrow> (bytes, utxo_entry) fmap \<Rightarrow> utxo_overlay \<Rightarrow> bytes \<Rightarrow> utxo_overlay dom_result" where
  "resurrect_input B s ancestor_height disconnect_output_index overlay commitment =
    and_then (find_canonical_output_entry B s ancestor_height commitment) (\<lambda>canonical.
    and_then (ok_or (case fmlookup disconnect_output_index commitment of Some e \<Rightarrow> Some e | None \<Rightarrow> canonical)
        (Internal ''reorg disconnect could not resurrect spent output'')) (\<lambda>resurrected.
    Ok (fmupd commitment (Some resurrected) overlay)))"

definition apply_disconnect ::
  "'p backend \<Rightarrow> dom_store \<Rightarrow> u64 \<Rightarrow> (bytes, utxo_entry) fmap \<Rightarrow> utxo_overlay \<times> kernel_overlay \<Rightarrow> hash256 \<times> block
    \<Rightarrow> (utxo_overlay \<times> kernel_overlay) dom_result" where
  "apply_disconnect B s ancestor_height disconnect_output_index ov hb =
    (let (utxo_overlay, kernel_overlay) = ov; (block_hash, b) = hb;
         cleared = foldl (\<lambda>m (c, _). fmupd c None m) utxo_overlay (block_new_entries b)
     in
     and_then (try_fold (resurrect_input B s ancestor_height disconnect_output_index) cleared (block_spent b)) (\<lambda>u.
     Ok (u, foldl (\<lambda>m (x, _). fmupd x None m) kernel_overlay (extract_kernel_excesses b block_hash))))"

definition connect_spend :: "dom_store \<Rightarrow> u64 \<Rightarrow> block \<Rightarrow> utxo_overlay \<Rightarrow> bytes \<Rightarrow> utxo_overlay dom_result" where
  "connect_spend s maturity b overlay commitment =
    and_then (lookup_utxo s overlay commitment) (\<lambda>found.
    and_then (ok_or found (Invalid ''reorg connect missing input commitment'')) (\<lambda>entry.
    if is_coinbase entry \<and> \<not> is_mature_for entry (height_val (height (header b))) maturity then
      Err (Invalid ''reorg connect spends immature coinbase'')
    else Ok (fmupd commitment None overlay)))"

definition connect_create :: "dom_store \<Rightarrow> utxo_overlay \<Rightarrow> bytes \<times> utxo_entry \<Rightarrow> utxo_overlay dom_result" where
  "connect_create s overlay ce =
    and_then (lookup_utxo s overlay (fst ce)) (\<lambda>found.
    if found \<noteq> None then Err (Invalid ''reorg connect duplicate output commitment'')
    else Ok (fmupd (fst ce) (Some (snd ce)) overlay))"

definition connect_kernel :: "dom_store \<Rightarrow> kernel_overlay \<Rightarrow> bytes \<times> bytes \<Rightarrow> kernel_overlay dom_result" where
  "connect_kernel s overlay xh =
    and_then (lookup_kernel s overlay (fst xh)) (\<lambda>found.
    if found \<noteq> None then Err (Invalid ''reorg connect kernel replay detected'')
    else Ok (fmupd (fst xh) (Some (snd xh)) overlay))"

definition apply_connect ::
  "dom_store \<Rightarrow> u64 \<Rightarrow> utxo_overlay \<times> kernel_overlay \<Rightarrow> hash256 \<times> block \<Rightarrow> (utxo_overlay \<times> kernel_overlay) dom_result" where
  "apply_connect s maturity ov hb =
    (let (utxo_overlay, kernel_overlay) = ov; (block_hash, b) = hb in
     and_then (try_fold (connect_spend s maturity b) utxo_overlay (block_spent b)) (\<lambda>u.
     and_then (try_fold (connect_create s) u (block_new_entries b)) (\<lambda>u.
     and_then (try_fold (connect_kernel s) kernel_overlay (extract_kernel_excesses b block_hash)) (\<lambda>k.
     Ok (u, k)))))"

definition utxo_update ::
  "dom_store \<Rightarrow> (bytes \<times> bytes option) list \<Rightarrow> bytes \<times> utxo_entry option \<Rightarrow> (bytes \<times> bytes option) list dom_result" where
  "utxo_update s out cd =
    and_then (get_utxo s (fst cd)) (\<lambda>current.
    case (current, snd cd) of
      (Some cur, Some desired) \<Rightarrow>
        if UtxoEntry_to_bytes cur = UtxoEntry_to_bytes desired then Ok out
        else if ue_proof cur = ue_proof desired \<and> is_coinbase cur = is_coinbase desired then
          Ok (out @ [(fst cd, Some (UtxoEntry_to_bytes desired))])
        else Err (Internal ''reorg utxo mismatch for existing commitment'')
    | (None, Some desired) \<Rightarrow> Ok (out @ [(fst cd, Some (UtxoEntry_to_bytes desired))])
    | (Some _, None) \<Rightarrow> Ok (out @ [(fst cd, None)])
    | (None, None) \<Rightarrow> Ok out)"

definition build_utxo_updates :: "dom_store \<Rightarrow> utxo_overlay \<Rightarrow> (bytes \<times> bytes option) list dom_result" where
  "build_utxo_updates s overlay = try_fold (utxo_update s) [] (fm_entries overlay)"

definition kernel_update ::
  "dom_store \<Rightarrow> (bytes \<times> bytes option) list \<Rightarrow> bytes \<times> bytes option \<Rightarrow> (bytes \<times> bytes option) list dom_result" where
  "kernel_update s out xd =
    and_then (get_kernel_block s (fst xd)) (\<lambda>current.
    if current \<noteq> snd xd then Ok (out @ [xd]) else Ok out)"

definition build_kernel_updates :: "dom_store \<Rightarrow> kernel_overlay \<Rightarrow> (bytes \<times> bytes option) list dom_result" where
  "build_kernel_updates s overlay = try_fold (kernel_update s) [] (fm_entries overlay)"

section \<open>Branches\<close>

fun validate_branch_header_syntax :: "dom_store \<Rightarrow> u32 \<Rightarrow> hash256 \<Rightarrow> nat \<Rightarrow> hash256 \<Rightarrow> unit dom_result" where
  "validate_branch_header_syntax s m ancestor fuel cursor =
    (if cursor = ancestor then Ok ()
     else
       and_then (stored_header s cursor (Internal ''reorg candidate header missing during validation'')) (\<lambda>h.
       and_then (map_err (\<lambda>_. Invalid ''reorg candidate header validation failed'') (validate_header_syntax h m)) (\<lambda>_.
       case fuel of
         0 \<Rightarrow> Panic ''branch walk does not end''
       | Suc n \<Rightarrow> validate_branch_header_syntax s m ancestor n (prev_hash h))))"

declare validate_branch_header_syntax.simps [simp del]

fun collect_branch_blocks ::
  "'p backend \<Rightarrow> dom_store \<Rightarrow> hash256 \<Rightarrow> nat \<Rightarrow> hash256 \<Rightarrow> (hash256 \<times> block) list dom_result" where
  "collect_branch_blocks B s ancestor fuel tip =
    (if tip = ancestor then Ok []
     else
       and_then (get_block_body s (as_bytes tip)) (\<lambda>found.
       and_then (ok_or found (Internal ''reorg block body missing'')) (\<lambda>body.
       and_then (map_err (\<lambda>_. Internal ''reorg block body decode failed'') (from_bytes (deserialize_block B) body)) (\<lambda>b.
       and_then (to_bytes serialize_header (header b)) (\<lambda>hb.
       case fuel of
         0 \<Rightarrow> Panic ''branch walk does not end''
       | Suc n \<Rightarrow>
           map_ok ((#) (compute_block_hash B hb, b)) (collect_branch_blocks B s ancestor n (prev_hash (header b))))))))"

declare collect_branch_blocks.simps [simp del]

section \<open>Retention of side branches\<close>

record retained_side_tip =
  rt_hash :: bytes
  rt_height :: u64
  rt_total_difficulty :: nat

fun canonical_hashes_loop :: "dom_store \<Rightarrow> bytes set \<Rightarrow> u64 list \<Rightarrow> bytes set dom_result" where
  "canonical_hashes_loop s out [] = Ok out"
| "canonical_hashes_loop s out (h # hs) =
    and_then (get_hash_at_height s h) (\<lambda>found.
    canonical_hashes_loop s (case found of Some hash \<Rightarrow> insert hash out | None \<Rightarrow> out) hs)"

definition canonical_hashes :: "dom_store \<Rightarrow> block_height \<Rightarrow> bytes set dom_result" where
  "canonical_hashes s canonical_tip_height = canonical_hashes_loop s {} (heights_upto (height_val canonical_tip_height))"

definition load_retention_header ::
  "dom_store \<Rightarrow> (bytes \<times> bytes) list \<Rightarrow> bytes \<Rightarrow> block_header option dom_result" where
  "load_retention_header s cached hash =
    (case map_of cached hash of
       Some bs \<Rightarrow> map_ok Some (from_bytes deserialize_header bs)
     | None \<Rightarrow> and_then (get_block_header s hash) (\<lambda>found. case found of
         Some bs \<Rightarrow> map_ok Some (from_bytes deserialize_header bs)
       | None \<Rightarrow> Ok None))"

definition candidate_tip ::
  "dom_store \<Rightarrow> (bytes \<times> bytes) list \<Rightarrow> block_height \<Rightarrow> bytes \<Rightarrow> bytes set \<Rightarrow> bytes \<times> block_header
    \<Rightarrow> retained_side_tip option dom_result" where
  "candidate_tip s headers canonical_tip_height canonical_tip_hash child_parents hh =
    (let (hash, h) = hh in
     if hash \<in> child_parents then Ok None
     else
       and_then (find_common_ancestor s (Hash256 canonical_tip_hash) (Hash256 hash)) (\<lambda>found. case found of
         None \<Rightarrow> Ok None
       | Some common_ancestor \<Rightarrow>
           if common_ancestor = Hash256 hash then Ok None
           else
             and_then (if common_ancestor = Hash256_ZERO then Ok (Some 0)
                       else map_ok (map_option (\<lambda>a. height_val (height a)))
                              (load_retention_header s headers (as_bytes common_ancestor))) (\<lambda>found. case found of
               None \<Rightarrow> Ok None
             | Some ancestor_height \<Rightarrow>
                 let disconnect_depth = saturating_sub (height_val canonical_tip_height) ancestor_height;
                     branch_length = saturating_sub (height_val (height h)) ancestor_height
                 in if MAX_RETAINED_SIDE_BRANCH_REORG_DEPTH < disconnect_depth
                       \<or> MAX_RETAINED_SIDE_BRANCH_LENGTH < branch_length then Ok None
                    else Ok (Some \<lparr>rt_hash = hash, rt_height = height_val (height h),
                                   rt_total_difficulty = total_difficulty h\<rparr>))))"

definition compare_side_tips :: "retained_side_tip \<Rightarrow> retained_side_tip \<Rightarrow> ordering" where
  "compare_side_tips l r =
    then_with (cmp (rt_total_difficulty r) (rt_total_difficulty l))
      (then_with (cmp (rt_hash l) (rt_hash r)) (cmp (rt_height r) (rt_height l)))"

fun keep_walk :: "dom_store \<Rightarrow> (bytes \<times> bytes) list \<Rightarrow> nat \<Rightarrow> hash256 \<Rightarrow> bytes set \<Rightarrow> bytes set dom_result" where
  "keep_walk s headers n cursor keep =
    (if as_bytes cursor \<in> keep then Ok keep
     else
       let keep = insert (as_bytes cursor) keep in
       case n of
         0 \<Rightarrow> Ok keep
       | Suc n' \<Rightarrow>
           and_then (load_retention_header s headers (as_bytes cursor)) (\<lambda>found. case found of
             None \<Rightarrow> Ok keep
           | Some h \<Rightarrow> if prev_hash h = Hash256_ZERO then Ok keep else keep_walk s headers n' (prev_hash h) keep))"

declare keep_walk.simps [simp del]

definition prune_retained_side_chains ::
  "dom_error option \<Rightarrow> dom_store \<Rightarrow> block_height \<Rightarrow> bytes \<Rightarrow> dom_store dom_result" where
  "prune_retained_side_chains io s canonical_tip_height canonical_tip_hash =
    and_then (read_all_block_headers_raw s) (\<lambda>headers.
    if headers = [] then Ok s
    else
      and_then (canonical_hashes s canonical_tip_height) (\<lambda>canonical.
      and_then (try_map (\<lambda>(hash, bs). map_ok (Pair hash) (from_bytes deserialize_header bs))
          (filter (\<lambda>(hash, _). hash \<notin> canonical) headers)) (\<lambda>noncanonical.
      if noncanonical = [] then Ok s
      else
        let child_parents = set (map (\<lambda>(_, h). as_bytes (prev_hash h)) noncanonical) in
        and_then (try_map (candidate_tip s headers canonical_tip_height canonical_tip_hash child_parents) noncanonical) (\<lambda>tips.
        let candidate_tips = take MAX_RETAINED_SIDE_BRANCH_TIPS (sort_by compare_side_tips (List.map_filter id tips)) in
        and_then (try_fold (\<lambda>keep t. keep_walk s headers (unat MAX_RETAINED_SIDE_BRANCH_LENGTH) (Hash256 (rt_hash t)) keep)
            canonical candidate_tips) (\<lambda>keep_hashes.
        prune_known_blocks io s (filter (\<lambda>hash. hash \<notin> keep_hashes) (map fst noncanonical)))))))"

section \<open>Consistency of the persisted state\<close>

definition rebuild_insert :: "string \<Rightarrow> database \<Rightarrow> bytes \<times> utxo_entry \<Rightarrow> database dom_result" where
  "rebuild_insert msg db ce =
    (if fmlookup db (fst ce) \<noteq> None then Err (CHAIN_CORRUPT msg)
     else Ok (fmupd (fst ce) (UtxoEntry_to_bytes (snd ce)) db))"

definition rebuild_remove :: "database \<Rightarrow> bytes \<Rightarrow> database dom_result" where
  "rebuild_remove db c =
    (if fmlookup db c = None then Err (CHAIN_CORRUPT ''canonical spend references missing UTXO'') else Ok (fmdrop c db))"

definition rebuild_tx :: "block \<Rightarrow> database \<Rightarrow> transaction \<Rightarrow> database dom_result" where
  "rebuild_tx b db tx =
    and_then (try_fold rebuild_remove db (map icommit (inputs tx))) (\<lambda>db.
    try_fold (rebuild_insert ''duplicate output UTXO commitment'') db (map (new_entry b False) (outputs tx)))"

definition rebuild_block :: "database \<Rightarrow> block \<Rightarrow> database dom_result" where
  "rebuild_block db b =
    and_then (rebuild_insert ''duplicate coinbase UTXO commitment'' db (new_entry b True (cb_output (coinbase b)))) (\<lambda>db.
    try_fold (rebuild_tx b) db (transactions b))"

text \<open>
  The block recorded as canonical at a height; the Mainnet identity envelope at height zero
  carries no block.
\<close>

definition canonical_block :: "'p backend \<Rightarrow> u32 \<Rightarrow> dom_store \<Rightarrow> u64 \<Rightarrow> (block \<times> hash256) option dom_result" where
  "canonical_block B m s h =
    and_then (get_hash_at_height s h) (\<lambda>found.
    and_then (ok_or found (CHAIN_CORRUPT ''missing canonical height_index entry'')) (\<lambda>hash.
    and_then (get_block_body s hash) (\<lambda>found.
    and_then (ok_or found (CHAIN_CORRUPT ''canonical block has no body'')) (\<lambda>body.
    if h = height_val BlockHeight_GENESIS \<and> m = NETWORK_MAGIC_MAINNET \<and> is_ok (validate_mainnet_genesis_identity B body)
    then Ok None
    else
      and_then (map_err (\<lambda>_. CHAIN_CORRUPT ''canonical block body decode failed'') (from_bytes (deserialize_block B) body)) (\<lambda>b.
      and_then (to_bytes serialize_header (header b)) (\<lambda>header_bytes.
      and_then (compute_block_identifier B m header_bytes) (\<lambda>computed.
      if as_bytes computed \<noteq> hash then Err (CHAIN_CORRUPT ''canonical block body/header hash mismatch'')
      else Ok (Some (b, computed)))))))))"

definition rebuild_height :: "'p backend \<Rightarrow> u32 \<Rightarrow> dom_store \<Rightarrow> database \<Rightarrow> u64 \<Rightarrow> database dom_result" where
  "rebuild_height B m s db h =
    and_then (canonical_block B m s h) (\<lambda>found. case found of None \<Rightarrow> Ok db | Some (b, _) \<Rightarrow> rebuild_block db b)"

definition reconstruct_canonical_utxo_set :: "'p backend \<Rightarrow> dom_store \<Rightarrow> block_height \<Rightarrow> u32 \<Rightarrow> database dom_result" where
  "reconstruct_canonical_utxo_set B s tip m = try_fold (rebuild_height B m s) fmempty (heights_upto (height_val tip))"

definition digest_utxo_entries :: "'p backend \<Rightarrow> database \<Rightarrow> bytes" where
  "digest_utxo_entries B utxos =
    blake2b B (UTXO_SET_DIGEST_DOMAIN
      @ concat (map (\<lambda>(c, e). c @ u32_to_le (of_nat (length e)) @ e) (fm_entries utxos)))"

definition rebuild_kernel_height ::
  "'p backend \<Rightarrow> (nat \<Rightarrow> dom_error option) \<Rightarrow> u32 \<Rightarrow> dom_store \<Rightarrow> u64 \<Rightarrow> dom_store \<times> unit dom_result" where
  "rebuild_kernel_height B io m s h =
    (case canonical_block B m s h of
       Ok None \<Rightarrow> (s, Ok ())
     | Ok (Some (b, computed)) \<Rightarrow>
         (case ensure_kernel_indices (io (unat h)) s (extract_kernel_excesses b computed) of
            Ok s' \<Rightarrow> (s', Ok ()) | Err e \<Rightarrow> (s, Err e) | Panic p \<Rightarrow> (s, Panic p))
     | Err e \<Rightarrow> (s, Err e)
     | Panic p \<Rightarrow> (s, Panic p))"

fun rebuild_kernel_loop ::
  "'p backend \<Rightarrow> (nat \<Rightarrow> dom_error option) \<Rightarrow> u32 \<Rightarrow> dom_store \<Rightarrow> u64 list \<Rightarrow> dom_store \<times> unit dom_result" where
  "rebuild_kernel_loop B io m s [] = (s, Ok ())"
| "rebuild_kernel_loop B io m s (h # hs) =
    (case rebuild_kernel_height B io m s h of
       (s', Ok _) \<Rightarrow> rebuild_kernel_loop B io m s' hs
     | (s', r) \<Rightarrow> (s', r))"

definition rebuild_kernel_index_from_canonical_chain ::
  "'p backend \<Rightarrow> (nat \<Rightarrow> dom_error option) \<Rightarrow> dom_store \<Rightarrow> block_height \<Rightarrow> u32 \<Rightarrow> dom_store \<times> unit dom_result" where
  "rebuild_kernel_index_from_canonical_chain B io s tip m = rebuild_kernel_loop B io m s (heights_upto (height_val tip))"

definition ensure_canonical_utxo_set ::
  "'p backend \<Rightarrow> dom_error option \<Rightarrow> dom_store \<Rightarrow> block_height \<Rightarrow> u32 \<Rightarrow> bool \<Rightarrow> dom_store dom_result" where
  "ensure_canonical_utxo_set B io s tip m allow_utxo_repair =
    and_then (reconstruct_canonical_utxo_set B s tip m) (\<lambda>canonical.
    let canonical_digest = digest_utxo_entries B canonical in
    and_then (read_all_utxos_raw s) (\<lambda>persisted.
    and_then (get_metadata s METADATA_UTXO_SET_DIGEST_KEY) (\<lambda>persisted_digest.
    if persisted = canonical then
      if persisted_digest \<noteq> Some canonical_digest then persist_utxo_set_digest io s canonical_digest else Ok s
    else if \<not> allow_utxo_repair then
      Err (CHAIN_CORRUPT ''persisted UTXO set diverges from the canonical set'')
    else replace_utxo_set io s canonical canonical_digest)))"

definition validate_persisted_genesis_identity :: "dom_store \<Rightarrow> hash256 \<Rightarrow> unit dom_result" where
  "validate_persisted_genesis_identity s configured =
    and_then (get_hash_at_height s (height_val BlockHeight_GENESIS)) (\<lambda>found. case found of
      None \<Rightarrow> Ok ()
    | Some stored \<Rightarrow>
        if configured \<noteq> Hash256_ZERO \<and> stored \<noteq> as_bytes configured then
          Err (Invalid ''stored genesis hash mismatch'')
        else Ok ())"

section \<open>Contextual header checks\<close>

definition validate_genesis_identity :: "chain_state \<Rightarrow> block_header \<Rightarrow> hash256 \<Rightarrow> unit dom_result" where
  "validate_genesis_identity cs h header_hash =
    (if height h \<noteq> BlockHeight_GENESIS then Ok ()
     else if magic cs = NETWORK_MAGIC_MAINNET then
       Err (Invalid ''Mainnet genesis is accepted only through the canonical identity-envelope bootstrap path'')
     else if genesis_hash cs \<noteq> Hash256_ZERO \<and> header_hash \<noteq> genesis_hash cs then
       Err (Invalid ''genesis hash mismatch'')
     else
       and_then (get_hash_at_height (cs_store cs) (height_val BlockHeight_GENESIS)) (\<lambda>found. case found of
         Some existing \<Rightarrow>
           if existing \<noteq> as_bytes header_hash then Err (Invalid ''alternate genesis block rejected'') else Ok ()
       | None \<Rightarrow> Ok ()))"

definition validate_genesis_body_identity ::
  "'p::ab_group_add backend \<Rightarrow> genesis_signer \<Rightarrow> chain_state \<Rightarrow> block \<Rightarrow> unit dom_result" where
  "validate_genesis_body_identity B S cs b =
    (if height (header b) \<noteq> BlockHeight_GENESIS \<or> magic cs = NETWORK_MAGIC_MAINNET then Ok ()
     else
       and_then (configured_genesis_hash_for_network_magic (magic cs)) (\<lambda>configured.
       if genesis_hash cs \<noteq> configured then Ok ()
       else
         let cid = derive_chain_id B (magic cs) configured in
         and_then (build_canonical_genesis B S (magic cs) (as_bytes cid)) (\<lambda>canonical.
         and_then (to_bytes serialize_block b) (\<lambda>actual.
         if actual \<noteq> cg_block_bytes canonical then Err (Invalid ''genesis body mismatch'') else Ok ()))))"

definition max_future_block_time :: "chain_state \<Rightarrow> u64" where
  "max_future_block_time cs =
    (if magic cs = NETWORK_MAGIC_TESTNET then TESTNET_MAX_FUTURE_BLOCK_TIME else MAX_FUTURE_BLOCK_TIME)"

fun get_recent_timestamps :: "dom_store \<Rightarrow> hash256 \<Rightarrow> nat \<Rightarrow> timestamp list dom_result" where
  "get_recent_timestamps s cursor 0 = Ok []"
| "get_recent_timestamps s cursor (Suc n) =
    (if cursor = Hash256_ZERO then Ok []
     else
       and_then (get_block_header s (as_bytes cursor)) (\<lambda>found. case found of
         None \<Rightarrow> Ok []
       | Some bs \<Rightarrow> and_then (from_bytes deserialize_header bs) (\<lambda>h.
           map_ok ((#) (hdr_timestamp h)) (get_recent_timestamps s (prev_hash h) n))))"

definition compute_randomx_seed :: "dom_store \<Rightarrow> u64 \<Rightarrow> bytes dom_result" where
  "compute_randomx_seed s h =
    (let seed_height = randomx_seed_height h in
     and_then (get_hash_at_height s seed_height) (\<lambda>found. case found of
       Some hash \<Rightarrow>
         and_then (get_block_header s hash) (\<lambda>found.
         and_then (ok_or found (Internal ''RandomX seed height points to missing header'')) (\<lambda>bs.
         and_then (map_err (\<lambda>_. Internal ''RandomX seed header is malformed'') (from_bytes deserialize_header bs)) (\<lambda>hd.
         if height_val (height hd) \<noteq> seed_height then Err (Internal ''RandomX seed height index mismatch'')
         else Ok hash)))
     | None \<Rightarrow>
         if seed_height = 0 then Ok (replicate 32 0)
         else Err (Internal ''RandomX seed block missing from committed store'')))"

fun seed_walk :: "dom_store \<Rightarrow> u64 \<Rightarrow> nat \<Rightarrow> hash256 \<Rightarrow> bytes dom_result" where
  "seed_walk s h n cursor =
    and_then (stored_header s cursor (Internal ''randomx seed walk: missing header'')) (\<lambda>hd.
    let cursor_height = height_val (height hd); seed_height = randomx_seed_height h in
    and_then (get_hash_at_height s cursor_height) (\<lambda>canonical.
    if canonical = Some (as_bytes cursor) then compute_randomx_seed s h
    else if cursor_height = seed_height then Ok (as_bytes cursor)
    else if cursor_height < seed_height then Err (Internal ''randomx seed walk underran seed_height'')
    else case n of
      0 \<Rightarrow> Err (Invalid ''randomx seed walk exceeded max reorg depth'')
    | Suc n' \<Rightarrow> seed_walk s h n' (prev_hash hd)))"

declare seed_walk.simps [simp del]

definition compute_randomx_seed_branch_aware :: "dom_store \<Rightarrow> u64 \<Rightarrow> hash256 \<Rightarrow> bytes dom_result" where
  "compute_randomx_seed_branch_aware s h parent_hash =
    (if randomx_seed_height h = 0 then compute_randomx_seed s h
     else seed_walk s h (unat MAX_REORG_DEPTH_POLICY) parent_hash)"

definition expected_target_for_child ::
  "chain_state \<Rightarrow> block_header \<Rightarrow> timestamp \<Rightarrow> block_height \<Rightarrow> expected_target dom_result" where
  "expected_target_for_child cs parent child_timestamp child_height =
    and_then (map_err (\<lambda>_. Invalid ''invalid target'') (to_target (target parent))) (\<lambda>prev.
    and_then (compute_expected_target (magic cs) child_timestamp child_height) (\<lambda>nxt.
    and_then (pow_params_for_network_at_height (magic cs) child_height) (\<lambda>params.
    and_then (asert_anchor_for_network_height (magic cs) child_height) (\<lambda>anchor.
    and_then (ok_or (checked_sub (height_val child_height) (height_val (anchor_height anchor)))
        (Invalid ''height before ASERT anchor'')) (\<lambda>delta.
    and_then (ok_or (checked_sub (secs child_timestamp) (secs (anchor_timestamp anchor)))
        (Invalid ''timestamp before ASERT anchor'')) (\<lambda>actual.
    and_then (ok_or (checked_mul (target_spacing params) delta) (Invalid ''ASERT expected elapsed overflow'')) (\<lambda>expected.
    Ok \<lparr>previous_target = prev, next_target = nxt, height_delta = delta, actual_elapsed_secs = actual,
         expected_elapsed_secs = expected\<rparr>)))))))"

definition validate_expected_target :: "chain_state \<Rightarrow> block_header \<Rightarrow> block_header \<Rightarrow> unit dom_result" where
  "validate_expected_target cs h parent =
    and_then (expected_target_for_child cs parent (hdr_timestamp h) (height h)) (\<lambda>expected.
    and_then (map_err (\<lambda>_. Invalid ''invalid target'') (to_target (target h))) (\<lambda>actual_target.
    if actual_target \<noteq> next_target expected then Err (Invalid ''target mismatch'') else Ok ()))"

definition next_block_target :: "chain_state \<Rightarrow> expected_target dom_result" where
  "next_block_target cs =
    (if tip_hash cs = Hash256_ZERO \<and> tip_height cs = BlockHeight_GENESIS then
       and_then (compute_expected_target (magic cs) (anchor_timestamp (cs_anchor cs)) BlockHeight_GENESIS) (\<lambda>t.
       Ok \<lparr>previous_target = t, next_target = t, height_delta = 0, actual_elapsed_secs = 0, expected_elapsed_secs = 0\<rparr>)
     else
       and_then (stored_header (cs_store cs) (tip_hash cs) (Internal ''chain tip header missing'')) (\<lambda>tip.
       and_then (ok_or (BlockHeight_checked_next (height tip)) (Invalid ''block height overflow'')) (\<lambda>next_height.
       and_then (pow_params_for_network_at_height (magic cs) next_height) (\<lambda>params.
       and_then (ok_or (Timestamp_checked_add_secs (hdr_timestamp tip) (target_spacing params))
           (Invalid ''next block timestamp overflow'')) (\<lambda>next_timestamp.
       expected_target_for_child cs tip next_timestamp next_height)))))"

definition is_synced :: "chain_state \<Rightarrow> u64 \<Rightarrow> bool dom_result" where
  "is_synced cs best_peer_height =
    and_then (expect (checked_add (height_val (tip_height cs)) 10) ''attempt to add with overflow'') (\<lambda>x.
    Ok (best_peer_height \<le> x))"

definition check_total_difficulty :: "chain_state \<Rightarrow> block_header \<Rightarrow> nat \<Rightarrow> unit dom_result" where
  "check_total_difficulty cs h parent_difficulty =
    and_then (map_err (\<lambda>_. Invalid ''invalid target'') (to_target (target h))) (\<lambda>t.
    and_then (target_to_difficulty_for_network_height (magic cs) (height h) t) (\<lambda>block_diff.
    and_then (checked_accumulated_difficulty parent_difficulty block_diff) (\<lambda>expected_total.
    if total_difficulty h \<noteq> expected_total then Err (Invalid ''total_difficulty mismatch'') else Ok ())))"

definition validate_header_only ::
  "'p backend \<Rightarrow> pow_env \<Rightarrow> chain_state \<Rightarrow> block_header \<Rightarrow> timestamp \<Rightarrow> unit dom_result" where
  "validate_header_only B E cs h now =
    and_then (to_bytes serialize_header h) (\<lambda>header_bytes.
    and_then (compute_block_identifier B (magic cs) header_bytes) (\<lambda>header_hash.
    and_then (get_block_header (cs_store cs) (as_bytes header_hash)) (\<lambda>known.
    if known \<noteq> None then Ok ()
    else
      and_then (validate_header_syntax h (magic cs)) (\<lambda>_.
      and_then (validate_genesis_identity cs h header_hash) (\<lambda>_.
      and_then (validate_future_timestamp_with_limit h now (max_future_block_time cs)) (\<lambda>_.
      and_then (if height h \<noteq> BlockHeight_GENESIS then
          and_then (stored_header (cs_store cs) (prev_hash h) (Orphan ''parent not found'')) (\<lambda>parent.
          and_then (validate_parent_timestamp_progression h parent) (\<lambda>_.
          and_then (get_recent_timestamps (cs_store cs) (prev_hash h) 11) (\<lambda>ancestors.
          and_then (validate_median_time_past h ancestors) (\<lambda>_.
          and_then (validate_expected_target cs h parent) (\<lambda>_.
          check_total_difficulty cs h (total_difficulty parent))))))
        else Ok ()) (\<lambda>_.
      and_then (compute_randomx_seed_branch_aware (cs_store cs) (height_val (height h)) (prev_hash h)) (\<lambda>seed.
      validate_pow_for_network B E (magic cs) h seed))))))))"

section \<open>Opening a store\<close>

definition open_tip ::
  "'p backend \<Rightarrow> (nat \<Rightarrow> dom_error option) \<Rightarrow> dom_store \<Rightarrow> u32 \<Rightarrow> bool \<Rightarrow> bytes
    \<Rightarrow> dom_store \<times> (hash256 \<times> block_height \<times> nat) dom_result" where
  "open_tip B io s m allow_utxo_repair hash =
    try_in s (stored_header s (Hash256 hash) (CHAIN_CORRUPT ''chain_tip points at missing header'')) (\<lambda>h.
    try_in s (get_block_body s hash) (\<lambda>body.
    if body = None then (s, Err (CHAIN_CORRUPT ''tip has header but no body''))
    else
      try_in s (get_hash_at_height s (height_val (height h))) (\<lambda>found.
      if found = None then (s, Err (CHAIN_CORRUPT ''tip has no height_index entry''))
      else if found \<noteq> Some hash then (s, Err (CHAIN_CORRUPT ''height_index differs from tip''))
      else
        case rebuild_kernel_index_from_canonical_chain B io s (height h) m of
          (s, r) \<Rightarrow> try_in s r (\<lambda>_.
            try_in s (ensure_canonical_utxo_set B (io (Suc (unat (height_val (height h))))) s (height h) m allow_utxo_repair) (\<lambda>s.
            try_in s (prune_retained_side_chains (io (Suc (Suc (unat (height_val (height h)))))) s (height h) hash) (\<lambda>s.
            (s, Ok (Hash256 hash, height h, total_difficulty h))))))))"

definition open_inner ::
  "'p backend \<Rightarrow> (nat \<Rightarrow> dom_error option) \<Rightarrow> dom_store \<Rightarrow> hash256 \<Rightarrow> u32 \<Rightarrow> bool \<Rightarrow> dom_store \<times> chain_state dom_result" where
  "open_inner B io s genesis m allow_utxo_repair =
    try_in s (map_err (\<lambda>_. Internal ''genesis anchor'') (genesis_anchor m)) (\<lambda>anchor.
    try_in s (get_chain_tip s) (\<lambda>tip.
    let (s, r) = (case tip of
        Some hash \<Rightarrow> open_tip B io s m allow_utxo_repair hash
      | None \<Rightarrow> try_in s (prune_retained_side_chains (io 0) s BlockHeight_GENESIS (replicate 32 0)) (\<lambda>s.
          (s, Ok (Hash256_ZERO, BlockHeight_GENESIS, 0))))
    in try_in s r (\<lambda>(th, hh, td).
       try_in s (validate_persisted_genesis_identity s genesis) (\<lambda>_.
       (s, Ok \<lparr>cs_store = s, tip_hash = th, tip_height = hh, tip_difficulty = td, genesis_hash = genesis,
         cs_anchor = anchor, magic = m, coinbase_maturity = coinbase_maturity_for_magic m\<rparr>)))))"

definition chain_open ::
  "'p backend \<Rightarrow> (nat \<Rightarrow> dom_error option) \<Rightarrow> dom_store \<Rightarrow> hash256 \<Rightarrow> u32 \<Rightarrow> dom_store \<times> chain_state dom_result" where
  "chain_open B io s genesis m = open_inner B io s genesis m False"

definition open_with_utxo_repair ::
  "'p backend \<Rightarrow> (nat \<Rightarrow> dom_error option) \<Rightarrow> dom_store \<Rightarrow> hash256 \<Rightarrow> u32 \<Rightarrow> dom_store \<times> chain_state dom_result" where
  "open_with_utxo_repair B io s genesis m = open_inner B io s genesis m True"

section \<open>Promotion of a heavier branch\<close>

definition BRANCH_WALK_STEPS :: nat where
  "BRANCH_WALK_STEPS = unat MAX_REORG_DEPTH_POLICY"

definition block_delta :: "hash256 \<times> block \<Rightarrow> reorg_block_delta" where
  "block_delta hb = \<lparr>rb_block_hash = as_bytes (fst hb), rb_block_height = height_val (height (header (snd hb))),
    rb_transactions = transactions (snd hb)\<rparr>"

definition build_reorg_delta :: "u64 \<Rightarrow> (hash256 \<times> block) list \<Rightarrow> (hash256 \<times> block) list \<Rightarrow> reorg_delta" where
  "build_reorg_delta ancestor_height disconnect_blocks connect_blocks =
    \<lparr>common_ancestor_height = ancestor_height,
     disconnected_blocks = map block_delta disconnect_blocks,
     connected_blocks = map block_delta connect_blocks,
     disconnected_txs = concat (map (\<lambda>(_, b). transactions b) disconnect_blocks),
     connected_txs = concat (map (\<lambda>(_, b). transactions b) connect_blocks)\<rparr>"

definition block_context :: "'p backend \<Rightarrow> chain_state \<Rightarrow> block_height \<Rightarrow> timestamp \<Rightarrow> validation_context" where
  "block_context B cs h now =
    \<lparr>current_height = h, chain_id = as_bytes (derive_chain_id B (magic cs) (genesis_hash cs)), ctx_now = now\<rparr>"

definition validate_candidate ::
  "'p::ab_group_add backend \<Rightarrow> chain_state \<Rightarrow> timestamp \<Rightarrow> hash256 \<times> block \<Rightarrow> unit dom_result" where
  "validate_candidate B cs now hb =
    (let (_, b) = hb in
     and_then (validate_future_timestamp_with_limit (header b) now (max_future_block_time cs)) (\<lambda>_.
     map_err (\<lambda>_. Invalid ''reorg candidate block validation failed'')
       (validate_block_for_network B b (block_context B cs (height (header b)) now) (magic cs))))"

definition build_height_updates :: "u64 \<Rightarrow> u64 \<Rightarrow> (hash256 \<times> block) list \<Rightarrow> (u64 \<times> bytes option) list dom_result" where
  "build_height_updates ancestor_height tip connect_blocks =
    and_then (expect (checked_add ancestor_height 1) ''attempt to add with overflow'') (\<lambda>first.
    let cleared = foldl (\<lambda>m h. fmupd h None m) fmempty (map of_nat [unat first ..< Suc (unat tip)]) in
    Ok (fm_entries (foldl (\<lambda>m (hash, b). fmupd (height_val (height (header b))) (Some (as_bytes hash)) m)
        cleared connect_blocks)))"

text \<open>The decisions of a promotion up to the two branches, and the new store contents.\<close>

definition reorg_ancestor :: "chain_state \<Rightarrow> hash256 \<Rightarrow> (hash256 \<times> u64) dom_result" where
  "reorg_ancestor cs new_tip_hash =
    and_then (find_common_ancestor (cs_store cs) (tip_hash cs) new_tip_hash) (\<lambda>found.
    and_then (ok_or (Option.bind found (\<lambda>h. if h \<noteq> Hash256_ZERO then Some h else None))
        (Invalid ''heavier side chain has no common ancestor'')) (\<lambda>ancestor.
    if ancestor = tip_hash cs then Ok (ancestor, height_val (tip_height cs))
    else
      map_ok (\<lambda>h. (ancestor, height_val (height h)))
        (stored_header (cs_store cs) ancestor (Internal ''reorg ancestor header missing''))))"

definition reorg_branches ::
  "'p::ab_group_add backend \<Rightarrow> chain_state \<Rightarrow> hash256 \<Rightarrow> block_header \<Rightarrow> timestamp
    \<Rightarrow> (u64 \<times> (hash256 \<times> block) list \<times> (hash256 \<times> block) list) dom_result" where
  "reorg_branches B cs new_tip_hash new_tip_header now =
    and_then (reorg_ancestor cs new_tip_hash) (\<lambda>(ancestor, ancestor_height).
    and_then (validate_branch_header_syntax (cs_store cs) (magic cs) ancestor BRANCH_WALK_STEPS new_tip_hash) (\<lambda>_.
    if \<not> is_better_fork_choice_tip (total_difficulty new_tip_header) new_tip_hash (tip_difficulty cs) (tip_hash cs) then
      Err (PolicyRejected ''reorg target is not heavier or tie-preferred'')
    else
      and_then (ok_or (checked_sub (height_val (tip_height cs)) ancestor_height)
          (Internal ''reorg ancestor is above local tip'')) (\<lambda>reorg_depth.
      and_then (check_rolling_finality (height_val (tip_height cs)) reorg_depth) (\<lambda>_.
      and_then (check_reorg_depth reorg_depth) (\<lambda>_.
      and_then (collect_branch_blocks B (cs_store cs) ancestor BRANCH_WALK_STEPS (tip_hash cs)) (\<lambda>disconnect_blocks.
      if length disconnect_blocks \<noteq> unat reorg_depth then Err (Internal ''reorg depth mismatch'')
      else
        and_then (collect_branch_blocks B (cs_store cs) ancestor BRANCH_WALK_STEPS new_tip_hash) (\<lambda>branch.
        let connect_blocks = rev branch in
        and_then (for_each (validate_candidate B cs now) connect_blocks) (\<lambda>_.
        Ok (ancestor_height, disconnect_blocks, connect_blocks)))))))))"

definition reorg_overlays ::
  "'p backend \<Rightarrow> chain_state \<Rightarrow> u64 \<Rightarrow> (hash256 \<times> block) list \<Rightarrow> (hash256 \<times> block) list
    \<Rightarrow> (utxo_overlay \<times> kernel_overlay) dom_result" where
  "reorg_overlays B cs ancestor_height disconnect_blocks connect_blocks =
    (let index = foldl (\<lambda>m (_, b). record_block_outputs m b) fmempty disconnect_blocks in
     and_then (try_fold (apply_disconnect B (cs_store cs) ancestor_height index) (fmempty, fmempty) disconnect_blocks) (\<lambda>ov.
     try_fold (apply_connect (cs_store cs) (coinbase_maturity cs)) ov connect_blocks))"

definition promote_heavier_known_tip ::
  "'p::ab_group_add backend \<Rightarrow> (nat \<Rightarrow> dom_error option) \<Rightarrow> chain_state \<Rightarrow> hash256 \<Rightarrow> timestamp
    \<Rightarrow> chain_state \<times> reorg_delta dom_result" where
  "promote_heavier_known_tip B io cs new_tip_hash now =
    try_in cs (stored_header (cs_store cs) new_tip_hash (Internal ''reorg target header missing'')) (\<lambda>new_tip_header.
    try_in cs (reorg_branches B cs new_tip_hash new_tip_header now) (\<lambda>(ancestor_height, disconnect_blocks, connect_blocks).
    let delta = build_reorg_delta ancestor_height disconnect_blocks connect_blocks in
    try_in cs (reorg_overlays B cs ancestor_height disconnect_blocks connect_blocks) (\<lambda>(utxo_overlay, kernel_overlay).
    try_in cs (build_height_updates ancestor_height (height_val (tip_height cs)) connect_blocks) (\<lambda>height_updates.
    try_in cs (build_utxo_updates (cs_store cs) utxo_overlay) (\<lambda>utxo_updates.
    try_in cs (build_kernel_updates (cs_store cs) kernel_overlay) (\<lambda>kernel_updates.
    try_in cs (apply_reorg (io 0) (cs_store cs) (as_bytes new_tip_hash) height_updates utxo_updates kernel_updates) (\<lambda>s.
    let cs = cs\<lparr>cs_store := s, tip_hash := new_tip_hash, tip_height := height new_tip_header,
                tip_difficulty := total_difficulty new_tip_header\<rparr>
    in
    try_in cs (prune_retained_side_chains (io 1) s (tip_height cs) (as_bytes (tip_hash cs))) (\<lambda>s.
    (cs\<lparr>cs_store := s\<rparr>, Ok delta)))))))))"

section \<open>Connecting a block\<close>

definition check_direct_input :: "dom_store \<Rightarrow> block_header \<Rightarrow> u64 \<Rightarrow> bytes \<Rightarrow> unit dom_result" where
  "check_direct_input s h maturity commitment =
    and_then (get_utxo s commitment) (\<lambda>found.
    and_then (ok_or found (Invalid ''input commitment not found in UTXO set'')) (\<lambda>entry.
    if is_coinbase entry \<and> \<not> is_mature_for entry (height_val (height h)) maturity then
      Err (Invalid ''immature coinbase spend'')
    else Ok ()))"

definition validate_direct_extension_inputs :: "chain_state \<Rightarrow> block \<Rightarrow> unit dom_result" where
  "validate_direct_extension_inputs cs b =
    for_each (check_direct_input (cs_store cs) (header b) (coinbase_maturity cs)) (block_spent b)"

definition check_fresh_output :: "dom_store \<Rightarrow> bytes \<Rightarrow> unit dom_result" where
  "check_fresh_output s commitment =
    and_then (get_utxo s commitment) (\<lambda>found.
    if found \<noteq> None then Err (Invalid ''direct connect duplicate output commitment'') else Ok ())"

definition check_fresh_kernel :: "dom_store \<Rightarrow> bytes \<Rightarrow> unit dom_result" where
  "check_fresh_kernel s excess =
    and_then (get_kernel_block s excess) (\<lambda>found.
    if found \<noteq> None then Err (Invalid ''direct connect kernel replay detected'') else Ok ())"

definition check_parent :: "chain_state \<Rightarrow> block_header \<Rightarrow> block_header option dom_result" where
  "check_parent cs h =
    (if height h \<noteq> BlockHeight_GENESIS then
       and_then (stored_header (cs_store cs) (prev_hash h) (Orphan ''parent not found'')) (\<lambda>parent.
       and_then (ok_or (BlockHeight_checked_next (height parent)) (Invalid ''block height overflow'')) (\<lambda>expected_height.
       if height h \<noteq> expected_height then Err (Invalid ''height mismatch'')
       else
         and_then (validate_parent_timestamp_progression h parent) (\<lambda>_.
         and_then (get_recent_timestamps (cs_store cs) (prev_hash h) 11) (\<lambda>ancestors.
         and_then (validate_median_time_past h ancestors) (\<lambda>_.
         Ok (Some parent))))))
     else Ok None)"

text \<open>Every check of a new block that does not depend on whether it extends the tip.\<close>

definition validate_new_block ::
  "'p::ab_group_add backend \<Rightarrow> pow_env \<Rightarrow> genesis_signer \<Rightarrow> chain_state \<Rightarrow> block \<Rightarrow> hash256 \<Rightarrow> timestamp \<Rightarrow> unit dom_result" where
  "validate_new_block B E S cs b block_hash now =
    (let h = header b in
     and_then (validate_header_syntax h (magic cs)) (\<lambda>_.
     and_then (validate_genesis_identity cs h block_hash) (\<lambda>_.
     and_then (validate_genesis_body_identity B S cs b) (\<lambda>_.
     and_then (check_parent cs h) (\<lambda>parent.
     and_then (validate_future_timestamp_with_limit h now (max_future_block_time cs)) (\<lambda>_.
     and_then (compute_randomx_seed_branch_aware (cs_store cs) (height_val (height h)) (prev_hash h)) (\<lambda>seed.
     and_then (validate_pow_for_network B E (magic cs) h seed) (\<lambda>_.
     and_then (case parent of Some p \<Rightarrow> validate_expected_target cs h p | None \<Rightarrow> Ok ()) (\<lambda>_.
     and_then (check_total_difficulty cs h (case parent of Some p \<Rightarrow> total_difficulty p | None \<Rightarrow> 0)) (\<lambda>_.
     map_err (\<lambda>_. Invalid ''block validation failed'')
       (validate_block_for_network B b (block_context B cs (height h) now) (magic cs))))))))))))"

definition connect_direct ::
  "(nat \<Rightarrow> dom_error option) \<Rightarrow> chain_state \<Rightarrow> block \<Rightarrow> hash256 \<Rightarrow> bytes \<Rightarrow> bytes \<Rightarrow> chain_state \<times> connect_result dom_result" where
  "connect_direct io cs b block_hash header_bytes block_body_bytes =
    (let h = header b; kernel_excesses = extract_kernel_excesses b block_hash;
         (new_utxos, spent_utxos) = build_utxo_changeset b
     in
     try_in cs (validate_direct_extension_inputs cs b) (\<lambda>_.
     try_in cs (for_each (check_fresh_output (cs_store cs)) (map fst (block_new_entries b))) (\<lambda>_.
     try_in cs (for_each (check_fresh_kernel (cs_store cs)) (map fst kernel_excesses)) (\<lambda>_.
     try_in cs (commit_block (io 0) (cs_store cs) (as_bytes block_hash) (height_val (height h)) header_bytes
         block_body_bytes new_utxos spent_utxos kernel_excesses) (\<lambda>s.
     let cs = cs\<lparr>cs_store := s, tip_hash := block_hash, tip_height := height h, tip_difficulty := total_difficulty h\<rparr> in
     try_in cs (prune_retained_side_chains (io 1) s (tip_height cs) (as_bytes (tip_hash cs))) (\<lambda>s.
     (cs\<lparr>cs_store := s\<rparr>, Ok BestChain)))))))"

definition connect_side ::
  "'p::ab_group_add backend \<Rightarrow> (nat \<Rightarrow> dom_error option) \<Rightarrow> chain_state \<Rightarrow> block \<Rightarrow> hash256 \<Rightarrow> bytes \<Rightarrow> bytes \<Rightarrow> bool \<Rightarrow> timestamp
    \<Rightarrow> chain_state \<times> connect_result dom_result" where
  "connect_side B io cs b block_hash header_bytes block_body_bytes extends_best_chain now =
    try_in cs (store_known_block (io 0) (cs_store cs) (as_bytes block_hash) header_bytes block_body_bytes) (\<lambda>s.
    let cs = cs\<lparr>cs_store := s\<rparr> in
    try_in cs (prune_retained_side_chains (io 1) s (tip_height cs) (as_bytes (tip_hash cs))) (\<lambda>s.
    let cs = cs\<lparr>cs_store := s\<rparr> in
    if extends_best_chain then
      let (cs, r) = promote_heavier_known_tip B (\<lambda>n. io (n + 2)) cs block_hash now in (cs, map_ok Reorg r)
    else (cs, Ok SideChain)))"

definition connect_block ::
  "'p::ab_group_add backend \<Rightarrow> pow_env \<Rightarrow> genesis_signer \<Rightarrow> (nat \<Rightarrow> dom_error option) \<Rightarrow> chain_state \<Rightarrow> block \<Rightarrow> timestamp
    \<Rightarrow> chain_state \<times> connect_result dom_result" where
  "connect_block B E S io cs b now =
    (let h = header b in
     try_in cs (to_bytes serialize_header h) (\<lambda>header_bytes.
     try_in cs (compute_block_identifier B (magic cs) header_bytes) (\<lambda>block_hash.
     try_in cs (get_block_header (cs_store cs) (as_bytes block_hash)) (\<lambda>known.
     if known \<noteq> None then (cs, Ok AlreadyHave)
     else
       try_in cs (validate_new_block B E S cs b block_hash now) (\<lambda>_.
       try_in cs (to_bytes serialize_block b) (\<lambda>block_body_bytes.
       let is_direct_extension = (height h = BlockHeight_GENESIS \<or> prev_hash h = tip_hash cs);
           extends_best_chain =
             is_better_fork_choice_tip (total_difficulty h) block_hash (tip_difficulty cs) (tip_hash cs)
       in
       if is_direct_extension then
         if \<not> extends_best_chain then (cs, Err (Invalid ''direct extension did not improve fork choice''))
         else connect_direct io cs b block_hash header_bytes block_body_bytes
       else connect_side B io cs b block_hash header_bytes block_body_bytes extends_best_chain now))))))"

section \<open>The first block of a fresh chain\<close>

text \<open>
  \<^verbatim>\<open>create_genesis_block\<close> of dom-node/src/miner.rs, on the chain state of the node; its caller
  runs it on a fresh chain only.
\<close>

definition create_genesis_block ::
  "'p::ab_group_add backend \<Rightarrow> genesis_signer \<Rightarrow> dom_error option \<Rightarrow> chain_state \<Rightarrow> chain_state \<times> unit dom_result" where
  "create_genesis_block B S io cs =
    try_in cs (startup_genesis_hash_for_network_magic (magic cs)) (\<lambda>startup.
    try_in cs (build_canonical_genesis B S (magic cs) (as_bytes (derive_chain_id B (magic cs) startup))) (\<lambda>canonical.
    try_in cs (configured_genesis_hash_for_network_magic (magic cs)) (\<lambda>configured.
    if cg_hash canonical \<noteq> configured then (cs, Err (Invalid ''canonical genesis identifier mismatch''))
    else
      try_in cs (from_bytes deserialize_header (cg_header_bytes canonical)) (\<lambda>genesis_header.
      try_in cs (case cg_block canonical of
          Some b \<Rightarrow> Ok (genesis_canonical_changeset b (cg_hash canonical))
        | None \<Rightarrow> map_ok (\<lambda>_. ([], [], [])) (validate_mainnet_genesis_identity B (cg_block_bytes canonical)))
        (\<lambda>(new_utxos, spent_utxos, kernel_excesses).
      try_in cs (commit_block io (cs_store cs) (as_bytes (cg_hash canonical)) 0 (cg_header_bytes canonical)
          (cg_block_bytes canonical) new_utxos spent_utxos kernel_excesses) (\<lambda>s.
      (cs\<lparr>cs_store := s, tip_hash := cg_hash canonical, tip_height := BlockHeight_GENESIS,
           tip_difficulty := total_difficulty genesis_header\<rparr>, Ok ())))))))"

end
