(* ===== verification/Ledger.thy ===== *)
theory Ledger
  imports Chain
begin

text \<open>
  The abstract ledger a chain of blocks defines: the set of live output commitments, replayed
  block by block.  A step is undone by the opposite update, and the values of the live outputs
  under any openings add up to the subsidies of the blocks, unless an opening breaks the
  binding of a commitment.
\<close>

section \<open>The ledger as a set of commitments\<close>

lemma created_outputs: "map fst (block_new_entries b) = map commit_bytes (block_outputs b)"
  by (simp add: block_new_entries_def block_outputs_def new_entry_def map_concat comp_def)

lemma spent_inputs: "block_spent b = map commit_bytes (block_inputs b)"
  by (simp add: block_spent_def block_inputs_def map_concat comp_def)

definition block_created :: "block \<Rightarrow> bytes list" where
  "block_created b = map fst (block_new_entries b)"

text \<open>
  The abstract ledger: a block may be applied when what it spends is live and what it creates
  is not.
\<close>

definition ledger_step :: "bytes set \<Rightarrow> block \<Rightarrow> bytes set option" where
  "ledger_step L b =
    (if set (block_spent b) \<subseteq> L \<and> set (block_created b) \<inter> L = {}
     then Some (L - set (block_spent b) \<union> set (block_created b)) else None)"

fun ledger :: "bytes set \<Rightarrow> block list \<Rightarrow> bytes set option" where
  "ledger L [] = Some L"
| "ledger L (b # bs) = Option.bind (ledger_step L b) (\<lambda>L'. ledger L' bs)"

definition body_distinct :: "block \<Rightarrow> bool" where
  "body_distinct b \<longleftrightarrow> distinct (block_spent b) \<and> distinct (block_created b)
    \<and> set (block_spent b) \<inter> set (block_created b) = {}"

lemma block_valid_distinct: "block_valid B ctx n b \<Longrightarrow> body_distinct b"
  by (auto simp: block_valid_def body_distinct_def block_created_def created_outputs spent_inputs)

lemma ledger_append: "ledger L (xs @ ys) = Option.bind (ledger L xs) (\<lambda>L'. ledger L' ys)"
  by (induction xs arbitrary: L) (auto split: bind_split)

lemma ledger_snoc: "ledger L (xs @ [b]) = Option.bind (ledger L xs) (\<lambda>L'. ledger_step L' b)"
  by (simp add: ledger_append)

lemma ledger_finite: "finite L \<Longrightarrow> ledger L bs = Some L' \<Longrightarrow> finite L'"
proof (induction bs arbitrary: L)
  case (Cons b bs)
  then obtain M where M: "ledger_step L b = Some M" "ledger M bs = Some L'" by (auto simp: bind_eq_Some_conv)
  moreover have "finite M" using M(1) Cons.prems(1) by (auto simp: ledger_step_def split: if_splits)
  ultimately show ?case using Cons.IH by blast
qed simp

text \<open>Undoing the last block of a ledger.\<close>

lemma ledger_step_undo:
  assumes "ledger_step L b = Some L'" "body_distinct b"
  shows "L = L' - set (block_created b) \<union> set (block_spent b)"
  using assms by (auto simp: ledger_step_def body_distinct_def split: if_splits)

section \<open>Value of the ledger\<close>

lemma ledger_step_value:
  fixes v :: "bytes \<Rightarrow> nat"
  assumes "ledger_step L b = Some L'" "body_distinct b" "finite L"
  shows "sum v L' + sum_list (map v (block_spent b)) = sum v L + sum_list (map v (block_created b))"
proof -
  let ?S = "set (block_spent b)" let ?C = "set (block_created b)"
  have sub: "?S \<subseteq> L" "?C \<inter> L = {}" and L': "L' = L - ?S \<union> ?C"
    using assms(1) by (auto simp: ledger_step_def split: if_splits)
  have lists: "sum_list (map v (block_spent b)) = sum v ?S" "sum_list (map v (block_created b)) = sum v ?C"
    using assms(2) by (simp_all add: body_distinct_def sum_list_distinct_conv_sum_set)
  have "sum v L' = sum v (L - ?S) + sum v ?C"
    unfolding L' using assms(3) sub(2) by (intro sum.union_disjoint) auto
  moreover have "sum v (L - ?S) + sum v ?S = sum v L"
    using sub(1) assms(3) by (simp add: sum.subset_diff)
  ultimately show ?thesis by (simp add: lists)
qed

text \<open>
  An assignment of openings to commitments that opens everything a block mentions, and the
  break of the commitment scheme that two openings of one aggregate point would be.
\<close>

definition opens_block ::
  "'p::ab_group_add backend \<Rightarrow> 'p \<Rightarrow> (bytes \<Rightarrow> nat \<times> nat) \<Rightarrow> (bytes \<Rightarrow> nat) \<Rightarrow> block \<Rightarrow> bool" where
  "opens_block B H op ex b \<longleftrightarrow>
    list_all (\<lambda>c. opens B H c (op (commit_bytes c))) (block_outputs b)
    \<and> list_all (\<lambda>c. opens B H c (op (commit_bytes c))) (block_inputs b)
    \<and> list_all (\<lambda>c. opens_excess B c (ex (commit_bytes c))) (block_excesses b)"

definition breaks_commitment ::
  "'p::ab_group_add backend \<Rightarrow> 'p \<Rightarrow> (bytes \<Rightarrow> nat \<times> nat) \<Rightarrow> (bytes \<Rightarrow> nat) \<Rightarrow> block \<Rightarrow> bool" where
  "breaks_commitment B H op ex b \<longleftrightarrow>
    (let oo = map op (block_created b); ii = map op (block_spent b);
         ee = map (\<lambda>c. ex (commit_bytes c)) (block_excesses b)
     in double_opening B H (value_sum oo, blind_sum oo)
          (value_sum ii + unat (noms (block_reward (height (header b)))),
           blind_sum ii + sum_list ee + offset_scalar B (total_kernel_offset (header b))))"

definition block_subsidy :: "block \<Rightarrow> nat" where
  "block_subsidy b = unat (noms (block_reward (height (header b))))"

lemma block_value_change:
  assumes "mul_law B" "h_point B = Ok H" "block_ok B b" "block_valid B ctx n b" "opens_block B H op ex b"
    and "\<not> breaks_commitment B H op ex b"
  shows "sum_list (map (fst \<circ> op) (block_created b)) = sum_list (map (fst \<circ> op) (block_spent b)) + block_subsidy b"
proof -
  have "value_sum (map (op \<circ> commit_bytes) (block_outputs b))
      = value_sum (map (op \<circ> commit_bytes) (block_inputs b)) + unat (noms (block_reward (height (header b))))
    \<or> double_opening B H (value_sum (map (op \<circ> commit_bytes) (block_outputs b)), blind_sum (map (op \<circ> commit_bytes) (block_outputs b)))
        (value_sum (map (op \<circ> commit_bytes) (block_inputs b)) + unat (noms (block_reward (height (header b)))),
         blind_sum (map (op \<circ> commit_bytes) (block_inputs b))
           + sum_list (map (\<lambda>c. ex (commit_bytes c)) (block_excesses b)) + offset_scalar B (total_kernel_offset (header b)))"
    using assms(5)
    by (intro block_conserves [OF assms(1-4)])
      (auto simp: opens_block_def list_all2_map2 list_all2_same list_all_iff)
  then show ?thesis
    using assms(6)
    by (auto simp: breaks_commitment_def Let_def block_created_def created_outputs spent_inputs value_sum_def
        block_subsidy_def comp_def)
qed

lemma ledger_supply:
  assumes "mul_law B" "h_point B = Ok H" "ledger L bs = Some L'" "finite L"
    and "\<forall>b \<in> set bs. block_ok B b \<and> (\<exists>ctx. block_valid B ctx n b) \<and> opens_block B H op ex b
      \<and> \<not> breaks_commitment B H op ex b"
  shows "(\<Sum>c\<in>L'. fst (op c)) = (\<Sum>c\<in>L. fst (op c)) + sum_list (map block_subsidy bs)"
  using assms(3-5)
proof (induction bs arbitrary: L)
  case (Cons b bs)
  obtain M where M: "ledger_step L b = Some M" "ledger M bs = Some L'"
    using Cons.prems(1) by (auto simp: bind_eq_Some_conv)
  from Cons.prems(3) obtain ctx where b: "block_ok B b" "block_valid B ctx n b" "opens_block B H op ex b"
      "\<not> breaks_commitment B H op ex b" by auto
  have fin: "finite M" using M(1) Cons.prems(2) by (auto simp: ledger_step_def split: if_splits)
  have "(\<Sum>c\<in>M. (fst \<circ> op) c) + sum_list (map (fst \<circ> op) (block_spent b))
      = (\<Sum>c\<in>L. (fst \<circ> op) c) + sum_list (map (fst \<circ> op) (block_created b))"
    using M(1) block_valid_distinct [OF b(2)] Cons.prems(2) by (rule ledger_step_value)
  then have "(\<Sum>c\<in>M. fst (op c)) = (\<Sum>c\<in>L. fst (op c)) + block_subsidy b"
    using block_value_change [OF assms(1,2) b] by simp
  then show ?case using Cons.IH [OF M(2) fin] Cons.prems(3) by simp
qed simp

end
