(* ===== verification/Chain_Branch.thy ===== *)
theory Chain_Branch
  imports Ledger
begin

text \<open>
  What the block store holds (a valid block under its identifier, with its parent), branches of
  stored blocks, the canonical chain of the height index, and the loops of chain_state.rs and
  reorg.rs that walk them: the search for the common ancestor, the collection of a branch and
  the pruning of side branches.
\<close>

section \<open>What the store holds\<close>

abbreviation hgt :: "block_header \<Rightarrow> nat" where
  "hgt h \<equiv> unat (height_val (height h))"

definition known_network_magic :: "u32 \<Rightarrow> bool" where
  "known_network_magic m \<longleftrightarrow> m = NETWORK_MAGIC_MAINNET \<or> m = NETWORK_MAGIC_TESTNET \<or> m = NETWORK_MAGIC_REGTEST"

type_synonym chain_entry = "hash256 \<times> block_header \<times> block option"

text \<open>
  A stored block is the encoding of a valid block under its identifier; only the Mainnet
  genesis is an identity envelope without a block.
\<close>

fun body_matches :: "'p::ab_group_add backend \<Rightarrow> u32 \<Rightarrow> hash256 \<Rightarrow> block_header \<Rightarrow> block option \<Rightarrow> bytes \<Rightarrow> bool" where
  "body_matches B m k h (Some b) body \<longleftrightarrow>
    block_ok B b \<and> header b = h \<and> body = enc_block b \<and> length body < USIZE_LIMIT \<and> (\<exists>ctx. block_valid B ctx m b)
    \<and> k = compute_block_hash B (enc_header h) \<and> \<not> (m = NETWORK_MAGIC_MAINNET \<and> hgt h = 0)"
| "body_matches B m k h None body \<longleftrightarrow>
    m = NETWORK_MAGIC_MAINNET \<and> hgt h = 0 \<and> prev_hash h = Hash256_ZERO \<and> is_ok (validate_mainnet_genesis_identity B body)"

fun stored :: "'p::ab_group_add backend \<Rightarrow> u32 \<Rightarrow> dom_store \<Rightarrow> chain_entry \<Rightarrow> bool" where
  "stored B m s (k, h, ob) \<longleftrightarrow>
    fmlookup (db_blocks s) (as_bytes k) = Some (enc_header h) \<and> header_ok h \<and> hash256_ok k
    \<and> (\<exists>body. fmlookup (db_block_bodies s) (as_bytes k) = Some body \<and> body_matches B m k h ob body)"

declare stored.simps [simp del]

definition store_ok :: "'p::ab_group_add backend \<Rightarrow> u32 \<Rightarrow> dom_store \<Rightarrow> bool" where
  "store_ok B m s \<longleftrightarrow>
    (\<forall>k bs. fmlookup (db_blocks s) k = Some bs \<longrightarrow> (\<exists>h ob. stored B m s (Hash256 k, h, ob)))
    \<and> (\<forall>k h ob. stored B m s (k, h, ob) \<and> 0 < hgt h \<longrightarrow>
        (\<exists>h' ob'. stored B m s (prev_hash h, h', ob') \<and> hgt h = Suc (hgt h')))"

lemma store_ok_lookup:
  assumes "store_ok B m s" "fmlookup (db_blocks s) (as_bytes k) = Some bs"
  obtains h ob where "stored B m s (k, h, ob)"
  using assms unfolding store_ok_def by (metis hash256.exhaust_sel)

lemma header_round_trip [simp]: "header_ok h \<Longrightarrow> from_bytes deserialize_header (enc_header h) = Ok h"
  by (simp add: header.from_bytes_iff length_enc_header USIZE_LIMIT_def)

lemma enc_header_inject: "header_ok h \<Longrightarrow> header_ok h' \<Longrightarrow> enc_header h = enc_header h' \<longleftrightarrow> h = h'"
  using header_round_trip by (metis result.inject(1))

lemma header_syntax_link:
  "validate_header_syntax h m = Ok () \<Longrightarrow> prev_hash h = Hash256_ZERO \<longleftrightarrow> hgt h = 0"
  by (auto simp: validate_header_syntax_def classify_header_link_def unat_eq_0 split: if_splits)

lemma stored_link:
  assumes "stored B m s (k, h, ob)"
  shows "prev_hash h = Hash256_ZERO \<longleftrightarrow> hgt h = 0"
proof (cases ob)
  case (Some b)
  then obtain ctx where "block_valid B ctx m b" "header b = h" using assms by (auto simp: stored.simps)
  then show ?thesis using header_syntax_link [of h m] by (auto simp: block_valid_def)
qed (use assms in \<open>auto simp: stored.simps\<close>)

lemma stored_unique:
  assumes "stored B m s (k, h, ob)" "stored B m s (k, h', ob')"
  shows "h' = h \<and> ob' = ob"
proof -
  have h: "h' = h" using assms enc_header_inject by (auto simp: stored.simps)
  obtain body where body: "body_matches B m k h ob body" "body_matches B m k h ob' body"
    using assms h by (auto simp: stored.simps)
  have "ob' = ob"
  proof (cases ob; cases ob')
    fix b b' assume *: "ob = Some b" "ob' = Some b'"
    then have "enc_block b = enc_block b'" "block_ok B b" "block_ok B b'" "length (enc_block b) < USIZE_LIMIT"
      using body by auto
    then show ?thesis using blk.from_bytes_iff [of "enc_block b" B] * by (metis result.inject(1))
  qed (use body in auto)
  with h show ?thesis by simp
qed

lemma stored_header_stored: "stored B m s (k, h, ob) \<Longrightarrow> stored_header s k e = Ok h"
  by (simp add: stored.simps stored_header_def get_block_header_def)

lemma stored_header_missing:
  assumes "store_ok B m s" "\<nexists>h ob. stored B m s (k, h, ob)"
  shows "stored_header s k e = Err e"
proof -
  have "fmlookup (db_blocks s) (as_bytes k) = None"
    using assms store_ok_lookup by (metis not_Some_eq)
  then show ?thesis by (simp add: stored_header_def get_block_header_def)
qed

lemma stored_header_Ok:
  assumes "store_ok B m s"
  shows "stored_header s k e = Ok h \<longleftrightarrow> (\<exists>ob. stored B m s (k, h, ob))"
  using stored_header_missing [OF assms, of k e] stored_header_stored [of B m s k _ _ e] by (metis result.distinct(1) result.inject(1))

lemma stored_header_total:
  assumes "store_ok B m s"
  shows "(\<exists>h ob. stored_header s k e = Ok h \<and> stored B m s (k, h, ob)) \<or> stored_header s k e = Err e"
  using stored_header_missing [OF assms] stored_header_Ok [OF assms] by blast

lemma stored_parent:
  assumes "store_ok B m s" "stored B m s (k, h, ob)" "0 < hgt h"
  obtains h' ob' where "stored B m s (prev_hash h, h', ob')" "hgt h = Suc (hgt h')"
  using assms unfolding store_ok_def by blast

section \<open>Branches and the canonical chain\<close>

text \<open>
  \<^verbatim>\<open>branch k es a\<close>: following parents from k passes the entries es and arrives at a.  The all-zero
  hash, which the header of a genesis block names as its parent, ends every walk.
\<close>

inductive branch :: "'p::ab_group_add backend \<Rightarrow> u32 \<Rightarrow> dom_store \<Rightarrow> hash256 \<Rightarrow> chain_entry list \<Rightarrow> hash256 \<Rightarrow> bool"
  for B m s where
  branch_Nil: "branch B m s a [] a"
| branch_Cons: "stored B m s (k, h, ob) \<Longrightarrow> k \<noteq> Hash256_ZERO \<Longrightarrow> branch B m s (prev_hash h) es a \<Longrightarrow> branch B m s k ((k, h, ob) # es) a"

inductive_simps branch_Nil_iff: "branch B m s k [] a"
inductive_simps branch_Cons_iff: "branch B m s k (e # es) a"
inductive_cases branch_ConsE: "branch B m s k (e # es) a"

lemma branch_append:
  "branch B m s k es a \<Longrightarrow> branch B m s a fs c \<Longrightarrow> branch B m s k (es @ fs) c"
  by (induction rule: branch.induct) (auto intro: branch.intros)

lemma branch_stored: "branch B m s k es a \<Longrightarrow> e \<in> set es \<Longrightarrow> stored B m s e"
  by (induction rule: branch.induct) auto

lemma branch_heights:
  assumes "branch B m s k es a" "stored B m s (a, ha, oa)" "store_ok B m s" "a \<noteq> Hash256_ZERO"
  shows "i < length es \<Longrightarrow> hgt (fst (snd (es ! i))) + i = hgt ha + length es"
    and "es \<noteq> [] \<Longrightarrow> stored B m s (k, fst (snd (hd es)), snd (snd (hd es)))"
proof -
  have "(\<forall>i < length es. hgt (fst (snd (es ! i))) + i = hgt ha + length es)
    \<and> (\<exists>h ob. stored B m s (k, h, ob) \<and> hgt h = hgt ha + length es)"
    using assms
  proof (induction rule: branch.induct)
    case (branch_Nil a)
    then show ?case by auto
  next
    case (branch_Cons k h ob es a)
    then have IH: "\<forall>i < length es. hgt (fst (snd (es ! i))) + i = hgt ha + length es"
      and ex: "\<exists>h' ob'. stored B m s (prev_hash h, h', ob') \<and> hgt h' = hgt ha + length es" by auto
    then obtain h' ob' where h': "stored B m s (prev_hash h, h', ob')" "hgt h' = hgt ha + length es" by blast
    have "hgt h = Suc (hgt h')"
    proof (cases "hgt h = 0")
      case True
      then have "prev_hash h = Hash256_ZERO" using stored_link [OF branch_Cons.hyps(1)] by simp
      then show ?thesis
        using branch_Cons.hyps(3) branch_Cons.prems(3) by (cases es) (auto simp: branch_Nil_iff branch_Cons_iff)
    next
      case False
      then obtain h2 ob2 where "stored B m s (prev_hash h, h2, ob2)" "hgt h = Suc (hgt h2)"
        using stored_parent [OF branch_Cons.prems(2) branch_Cons.hyps(1)] by blast
      then show ?thesis using stored_unique [OF h'(1)] by auto
    qed
    then show ?case using IH h'(2) branch_Cons.hyps(1)
      by (auto simp: nth_Cons less_Suc_eq_0_disj split: nat.splits)
  qed
  then show "i < length es \<Longrightarrow> hgt (fst (snd (es ! i))) + i = hgt ha + length es" by blast
  show "es \<noteq> [] \<Longrightarrow> stored B m s (k, fst (snd (hd es)), snd (snd (hd es)))"
    using assms(1) by cases auto
qed

definition canonical :: "'p::ab_group_add backend \<Rightarrow> u32 \<Rightarrow> dom_store \<Rightarrow> chain_entry list \<Rightarrow> bool" where
  "canonical B m s ch \<longleftrightarrow>
    (\<forall>i < length ch. stored B m s (ch ! i) \<and> hgt (fst (snd (ch ! i))) = i
      \<and> fmlookup (db_height s) (u64_to_le (of_nat i)) = Some (as_bytes (fst (ch ! i))))
    \<and> (\<forall>i. Suc i < length ch \<longrightarrow> prev_hash (fst (snd (ch ! Suc i))) = fst (ch ! i))
    \<and> (\<forall>h :: u64. length ch \<le> unat h \<longrightarrow> fmlookup (db_height s) (u64_to_le h) = None)
    \<and> (\<forall>k h ob. stored B m s (k, h, ob) \<and> hgt h = 0 \<longrightarrow> ch \<noteq> [] \<and> k = fst (ch ! 0))"

lemma canonicalI:
  assumes "\<And>i. i < length ch \<Longrightarrow> stored B m s (ch ! i)" "\<And>i. i < length ch \<Longrightarrow> hgt (fst (snd (ch ! i))) = i"
    and "\<And>i. i < length ch \<Longrightarrow> fmlookup (db_height s) (u64_to_le (of_nat i)) = Some (as_bytes (fst (ch ! i)))"
    and "\<And>i. Suc i < length ch \<Longrightarrow> prev_hash (fst (snd (ch ! Suc i))) = fst (ch ! i)"
    and "\<And>h :: u64. length ch \<le> unat h \<Longrightarrow> fmlookup (db_height s) (u64_to_le h) = None"
    and "\<And>k h ob. stored B m s (k, h, ob) \<Longrightarrow> hgt h = 0 \<Longrightarrow> ch \<noteq> [] \<and> k = fst (ch ! 0)"
  shows "canonical B m s ch"
  using assms unfolding canonical_def by blast

lemma canonicalD:
  assumes "canonical B m s ch"
  shows "i < length ch \<Longrightarrow> stored B m s (ch ! i)" "i < length ch \<Longrightarrow> hgt (fst (snd (ch ! i))) = i"
    and "i < length ch \<Longrightarrow> fmlookup (db_height s) (u64_to_le (of_nat i)) = Some (as_bytes (fst (ch ! i)))"
    and "Suc i < length ch \<Longrightarrow> prev_hash (fst (snd (ch ! Suc i))) = fst (ch ! i)"
    and "length ch \<le> unat x \<Longrightarrow> fmlookup (db_height s) (u64_to_le x) = None"
  using assms unfolding canonical_def by blast+

lemma canonical_genesis: "canonical B m s ch \<Longrightarrow> stored B m s (k, h, ob) \<Longrightarrow> hgt h = 0 \<Longrightarrow> ch \<noteq> [] \<and> k = fst (ch ! 0)"
  unfolding canonical_def by blast

lemma canonical_nth:
  assumes "canonical B m s ch" "i < length ch"
  obtains k h ob where "ch ! i = (k, h, ob)" "stored B m s (k, h, ob)" "hgt h = i"
    "0 < i \<Longrightarrow> prev_hash h = fst (ch ! (i - 1))"
proof -
  obtain k h ob where e: "ch ! i = (k, h, ob)" by (metis prod_cases3)
  have "prev_hash h = fst (ch ! (i - 1))" if "0 < i"
    using assms that e by (auto simp: canonical_def dest!: spec [where x = "i - 1"])
  then show ?thesis using assms e that [of k h ob] by (auto simp: canonical_def)
qed

lemma canonical_last: "canonical B m s ch \<Longrightarrow> ch \<noteq> [] \<Longrightarrow> stored B m s (last ch)"
  using canonicalD(1) [of B m s ch "length ch - 1"] by (simp add: last_conv_nth)

lemma canonical_keys_inject:
  assumes "canonical B m s ch" "i < length ch" "j < length ch" "fst (ch ! i) = fst (ch ! j)"
  shows "i = j"
proof -
  obtain k h ob where i: "ch ! i = (k, h, ob)" "stored B m s (k, h, ob)" "hgt h = i"
    using canonical_nth [OF assms(1,2)] by metis
  obtain h' ob' where j: "ch ! j = (k, h', ob')" "stored B m s (k, h', ob')" "hgt h' = j"
    using canonical_nth [OF assms(1,3)] assms(4) i(1) by (metis fst_conv)
  show ?thesis using stored_unique [OF i(2) j(2)] i(3) j(3) by simp
qed

lemma canonical_branch:
  assumes "canonical B m s ch" "j < length ch" "i \<le> j" "fst (ch ! j) \<noteq> Hash256_ZERO"
  shows "branch B m s (fst (ch ! j)) (rev (drop (Suc i) (take (Suc j) ch))) (fst (ch ! i))"
  using assms(2-4)
proof (induction j)
  case 0
  then show ?case by (simp add: branch_Nil)
next
  case (Suc j)
  show ?case
  proof (cases "i = Suc j")
    case False
    obtain k h ob where e: "ch ! Suc j = (k, h, ob)" "stored B m s (k, h, ob)" "prev_hash h = fst (ch ! j)"
      using canonical_nth [OF assms(1) Suc.prems(1)] by (metis diff_Suc_1 zero_less_Suc)
    have "take (Suc (Suc j)) ch = take (Suc j) ch @ [ch ! Suc j]"
      using Suc.prems(1) by (rule take_Suc_conv_app_nth)
    moreover have "Suc i \<le> length (take (Suc j) ch)" using Suc.prems False by simp
    ultimately have "drop (Suc i) (take (Suc (Suc j)) ch) = drop (Suc i) (take (Suc j) ch) @ [ch ! Suc j]"
      by (simp del: take_Suc_Cons)
    moreover have "0 < hgt h" using e(1) Suc.prems(1) assms(1) by (auto simp: canonical_def)
    then have "fst (ch ! j) \<noteq> Hash256_ZERO" using stored_link [OF e(2)] e(3) by auto
    then have "branch B m s (fst (ch ! j)) (rev (drop (Suc i) (take (Suc j) ch))) (fst (ch ! i))"
      using Suc.IH Suc.prems False by simp
    ultimately show ?thesis using Suc.prems(3) e by (simp add: branch.branch_Cons)
  qed (simp add: branch_Nil)
qed

lemma canonical_nonzero:
  assumes "canonical B m s ch" "Suc i < length ch"
  shows "fst (ch ! i) \<noteq> Hash256_ZERO"
proof -
  obtain k h ob where "ch ! Suc i = (k, h, ob)" "stored B m s (k, h, ob)" "hgt h = Suc i" "prev_hash h = fst (ch ! i)"
    using canonical_nth [OF assms] by (metis diff_Suc_1 zero_less_Suc)
  then show ?thesis using stored_link by fastforce
qed

lemma canonical_of_height:
  assumes "canonical B m s ch" "i < length ch"
  shows "get_hash_at_height s (of_nat i) = Ok (Some (as_bytes (fst (ch ! i))))"
proof -
  obtain k h ob where "ch ! i = (k, h, ob)" "stored B m s (k, h, ob)" using canonical_nth [OF assms] by metis
  then have "length (as_bytes (fst (ch ! i))) = 32" by (simp add: stored.simps hash256_ok_def)
  then show ?thesis using assms by (simp add: canonical_def get_hash_at_height_def hash_value_def)
qed

lemma canonical_length: "canonical B m s ch \<Longrightarrow> length ch \<le> 2 ^ 64"
proof (rule ccontr)
  assume *: "canonical B m s ch" "\<not> length ch \<le> 2 ^ 64"
  then obtain k h ob where "hgt h = 2 ^ 64" using canonical_nth [OF *(1), of "2 ^ 64"] by (metis not_le)
  then show False using unat_less_pow [of "height_val (height h)"] by simp
qed

section \<open>Walks over stored headers\<close>

lemma stored_lookup:
  assumes "stored B m s (k, h, ob)"
  shows "get_block_header s (as_bytes k) = Ok (Some (enc_header h))" "header_ok h" "hash256_ok k"
  using assms by (simp_all add: stored.simps get_block_header_def)

lemma stored_block:
  assumes "stored B m s (k, h, Some b)"
  shows "get_block_body s (as_bytes k) = Ok (Some (enc_block b))"
    and "from_bytes (deserialize_block B) (enc_block b) = Ok b" "block_ok B b" "header b = h"
    and "k = compute_block_hash B (enc_header h)" "\<exists>ctx. block_valid B ctx m b" "body_distinct b"
  using assms by (auto simp: stored.simps get_block_body_def blk.from_bytes_iff intro: block_valid_distinct)

lemma stored_above_genesis:
  assumes "stored B m s (k, h, ob)" "0 < hgt h"
  obtains b where "ob = Some b"
  using assms by (cases ob) (auto simp: stored.simps)

lemma our_walk_canonical:
  assumes "canonical B m s ch" "j < length ch" "our_walk s n (fst (ch ! j)) S0 = Ok S"
  shows "S \<subseteq> S0 \<union> {Hash256_ZERO} \<union> {fst (ch ! i) | i. i \<le> j \<and> j < i + n}"
  using assms(2,3)
proof (induction n arbitrary: j S0)
  case (Suc n)
  obtain k h ob where e: "ch ! j = (k, h, ob)" "stored B m s (k, h, ob)" "hgt h = j"
      "0 < j \<Longrightarrow> prev_hash h = fst (ch ! (j - 1))"
    using canonical_nth [OF assms(1) Suc.prems(1)] by metis
  have cur: "fst (ch ! j) \<in> {fst (ch ! i) | i. i \<le> j \<and> j < i + Suc n}" by auto
  show ?case
  proof (cases "k = Hash256_ZERO \<or> prev_hash h = Hash256_ZERO")
    case True
    then have "S = insert k S0 \<or> S = insert Hash256_ZERO (insert k S0)"
      using Suc.prems(2) e(1) stored_header_stored [OF e(2), of "Internal ''missing header during ancestor walk''"]
      by (auto simp: Let_def split: if_splits)
    then show ?thesis using cur e(1) by auto
  next
    case False
    then have j: "0 < j" using stored_link [OF e(2)] e(3) by auto
    have "our_walk s n (fst (ch ! (j - 1))) (insert k S0) = Ok S"
      using Suc.prems(2) False e j stored_header_stored [OF e(2)] by (simp add: Let_def)
    then have "S \<subseteq> insert k S0 \<union> {Hash256_ZERO} \<union> {fst (ch ! i) | i. i \<le> j - 1 \<and> j - 1 < i + n}"
      using Suc.IH [of "j - 1" "insert k S0"] Suc.prems(1) by simp
    moreover have "{fst (ch ! i) | i. i \<le> j - 1 \<and> j - 1 < i + n} \<subseteq> {fst (ch ! i) | i. i \<le> j \<and> j < i + Suc n}"
      using j by fastforce
    moreover have "k \<in> {fst (ch ! i) | i. i \<le> j \<and> j < i + Suc n}" using cur e(1) by simp
    ultimately show ?thesis by blast
  qed
qed auto

lemma their_walk_branch:
  assumes "store_ok B m s" "their_walk s S n k = Ok (Some a)"
  shows "a \<in> S \<and> (\<exists>es. branch B m s k es a \<and> length es < n \<and> (\<forall>e \<in> set es. fst e \<notin> S))"
  using assms(2)
proof (induction n arbitrary: k)
  case (Suc n)
  show ?case
  proof (cases "k \<in> S")
    case True
    then show ?thesis using Suc.prems by (auto intro!: exI [of _ "[]"] branch_Nil)
  next
    case False
    then have k: "k \<noteq> Hash256_ZERO" using Suc.prems by (auto split: if_splits)
    obtain bs where "fmlookup (db_blocks s) (as_bytes k) = Some bs"
      using Suc.prems False k by (auto simp: get_block_header_def split: option.splits)
    then obtain h ob where st: "stored B m s (k, h, ob)" using store_ok_lookup [OF assms(1)] by metis
    then have "their_walk s S n (prev_hash h) = Ok (Some a)"
      using Suc.prems False k by (simp add: stored_lookup [OF st])
    then obtain es where "a \<in> S" "branch B m s (prev_hash h) es a" "length es < n" "\<forall>e \<in> set es. fst e \<notin> S"
      using Suc.IH by blast
    then show ?thesis using branch_Cons [OF st k] False by (auto intro!: exI [of _ "(k, h, ob) # es"])
  qed
qed simp

lemma find_common_ancestor_Some:
  assumes ok: "store_ok B m s" "canonical B m s ch" "ch \<noteq> []"
    and found: "find_common_ancestor s (fst (last ch)) t = Ok (Some a)" "a \<noteq> Hash256_ZERO"
  obtains i es where "i < length ch" "a = fst (ch ! i)" "branch B m s t es a" "length es \<le> 1000"
    "length ch \<le> i + 1001" "\<forall>e \<in> set es. fst e \<noteq> a"
proof (cases "fst (last ch) = t")
  case True
  then have "a = t" using found by (simp add: find_common_ancestor_def)
  then show ?thesis using that [of "length ch - 1" "[]"] True ok(3) by (simp add: last_conv_nth branch_Nil)
next
  case False
  let ?j = "length ch - 1"
  have tip: "fst (last ch) = fst (ch ! ?j)" "?j < length ch" using ok(3) by (simp_all add: last_conv_nth)
  obtain S where S: "our_walk s (Suc 1000) (fst (ch ! ?j)) {} = Ok S" "their_walk s S (Suc 1000) t = Ok (Some a)"
    using found(1) False tip(1)
    by (auto simp: find_common_ancestor_def Let_def dom_consts simp del: our_walk.simps their_walk.simps)
  have sub: "S \<subseteq> {Hash256_ZERO} \<union> {fst (ch ! i) | i. i \<le> ?j \<and> ?j < i + Suc 1000}"
    using our_walk_canonical [OF ok(2) tip(2) S(1)] by simp
  obtain es where es: "a \<in> S" "branch B m s t es a" "length es < Suc 1000" "\<forall>e \<in> set es. fst e \<notin> S"
    using their_walk_branch [OF ok(1) S(2)] by blast
  obtain i where i: "a = fst (ch ! i)" "i \<le> ?j" "?j < i + Suc 1000" using sub es(1) found(2) by auto
  have "\<forall>e \<in> set es. fst e \<noteq> a" using es(1,4) by auto
  moreover have "length es \<le> 1000" "length ch \<le> i + 1001" "i < length ch" using es(3) i tip(2) by simp_all
  ultimately show ?thesis using that [of i es] i(1) es(2) by simp
qed

lemma branch_syntax_valid:
  assumes "branch B m s k es a" "\<forall>e \<in> set es. fst e \<noteq> a" "\<forall>e \<in> set es. snd (snd e) \<noteq> None" "length es \<le> fuel"
  shows "validate_branch_header_syntax s m a fuel k = Ok ()"
  using assms
proof (induction arbitrary: fuel rule: branch.induct)
  case (branch_Nil a)
  then show ?case by (simp add: validate_branch_header_syntax.simps)
next
  case (branch_Cons k h ob es a)
  then obtain b n where b: "ob = Some b" and n: "fuel = Suc n" by (cases fuel) auto
  then obtain ctx where "block_valid B ctx m b" using stored_block(6) branch_Cons.hyps(1) by blast
  then have "validate_header_syntax h m = Ok ()"
    using stored_block(4) [of B m s k h b] branch_Cons.hyps(1) b by (auto simp: block_valid_def)
  then show ?case
    using branch_Cons n by (subst validate_branch_header_syntax.simps)
      (simp add: stored_header_stored [OF branch_Cons.hyps(1)])
qed

lemma branch_collect:
  assumes "branch B m s k es a" "\<forall>e \<in> set es. fst e \<noteq> a" "\<forall>e \<in> set es. snd (snd e) \<noteq> None" "length es \<le> fuel"
  shows "collect_branch_blocks B s a fuel k = Ok (map (\<lambda>(k, h, ob). (k, the ob)) es)"
  using assms
proof (induction arbitrary: fuel rule: branch.induct)
  case (branch_Nil a)
  then show ?case by (simp add: collect_branch_blocks.simps)
next
  case (branch_Cons k h ob es a)
  then obtain b n where b: "ob = Some b" and n: "fuel = Suc n" by (cases fuel) auto
  note st = stored_block [OF branch_Cons.hyps(1) [unfolded b]]
  have "to_bytes serialize_header (header b) = Ok (enc_header h)"
    using stored_lookup(2) [OF branch_Cons.hyps(1)] st(4) by (simp add: header.to_bytes_enc)
  then show ?case
    using branch_Cons b n by (subst collect_branch_blocks.simps) (simp add: st(1,2,4) st(5) [symmetric])
qed

section \<open>Pruning keeps the canonical chain and every parent\<close>

lemma branch_butlast:
  "branch B m s k es a \<Longrightarrow> es \<noteq> [] \<Longrightarrow>
    branch B m s k (butlast es) (fst (last es)) \<and> prev_hash (fst (snd (last es))) = a"
  by (induction rule: branch.induct) (auto simp: branch_Nil_iff intro: branch.intros)

lemma common_ancestor_canonical:
  assumes ok: "store_ok B m s" "canonical B m s ch" "ch \<noteq> []"
    and found: "find_common_ancestor s (fst (last ch)) t = Ok (Some a)" "a \<noteq> t"
  obtains i es where "i < length ch" "branch B m s t es (fst (ch ! i))" "length es \<le> 1000"
proof (cases "a = Hash256_ZERO")
  case False
  then show ?thesis using find_common_ancestor_Some [OF ok found(1)] that by metis
next
  case True
  let ?j = "length ch - 1"
  have tip: "fst (last ch) = fst (ch ! ?j)" "?j < length ch" using ok(3) by (simp_all add: last_conv_nth)
  have "fst (last ch) \<noteq> t" using found by (auto simp: find_common_ancestor_def)
  then obtain S where "their_walk s S (Suc 1000) t = Ok (Some a)"
    using found(1) by (auto simp: find_common_ancestor_def Let_def dom_consts simp del: our_walk.simps their_walk.simps)
  then obtain es where es: "branch B m s t es a" "length es < Suc 1000" using their_walk_branch [OF ok(1)] by blast
  have ne: "es \<noteq> []" using es(1) found(2) by (auto simp: branch_Nil_iff)
  obtain k h ob where l: "last es = (k, h, ob)" by (metis prod_cases3)
  have "stored B m s (k, h, ob)" using branch_stored [OF es(1), of "last es"] last_in_set [OF ne] l by simp
  moreover have "hgt h = 0" using branch_butlast [OF es(1) ne] stored_link [OF calculation] True l by simp
  ultimately have "k = fst (ch ! 0)" using canonical_genesis [OF ok(2)] by blast
  then show ?thesis
    using that [of 0 "butlast es"] branch_butlast [OF es(1) ne] es(2) ok(3) l by simp
qed

definition closed_upto :: "'p::ab_group_add backend \<Rightarrow> u32 \<Rightarrow> dom_store \<Rightarrow> bytes set \<Rightarrow> hash256 set \<Rightarrow> bool" where
  "closed_upto B m s X C \<longleftrightarrow>
    (\<forall>k h ob. stored B m s (k, h, ob) \<and> as_bytes k \<in> X \<and> 0 < hgt h \<longrightarrow> as_bytes (prev_hash h) \<in> X \<or> prev_hash h \<in> C)
    \<and> (\<forall>k h ob. stored B m s (k, h, ob) \<and> hgt h = 0 \<longrightarrow> as_bytes k \<in> X)"

lemma closed_upto_mono: "closed_upto B m s X C \<Longrightarrow> C \<subseteq> D \<Longrightarrow> closed_upto B m s X D"
  unfolding closed_upto_def by blast

definition cached_headers :: "dom_store \<Rightarrow> (bytes \<times> bytes) list \<Rightarrow> bool" where
  "cached_headers s headers \<longleftrightarrow> (\<forall>k. map_of headers k = fmlookup (db_blocks s) k)"

lemma load_retention_stored:
  "cached_headers s headers \<Longrightarrow> stored B m s (k, h, ob) \<Longrightarrow> load_retention_header s headers (as_bytes k) = Ok (Some h)"
  by (simp add: load_retention_header_def cached_headers_def stored.simps)

lemma keep_walk_closed:
  assumes "branch B m s t es a" "as_bytes a \<in> X" "length es \<le> n" "closed_upto B m s X {t}"
    and "cached_headers s headers" "keep_walk s headers n t X = Ok Y"
  shows "X \<subseteq> Y \<and> closed_upto B m s Y {}"
  using assms
proof (induction arbitrary: n X rule: branch.induct)
  case (branch_Nil a)
  then have "Y = X" by (simp add: keep_walk.simps)
  then show ?case using branch_Nil by (auto simp: closed_upto_def)
next
  case (branch_Cons k h ob es a)
  show ?case
  proof (cases "as_bytes k \<in> X")
    case True
    then have "Y = X" using branch_Cons.prems(5) by (simp add: keep_walk.simps)
    then show ?thesis using branch_Cons.prems True by (auto simp: closed_upto_def)
  next
    case False
    obtain n' where n: "n = Suc n'" using branch_Cons.prems(2) by (cases n) auto
    have "0 < hgt h" using False branch_Cons.hyps(1) branch_Cons.prems(3) unfolding closed_upto_def by (metis gr0I)
    then have "prev_hash h \<noteq> Hash256_ZERO" using stored_link [OF branch_Cons.hyps(1)] by simp
    then have walk: "keep_walk s headers n' (prev_hash h) (insert (as_bytes k) X) = Ok Y"
      using branch_Cons.prems(5) False n load_retention_stored [OF branch_Cons.prems(4) branch_Cons.hyps(1)]
      by (subst (asm) keep_walk.simps) simp
    have "closed_upto B m s (insert (as_bytes k) X) {prev_hash h}"
      using branch_Cons.prems(3) stored_unique [OF branch_Cons.hyps(1)] unfolding closed_upto_def
      by (metis hash256.expand insertCI insertE singletonD)
    then show ?thesis
      using branch_Cons.IH [OF _ _ _ branch_Cons.prems(4) walk] branch_Cons.prems(1,2) n by auto
  qed
qed

lemma canonical_hashes_loop_set:
  "canonical_hashes_loop s out hs = Ok C \<Longrightarrow> C = out \<union> {x. \<exists>h \<in> set hs. get_hash_at_height s h = Ok (Some x)}"
proof (induction hs arbitrary: out)
  case (Cons h hs)
  then obtain found where f: "get_hash_at_height s h = Ok found"
      "canonical_hashes_loop s (case found of Some hash \<Rightarrow> insert hash out | None \<Rightarrow> out) hs = Ok C" by auto
  show ?case using Cons.IH [OF f(2)] f(1) by (cases found) auto
qed simp

lemma heights_upto_last: "n < 2 ^ 64 \<Longrightarrow> heights_upto (of_nat n) = map of_nat [0 ..< Suc n]"
  by (simp add: heights_upto_def unat_of_nat del: upt_Suc)

lemma canonical_hashes_set:
  assumes "canonical B m s ch" "ch \<noteq> []" "canonical_hashes s (BlockHeight (of_nat (length ch - 1))) = Ok C"
  shows "C = as_bytes ` fst ` set ch"
proof -
  have "length ch - 1 < 2 ^ 64" using canonical_length [OF assms(1)] assms(2) by (cases ch) auto
  then have hs: "heights_upto (of_nat (length ch - 1)) = map of_nat [0 ..< length ch]"
    using assms(2) by (simp add: heights_upto_last del: upt_Suc)
  have "canonical_hashes_loop s {} (map of_nat [0 ..< length ch]) = Ok C"
    using assms(3) unfolding canonical_hashes_def block_height.sel hs .
  then have "C = {x. \<exists>h \<in> set (map of_nat [0 ..< length ch]). get_hash_at_height s h = Ok (Some x)}"
    using canonical_hashes_loop_set [of s "{}" "map of_nat [0 ..< length ch]" C] by simp
  also have "\<dots> = {x. \<exists>i < length ch. get_hash_at_height s (of_nat i) = Ok (Some x)}"
    by (auto simp: Bex_def)
  finally have "C = {x. \<exists>i < length ch. get_hash_at_height s (of_nat i) = Ok (Some x)}" .
  also have "\<dots> = {as_bytes (fst (ch ! i)) | i. i < length ch}"
    using canonical_of_height [OF assms(1)] by auto
  also have "\<dots> = as_bytes ` fst ` set ch" by (auto simp: set_conv_nth)
  finally show ?thesis .
qed

lemma canonical_closed:
  assumes "canonical B m s ch"
  shows "closed_upto B m s (as_bytes ` fst ` set ch) {}"
  unfolding closed_upto_def
proof (intro conjI allI impI)
  fix k h ob assume *: "stored B m s (k, h, ob) \<and> as_bytes k \<in> as_bytes ` fst ` set ch \<and> 0 < hgt h"
  then obtain i where i: "i < length ch" "k = fst (ch ! i)" by (auto simp: set_conv_nth hash256.expand)
  obtain h' ob' where e: "ch ! i = (k, h', ob')" "stored B m s (k, h', ob')" "hgt h' = i"
      "0 < i \<Longrightarrow> prev_hash h' = fst (ch ! (i - 1))"
    using canonical_nth [OF assms i(1)] i(2) by (metis fst_conv)
  then have "h = h'" using stored_unique * by blast
  then show "as_bytes (prev_hash h) \<in> as_bytes ` fst ` set ch \<or> prev_hash h \<in> {}"
    using e * i(1) by auto
next
  fix k h ob assume "stored B m s (k, h, ob) \<and> hgt h = 0"
  then show "as_bytes k \<in> as_bytes ` fst ` set ch"
    using canonical_genesis [OF assms] by fastforce
qed

lemma candidate_tip_Some:
  assumes "candidate_tip s headers th tk cp (hash, h) = Ok (Some t)"
  shows "rt_hash t = hash \<and> (\<exists>a. find_common_ancestor s (Hash256 tk) (Hash256 hash) = Ok (Some a) \<and> a \<noteq> Hash256 hash)"
proof -
  obtain found where f: "find_common_ancestor s (Hash256 tk) (Hash256 hash) = Ok found"
    using assms by (auto simp: candidate_tip_def split: if_splits)
  then obtain a where a: "found = Some a" "a \<noteq> Hash256 hash"
    using assms by (cases found) (auto simp: candidate_tip_def split: if_splits)
  then show ?thesis using assms f
    by (auto simp: candidate_tip_def Let_def split: if_splits option.splits)
qed

lemma insert_by_set: "set (insert_by c x xs) = insert x (set xs)"
  by (induction xs) auto

lemma sort_by_set: "set (sort_by c xs) = set xs"
  by (induction xs) (auto simp: sort_by_def insert_by_set)

lemma keep_fold_closed:
  assumes "\<forall>t \<in> set ts. \<exists>i es. i < length ch \<and> branch B m s (Hash256 (rt_hash t)) es (fst (ch ! i)) \<and> length es \<le> 1000"
    and "cached_headers s headers" "closed_upto B m s X {}" "as_bytes ` fst ` set ch \<subseteq> X"
    and "try_fold (\<lambda>keep t. keep_walk s headers 1000 (Hash256 (rt_hash t)) keep) X ts = Ok Y"
  shows "X \<subseteq> Y \<and> closed_upto B m s Y {}"
  using assms
proof (induction ts arbitrary: X)
  case (Cons t ts)
  obtain Z where Z: "keep_walk s headers 1000 (Hash256 (rt_hash t)) X = Ok Z"
      "try_fold (\<lambda>keep t. keep_walk s headers 1000 (Hash256 (rt_hash t)) keep) Z ts = Ok Y"
    using Cons.prems(5) by auto
  obtain i es where b: "i < length ch" "branch B m s (Hash256 (rt_hash t)) es (fst (ch ! i))" "length es \<le> 1000"
    using Cons.prems(1) by auto
  have "as_bytes (fst (ch ! i)) \<in> X" using Cons.prems(4) b(1) by auto
  then have Z': "X \<subseteq> Z \<and> closed_upto B m s Z {}"
    using keep_walk_closed [OF b(2) _ b(3) _ Cons.prems(2) Z(1)] closed_upto_mono [OF Cons.prems(3)] by simp
  moreover have "as_bytes ` fst ` set ch \<subseteq> Z" using Z' Cons.prems(4) by blast
  ultimately have "Z \<subseteq> Y \<and> closed_upto B m s Y {}"
    using Cons.IH [OF _ Cons.prems(2) _ _ Z(2)] Cons.prems(1) by simp
  then show ?case using Z' by blast
qed simp

definition kept :: "bytes set \<Rightarrow> dom_store \<Rightarrow> dom_store \<Rightarrow> bool" where
  "kept K s s' \<longleftrightarrow>
    (\<forall>k. fmlookup (db_blocks s') k = (if k \<in> K then fmlookup (db_blocks s) k else None))
    \<and> (\<forall>k. fmlookup (db_block_bodies s') k = (if k \<in> K then fmlookup (db_block_bodies s) k else None))
    \<and> s' = s\<lparr>db_blocks := db_blocks s', db_block_bodies := db_block_bodies s'\<rparr>"

lemma read_all_headers: "read_all_block_headers_raw s = Ok headers \<Longrightarrow> headers = fm_entries (db_blocks s)"
proof -
  assume "read_all_block_headers_raw s = Ok headers"
  then have "list_all2 (=) (fm_entries (db_blocks s)) headers"
    unfolding read_all_block_headers_raw_def try_map_eq_Ok
    by (rule list_all2_mono) (auto split: if_splits)
  then show ?thesis by (simp add: list.rel_eq)
qed

lemma prune_known_kept:
  assumes "prune_known_blocks io s ks = Ok s'"
  shows "kept (- set ks) s s'"
  using assms
  by (auto simp: prune_known_blocks_def commit_txn_def kept_def foldl_fmdrop split: if_splits option.splits)

lemma list_all2_fst: "list_all2 (\<lambda>x y. fst x = fst y) xs ys \<Longrightarrow> map fst ys = map fst xs"
  by (induction rule: list_all2_induct) auto

lemma retained_tip_branch:
  assumes ok: "store_ok B m s" "canonical B m s ch" "ch \<noteq> []"
    and tips: "try_map (candidate_tip s H th (as_bytes (fst (last ch))) cp) nc = Ok tips"
    and t: "t \<in> set (take n (sort_by c (List.map_filter id tips)))"
  shows "\<exists>i es. i < length ch \<and> branch B m s (Hash256 (rt_hash t)) es (fst (ch ! i)) \<and> length es \<le> 1000"
proof -
  have "t \<in> set (List.map_filter id tips)" using in_set_takeD [OF t] by (simp only: sort_by_set)
  then have "Some t \<in> set tips" by (auto simp: List.map_filter_def)
  then obtain i where i: "i < length tips" "tips ! i = Some t" by (metis in_set_conv_nth)
  obtain hash h where e: "nc ! i = (hash, h)" by fastforce
  have "candidate_tip s H th (as_bytes (fst (last ch))) cp (nc ! i) = Ok (tips ! i)"
    using tips i(1) unfolding try_map_eq_Ok by (simp add: list_all2_conv_all_nth)
  then have "candidate_tip s H th (as_bytes (fst (last ch))) cp (hash, h) = Ok (Some t)"
    by (simp only: i(2) e)
  then obtain a where "rt_hash t = hash" "find_common_ancestor s (fst (last ch)) (Hash256 hash) = Ok (Some a)" "a \<noteq> Hash256 hash"
    using candidate_tip_Some by fastforce
  then show ?thesis using common_ancestor_canonical [OF ok] by metis
qed

lemma prune_keeps:
  assumes ok: "store_ok B m s" "canonical B m s ch" "ch \<noteq> []"
    and p: "prune_retained_side_chains io s (BlockHeight (of_nat (length ch - 1))) (as_bytes (fst (last ch))) = Ok s'"
  obtains K where "kept K s s'" "as_bytes ` fst ` set ch \<subseteq> K" "closed_upto B m s K {}"
proof -
  let ?th = "BlockHeight (of_nat (length ch - 1))" let ?tk = "as_bytes (fst (last ch))"
  let ?H = "fm_entries (db_blocks s)"
  show thesis
  proof (cases "s' = s")
    case False
    obtain H where "read_all_block_headers_raw s = Ok H" using p by (auto simp: prune_retained_side_chains_def)
    then have H: "read_all_block_headers_raw s = Ok ?H" using read_all_headers by metis
    obtain C where C: "canonical_hashes s ?th = Ok C" using p H False by (auto simp: prune_retained_side_chains_def split: if_splits)
    let ?nc = "filter (\<lambda>(hash, _). hash \<notin> C) ?H"
    obtain nc tips where nc: "try_map (\<lambda>(hash, bs). map_ok (Pair hash) (from_bytes deserialize_header bs)) ?nc = Ok nc"
      and tips: "try_map (candidate_tip s ?H ?th ?tk (set (map (\<lambda>(_, h). as_bytes (prev_hash h)) nc))) nc = Ok tips"
      using p H C False by (auto simp: prune_retained_side_chains_def Let_def split: if_splits)
    let ?ts = "take MAX_RETAINED_SIDE_BRANCH_TIPS (sort_by compare_side_tips (List.map_filter id tips))"
    obtain keep where keep: "try_fold (\<lambda>keep t. keep_walk s ?H 1000 (Hash256 (rt_hash t)) keep) C ?ts = Ok keep"
      and prune: "prune_known_blocks io s (filter (\<lambda>hash. hash \<notin> keep) (map fst nc)) = Ok s'"
      using p H C nc tips False by (auto simp: prune_retained_side_chains_def Let_def dom_consts split: if_splits)
    have Ceq: "C = as_bytes ` fst ` set ch" by (rule canonical_hashes_set [OF ok(2,3) C])
    have "\<exists>i es. i < length ch \<and> branch B m s (Hash256 (rt_hash t)) es (fst (ch ! i)) \<and> length es \<le> 1000"
      if "t \<in> set ?ts" for t by (rule retained_tip_branch [OF ok tips that])
    moreover have "cached_headers s ?H" by (simp add: cached_headers_def)
    ultimately have k: "C \<subseteq> keep \<and> closed_upto B m s keep {}"
      using keep_fold_closed [OF _ _ _ _ keep, of ch B m] canonical_closed [OF ok(2)] by (simp add: Ceq)
    have fst_nc: "set (map fst nc) = {x. x \<notin> C \<and> fmlookup (db_blocks s) x \<noteq> None}"
    proof -
      have "list_all2 (\<lambda>x y. fst x = fst y) ?nc nc"
        using nc unfolding try_map_eq_Ok by (rule list_all2_mono) auto
      then have "map fst nc = map fst ?nc" by (rule list_all2_fst)
      then show ?thesis by (auto simp: image_iff)
    qed
    let ?K = "- set (filter (\<lambda>hash. hash \<notin> keep) (map fst nc))"
    have "kept ?K s s'" using prune by (rule prune_known_kept)
    moreover have "as_bytes ` fst ` set ch \<subseteq> ?K" using k Ceq by auto
    moreover have "as_bytes k \<in> ?K \<longleftrightarrow> as_bytes k \<in> keep" if "stored B m s (k, h, ob)" for k h ob
      using that fst_nc k by (auto simp: stored.simps)
    then have "closed_upto B m s ?K {}"
      using k ok(1) unfolding closed_upto_def by (metis stored_parent [OF ok(1)])
    ultimately show thesis using that by blast
  next
    case True
    then show thesis using that [of UNIV] by (simp add: kept_def closed_upto_def)
  qed
qed

end
