(* ===== verification/Chain_Invariant.thy ===== *)
theory Chain_Invariant
  imports Chain_Branch
begin

text \<open>
  The invariant of a chain state and its preservation when a block extends the tip or is
  retained on the side.
\<close>

section \<open>The invariant of a chain state\<close>

definition chain_blocks :: "chain_entry list \<Rightarrow> block list" where
  "chain_blocks ch = concat (map (\<lambda>(_, _, ob). case ob of Some b \<Rightarrow> [b] | None \<Rightarrow> []) ch)"

definition block_kernels :: "block \<Rightarrow> bytes list" where
  "block_kernels b = map commit_bytes (block_excesses b)"

definition chain_kernels :: "chain_entry list \<Rightarrow> bytes list" where
  "chain_kernels ch = concat (map block_kernels (chain_blocks ch))"

definition chain_index :: "chain_entry list \<Rightarrow> (bytes \<times> bytes) list" where
  "chain_index ch = concat (map (\<lambda>(k, _, ob). case ob of Some b \<Rightarrow> extract_kernel_excesses b k | None \<Rightarrow> []) ch)"

text \<open>
  The persisted unspent outputs are those of the abstract ledger run over the canonical
  blocks, and the kernel index holds every kernel of the chain once, with the hash of its block.
\<close>

definition ledger_ok :: "dom_store \<Rightarrow> chain_entry list \<Rightarrow> bool" where
  "ledger_ok s ch \<longleftrightarrow>
    ledger {} (chain_blocks ch) = Some (fmdom' (db_utxos s))
    \<and> (\<forall>c v. fmlookup (db_utxos s) c = Some v \<longrightarrow> (\<exists>e. v = UtxoEntry_to_bytes e))
    \<and> distinct (chain_kernels ch) \<and> fmdom' (db_kernels s) = set (chain_kernels ch)
    \<and> (\<forall>x v. fmlookup (db_kernels s) x = Some v \<longrightarrow> length v = 32 \<and> (x, v) \<in> set (chain_index ch))"

definition tip_ok :: "chain_state \<Rightarrow> chain_entry list \<Rightarrow> bool" where
  "tip_ok cs ch \<longleftrightarrow>
    (if ch = [] then tip_hash cs = Hash256_ZERO \<and> tip_height cs = BlockHeight_GENESIS \<and> tip_difficulty cs = 0
       \<and> db_tip (cs_store cs) = None
     else tip_hash cs = fst (last ch) \<and> tip_height cs = height (fst (snd (last ch)))
       \<and> tip_difficulty cs = total_difficulty (fst (snd (last ch)))
       \<and> db_tip (cs_store cs) = Some (as_bytes (tip_hash cs)))"

definition chain_ok :: "'p::ab_group_add backend \<Rightarrow> chain_state \<Rightarrow> chain_entry list \<Rightarrow> bool" where
  "chain_ok B cs ch \<longleftrightarrow> known_network_magic (magic cs) \<and> store_ok B (magic cs) (cs_store cs)
    \<and> canonical B (magic cs) (cs_store cs) ch \<and> ledger_ok (cs_store cs) ch \<and> tip_ok cs ch"

lemma kernel_keys: "map fst (extract_kernel_excesses b h) = block_kernels b"
  by (simp add: extract_kernel_excesses_def block_kernels_def block_excesses_def map_concat comp_def)

lemma kernel_values: "x \<in> set (extract_kernel_excesses b h) \<Longrightarrow> snd x = as_bytes h"
  by (auto simp: extract_kernel_excesses_def)

lemma chain_blocks_simps [simp]:
  "chain_blocks [] = []" "chain_blocks ((k, h, Some b) # ch) = b # chain_blocks ch"
  "chain_blocks (xs @ ys) = chain_blocks xs @ chain_blocks ys"
  by (simp_all add: chain_blocks_def)

lemma chain_kernels_simps [simp]:
  "chain_kernels [] = []" "chain_kernels ((k, h, Some b) # ch) = block_kernels b @ chain_kernels ch"
  "chain_kernels (xs @ ys) = chain_kernels xs @ chain_kernels ys"
  by (simp_all add: chain_kernels_def)

lemma chain_index_simps [simp]:
  "chain_index [] = []" "chain_index ((k, h, Some b) # ch) = extract_kernel_excesses b k @ chain_index ch"
  "chain_index (xs @ ys) = chain_index xs @ chain_index ys"
  by (simp_all add: chain_index_def)

lemma chain_index_keys: "map fst (chain_index ch) = chain_kernels ch"
proof (induction ch)
  case (Cons e ch)
  obtain k h ob where "e = (k, h, ob)" by (metis prod_cases3)
  then show ?case using Cons by (cases ob) (simp_all add: kernel_keys chain_index_def chain_kernels_def chain_blocks_def)
qed simp

lemma index_exact:
  assumes "ledger_ok s ch"
  shows "fmlookup (db_kernels s) x = Some v \<longleftrightarrow> (x, v) \<in> set (chain_index ch)"
proof
  assume "(x, v) \<in> set (chain_index ch)"
  then have v: "map_of (chain_index ch) x = Some v" "x \<in> set (chain_kernels ch)"
    using assms by (simp_all add: ledger_ok_def flip: chain_index_keys) force+
  then obtain w where w: "fmlookup (db_kernels s) x = Some w"
    using assms unfolding ledger_ok_def by (metis fmlookup_dom'_iff)
  then have "map_of (chain_index ch) x = Some w" using assms by (simp add: ledger_ok_def flip: chain_index_keys)
  then show "fmlookup (db_kernels s) x = Some v" using w v(1) by simp
qed (use assms in \<open>simp add: ledger_ok_def\<close>)

lemma tip_height_nat:
  assumes "canonical B m s ch" "tip_ok cs ch" "ch \<noteq> []"
  shows "tip_height cs = BlockHeight (of_nat (length ch - 1))" "unat (height_val (tip_height cs)) = length ch - 1"
proof -
  obtain k h ob where e: "ch ! (length ch - 1) = (k, h, ob)" "hgt h = length ch - 1"
    using canonical_nth [OF assms(1), of "length ch - 1"] assms(3) by (metis diff_less length_greater_0_conv zero_less_one)
  then have "tip_height cs = height h" using assms(2,3) by (simp add: tip_ok_def last_conv_nth)
  then show "unat (height_val (tip_height cs)) = length ch - 1" using e(2) by simp
  then have "height_val (tip_height cs) = of_nat (length ch - 1)" by (metis of_nat_unat ucast_id)
  then show "tip_height cs = BlockHeight (of_nat (length ch - 1))" by (metis block_height.exhaust_sel)
qed

lemma store_empty:
  assumes "store_ok B m s" "canonical B m s []"
  shows "\<not> stored B m s (k, h, ob)"
proof (induction "hgt h" arbitrary: k h ob)
  case 0
  then show ?case using canonical_genesis [OF assms(2)] by fastforce
next
  case (Suc n)
  then show ?case using stored_parent [OF assms(1)] by (metis Zero_not_Suc gr0I nat.inject)
qed

lemma kept_stored:
  assumes "kept K s s'"
  shows "stored B m s' (k, h, ob) \<longleftrightarrow> stored B m s (k, h, ob) \<and> as_bytes k \<in> K"
  using assms by (auto simp: kept_def stored.simps)

lemma kept_fields:
  assumes "kept K s s'"
  shows "db_height s' = db_height s" "db_utxos s' = db_utxos s" "db_kernels s' = db_kernels s" "db_tip s' = db_tip s"
proof -
  have "s' = s\<lparr>db_blocks := db_blocks s', db_block_bodies := db_block_bodies s'\<rparr>" using assms by (simp add: kept_def)
  then obtain x y where s': "s' = s\<lparr>db_blocks := x, db_block_bodies := y\<rparr>" by blast
  show "db_height s' = db_height s" "db_utxos s' = db_utxos s" "db_kernels s' = db_kernels s" "db_tip s' = db_tip s"
    by (simp_all add: s')
qed

lemma kept_ok:
  assumes "store_ok B m s" "canonical B m s ch" "kept K s s'" "as_bytes ` fst ` set ch \<subseteq> K" "closed_upto B m s K {}"
  shows "store_ok B m s' \<and> canonical B m s' ch"
proof
  show "store_ok B m s'"
    unfolding store_ok_def
  proof (intro conjI allI impI)
    fix k bs assume "fmlookup (db_blocks s') k = Some bs"
    then have "fmlookup (db_blocks s) (as_bytes (Hash256 k)) = Some bs" "k \<in> K"
      using assms(3) by (auto simp: kept_def split: if_splits)
    then show "\<exists>h ob. stored B m s' (Hash256 k, h, ob)"
      using store_ok_lookup [OF assms(1)] kept_stored [OF assms(3)] by (metis hash256.sel)
  next
    fix k h ob assume *: "stored B m s' (k, h, ob) \<and> 0 < hgt h"
    then have st: "stored B m s (k, h, ob)" "as_bytes k \<in> K" by (simp_all add: kept_stored [OF assms(3)])
    then have "as_bytes (prev_hash h) \<in> K" using assms(5) * unfolding closed_upto_def by blast
    then show "\<exists>h' ob'. stored B m s' (prev_hash h, h', ob') \<and> hgt h = Suc (hgt h')"
      using stored_parent [OF assms(1) st(1)] * kept_stored [OF assms(3)] by metis
  qed
  have keys: "as_bytes (fst (ch ! i)) \<in> K" if "i < length ch" for i using assms(4) that by auto
  have st: "stored B m s' (ch ! i)" if "i < length ch" for i
    using assms(2) that keys [OF that] kept_stored [OF assms(3)] by (metis canonical_nth fst_conv)
  show "canonical B m s' ch"
    using assms(2) st kept_stored [OF assms(3)] unfolding canonical_def kept_fields(1) [OF assms(3)] by blast
qed

lemma prune_ok:
  assumes ok: "chain_ok B cs ch" "ch \<noteq> []"
    and p: "prune_retained_side_chains io (cs_store cs) (tip_height cs) (as_bytes (tip_hash cs)) = Ok s'"
  shows "chain_ok B (cs\<lparr>cs_store := s'\<rparr>) ch"
proof -
  note ok' = ok(1) [unfolded chain_ok_def]
  have "tip_height cs = BlockHeight (of_nat (length ch - 1))" using tip_height_nat(1) ok' ok(2) by blast
  moreover have "tip_hash cs = fst (last ch)" using ok' ok(2) by (simp add: tip_ok_def)
  ultimately obtain K where K: "kept K (cs_store cs) s'" "as_bytes ` fst ` set ch \<subseteq> K"
      "closed_upto B (magic cs) (cs_store cs) K {}"
    using prune_keeps [of B "magic cs" "cs_store cs" ch io s'] ok' ok(2) p by metis
  then show ?thesis
    using kept_ok [OF _ _ K] ok' kept_fields [OF K(1)]
    by (auto simp: chain_ok_def ledger_ok_def tip_ok_def)
qed

section \<open>Adding a block\<close>

definition block_arrives :: "'p::ab_group_add backend \<Rightarrow> u32 \<Rightarrow> dom_store \<Rightarrow> hash256 \<Rightarrow> block \<Rightarrow> bool" where
  "block_arrives B m s k b \<longleftrightarrow>
    block_ok B b \<and> length (enc_block b) < USIZE_LIMIT \<and> (\<exists>ctx. block_valid B ctx m b)
    \<and> hash256_ok k \<and> k = compute_block_hash B (enc_header (header b))
    \<and> \<not> (m = NETWORK_MAGIC_MAINNET \<and> hgt (header b) = 0)
    \<and> (0 < hgt (header b) \<longrightarrow>
        (\<exists>h' ob'. stored B m s (prev_hash (header b), h', ob') \<and> hgt (header b) = Suc (hgt h')))"

lemma block_arrives_header: "block_arrives B m s k b \<Longrightarrow> header_ok (header b)"
  by (simp add: block_arrives_def block_ok_def)

lemma stored_add:
  assumes "block_arrives B m s k b" "as_bytes k \<notin> fmdom' (db_blocks s)"
    and "db_blocks s' = fmupd (as_bytes k) (enc_header (header b)) (db_blocks s)"
    and "db_block_bodies s' = fmupd (as_bytes k) (enc_block b) (db_block_bodies s)"
  shows "stored B m s' e \<longleftrightarrow> stored B m s e \<or> e = (k, header b, Some b)"
proof -
  obtain k' h' ob' where e: "e = (k', h', ob')" by (metis prod_cases3)
  have new: "stored B m s' (k, header b, Some b)"
    using assms(1) block_arrives_header [OF assms(1)] by (auto simp: stored.simps assms(3,4) block_arrives_def)
  have old: "\<not> stored B m s (k, h', ob')" using assms(2) by (auto simp: stored.simps fmlookup_dom'_iff)
  show ?thesis
  proof (cases "k' = k")
    case True
    then show ?thesis using new old stored_unique [OF new, of h' ob'] e by auto
  next
    case False
    then have "as_bytes k' \<noteq> as_bytes k" by (metis hash256.expand)
    then show ?thesis using False by (auto simp: e stored.simps assms(3,4))
  qed
qed

lemma store_ok_add:
  assumes "store_ok B m s" "block_arrives B m s k b" "as_bytes k \<notin> fmdom' (db_blocks s)"
    and "db_blocks s' = fmupd (as_bytes k) (enc_header (header b)) (db_blocks s)"
    and "db_block_bodies s' = fmupd (as_bytes k) (enc_block b) (db_block_bodies s)"
  shows "store_ok B m s'"
  unfolding store_ok_def stored_add [OF assms(2-5)]
proof (intro conjI allI impI)
  fix x bs assume *: "fmlookup (db_blocks s') x = Some bs"
  show "\<exists>h ob. stored B m s (Hash256 x, h, ob) \<or> (Hash256 x, h, ob) = (k, header b, Some b)"
  proof (cases "x = as_bytes k")
    case False
    then have "fmlookup (db_blocks s) x = Some bs" using * by (simp add: assms(4))
    then show ?thesis using assms(1) unfolding store_ok_def by blast
  next
    case True
    then have "(Hash256 x, header b, Some b) = (k, header b, Some b)" by simp
    then show ?thesis by blast
  qed
next
  fix x h ob assume *: "(stored B m s (x, h, ob) \<or> (x, h, ob) = (k, header b, Some b)) \<and> 0 < hgt h"
  then show "\<exists>h' ob'. (stored B m s (prev_hash h, h', ob') \<or> (prev_hash h, h', ob') = (k, header b, Some b)) \<and> hgt h = Suc (hgt h')"
    using assms(1,2) unfolding store_ok_def block_arrives_def by blast
qed

lemma canonical_add_side:
  assumes "canonical B m s ch" "block_arrives B m s k b" "as_bytes k \<notin> fmdom' (db_blocks s)" "0 < hgt (header b)"
    and "db_blocks s' = fmupd (as_bytes k) (enc_header (header b)) (db_blocks s)"
    and "db_block_bodies s' = fmupd (as_bytes k) (enc_block b) (db_block_bodies s)"
    and "db_height s' = db_height s"
  shows "canonical B m s' ch"
proof (rule canonicalI)
  note st = stored_add [OF assms(2,3,5,6)]
  show "stored B m s' (ch ! i)" if "i < length ch" for i using canonicalD(1) [OF assms(1) that] st by simp
  show "ch \<noteq> [] \<and> x = fst (ch ! 0)" if "stored B m s' (x, h, ob)" "hgt h = 0" for x h ob
    using that canonical_genesis [OF assms(1)] assms(4) unfolding st by auto
qed (simp_all add: canonicalD [OF assms(1)] assms(7))

lemma u64_key: "n < 2 ^ 64 \<Longrightarrow> u64_to_le (of_nat n) = u64_to_le x \<longleftrightarrow> unat x = n"
proof -
  assume n: "n < 2 ^ 64"
  have "of_nat n = x" if "unat x = n" using that by (metis of_nat_unat ucast_id)
  then show ?thesis using n by (auto simp: u64_to_le_inject unat_of_nat)
qed

lemma canonical_add_tip:
  assumes can: "canonical B m s ch" and arr: "block_arrives B m s k b" "as_bytes k \<notin> fmdom' (db_blocks s)"
    and tip: "hgt (header b) = length ch" "ch \<noteq> [] \<Longrightarrow> prev_hash (header b) = fst (last ch)"
    and upd: "db_blocks s' = fmupd (as_bytes k) (enc_header (header b)) (db_blocks s)"
      "db_block_bodies s' = fmupd (as_bytes k) (enc_block b) (db_block_bodies s)"
      "db_height s' = fmupd (u64_to_le (height_val (height (header b)))) (as_bytes k) (db_height s)"
  shows "canonical B m s' (ch @ [(k, header b, Some b)])"
proof -
  note st = stored_add [OF arr upd(1,2)]
  let ?n = "length ch" and ?ch = "ch @ [(k, header b, Some b)]"
  have h: "height_val (height (header b)) = of_nat ?n" using tip(1) by (metis of_nat_unat ucast_id)
  have n: "?n < 2 ^ 64" using tip(1) unat_less_pow [of "height_val (height (header b))"] by simp
  have key: "u64_to_le (of_nat ?n) = u64_to_le x \<longleftrightarrow> unat x = ?n" for x :: u64
    using n by (rule u64_key)
  show ?thesis
  proof (rule canonicalI)
    fix i assume "i < length ?ch"
    then consider "i = ?n" | "i < ?n" by fastforce
    then have "stored B m s' (?ch ! i) \<and> hgt (fst (snd (?ch ! i))) = i
        \<and> fmlookup (db_height s') (u64_to_le (of_nat i)) = Some (as_bytes (fst (?ch ! i)))"
    proof cases
      case 2
      then have "unat (of_nat i :: u64) \<noteq> ?n" using n by (simp add: unat_of_nat)
      then show ?thesis using canonicalD [OF can] 2 key [of "of_nat i"] by (simp add: nth_append st upd(3) h)
    qed (use tip(1) in \<open>simp add: st upd(3) h\<close>)
    then show "stored B m s' (?ch ! i)" "hgt (fst (snd (?ch ! i))) = i"
      "fmlookup (db_height s') (u64_to_le (of_nat i)) = Some (as_bytes (fst (?ch ! i)))" by simp_all
  next
    fix i assume i: "Suc i < length ?ch"
    show "prev_hash (fst (snd (?ch ! Suc i))) = fst (?ch ! i)"
    proof (cases "Suc i = ?n")
      case True
      then have "ch \<noteq> []" "i = length ch - 1" by auto
      then show ?thesis using True tip(2) by (simp add: nth_append last_conv_nth)
    qed (use i canonicalD(4) [OF can] in \<open>simp add: nth_append\<close>)
  next
    fix x :: u64 assume "length ?ch \<le> unat x"
    then show "fmlookup (db_height s') (u64_to_le x) = None"
      using canonicalD(5) [OF can, of x] key [of x] by (simp add: upd(3) h)
  next
    fix x h' ob' assume "stored B m s' (x, h', ob')" "hgt h' = 0"
    then show "?ch \<noteq> [] \<and> x = fst (?ch ! 0)"
      using canonical_genesis [OF can] tip(1) unfolding st by (auto simp: nth_append)
  qed
qed

section \<open>Extending the tip\<close>

lemma new_utxo_keys: "map fst (fst (build_utxo_changeset b)) = block_created b"
  by (simp add: build_utxo_changeset_def block_created_def comp_def case_prod_unfold)

lemma ledger_ok_commit:
  assumes ok: "ledger_ok s ch" "body_distinct b" "hash256_ok k"
    and c: "commit_block io s (as_bytes k) bh hb body (fst (build_utxo_changeset b)) (block_spent b)
      (extract_kernel_excesses b k) = Ok s'"
  shows "ledger_ok s' (ch @ [(k, h, Some b)])"
proof -
  let ?new = "fst (build_utxo_changeset b)" and ?kern = "extract_kernel_excesses b k"
  note c' = c [unfolded commit_block_Ok new_utxo_keys kernel_keys]
  have u: "db_utxos s' = fmdrop_set (set (block_spent b)) (fmadd (db_utxos s) (fmap_of_list ?new))"
    and kn: "db_kernels s' = fmadd (db_kernels s) (fmap_of_list ?kern)" using c' by simp_all
  have dom: "fmdom' (db_utxos s') = fmdom' (db_utxos s) - set (block_spent b) \<union> set (block_created b)"
    using ok(2) unfolding u body_distinct_def by (auto simp: fmdom'_fmap_of_list new_utxo_keys)
  have "ledger_step (fmdom' (db_utxos s)) b = Some (fmdom' (db_utxos s'))"
    using c' ok(2) unfolding ledger_step_def dom body_distinct_def by auto
  then have "ledger {} (chain_blocks (ch @ [(k, h, Some b)])) = Some (fmdom' (db_utxos s'))"
    using ok(1) by (simp add: ledger_ok_def ledger_snoc)
  moreover have "\<exists>e. v = UtxoEntry_to_bytes e" if "fmlookup (db_utxos s') x = Some v" for x v
  proof -
    have "map_of ?new x = Some v \<or> fmlookup (db_utxos s) x = Some v"
      using that unfolding u by (auto simp: fmlookup_of_list split: if_splits option.splits)
    then show ?thesis
      using ok(1) by (auto simp: ledger_ok_def build_utxo_changeset_def dest!: map_of_SomeD)
  qed
  moreover have "distinct (chain_kernels (ch @ [(k, h, Some b)]))"
    "fmdom' (db_kernels s') = set (chain_kernels (ch @ [(k, h, Some b)]))"
    using c' ok(1) by (auto simp: ledger_ok_def kn fmdom'_fmap_of_list kernel_keys)
  moreover have "length v = 32 \<and> (x, v) \<in> set (chain_index (ch @ [(k, h, Some b)]))"
    if "fmlookup (db_kernels s') x = Some v" for x v
  proof -
    have "map_of ?kern x = Some v \<or> fmlookup (db_kernels s) x = Some v"
      using that unfolding kn by (auto simp: fmlookup_of_list split: if_splits option.splits)
    then show ?thesis
      using ok(1,3) kernel_values [of "(x, v)" b k] by (auto simp: ledger_ok_def hash256_ok_def dest!: map_of_SomeD)
  qed
  ultimately show ?thesis unfolding ledger_ok_def by blast
qed

lemma commit_tip_ok:
  assumes ok: "chain_ok B cs ch" and arr: "block_arrives B (magic cs) (cs_store cs) k b"
    and tip: "hgt (header b) = length ch" "ch \<noteq> [] \<Longrightarrow> prev_hash (header b) = fst (last ch)"
    and c: "commit_block io (cs_store cs) (as_bytes k) (height_val (height (header b))) (enc_header (header b)) (enc_block b)
      (fst (build_utxo_changeset b)) (block_spent b) (extract_kernel_excesses b k) = Ok s'"
  shows "chain_ok B (cs\<lparr>cs_store := s', tip_hash := k, tip_height := height (header b),
      tip_difficulty := total_difficulty (header b)\<rparr>) (ch @ [(k, header b, Some b)])"
proof -
  note ok' = ok [unfolded chain_ok_def]
  have fresh: "as_bytes k \<notin> fmdom' (db_blocks (cs_store cs))"
    and upd: "db_blocks s' = fmupd (as_bytes k) (enc_header (header b)) (db_blocks (cs_store cs))"
      "db_block_bodies s' = fmupd (as_bytes k) (enc_block b) (db_block_bodies (cs_store cs))"
      "db_height s' = fmupd (u64_to_le (height_val (height (header b)))) (as_bytes k) (db_height (cs_store cs))"
      "db_tip s' = Some (as_bytes k)"
    using c unfolding commit_block_Ok by simp_all
  have "body_distinct b" "hash256_ok k" using arr block_valid_distinct by (auto simp: block_arrives_def)
  then have "ledger_ok s' (ch @ [(k, header b, Some b)])" using ok' c by (intro ledger_ok_commit) auto
  moreover have "store_ok B (magic cs) s'" using ok' store_ok_add [OF _ arr fresh upd(1,2)] by blast
  moreover have "canonical B (magic cs) s' (ch @ [(k, header b, Some b)])"
    using ok' canonical_add_tip [OF _ arr fresh tip upd(1-3)] by blast
  ultimately show ?thesis using ok' by (simp add: chain_ok_def tip_ok_def upd(4))
qed

lemma store_known_ok:
  assumes ok: "chain_ok B cs ch" and arr: "block_arrives B (magic cs) (cs_store cs) k b" "0 < hgt (header b)"
    and c: "store_known_block io (cs_store cs) (as_bytes k) (enc_header (header b)) (enc_block b) = Ok s'"
  shows "chain_ok B (cs\<lparr>cs_store := s'\<rparr>) ch" "stored B (magic cs) s' (k, header b, Some b)"
proof -
  note ok' = ok [unfolded chain_ok_def]
  have fresh: "as_bytes k \<notin> fmdom' (db_blocks (cs_store cs))"
    and s': "s' = (cs_store cs)\<lparr>db_blocks := fmupd (as_bytes k) (enc_header (header b)) (db_blocks (cs_store cs)),
      db_block_bodies := fmupd (as_bytes k) (enc_block b) (db_block_bodies (cs_store cs))\<rparr>"
    using c unfolding store_known_block_Ok by simp_all
  have upd: "db_blocks s' = fmupd (as_bytes k) (enc_header (header b)) (db_blocks (cs_store cs))"
      "db_block_bodies s' = fmupd (as_bytes k) (enc_block b) (db_block_bodies (cs_store cs))"
      "db_height s' = db_height (cs_store cs)" by (simp_all add: s')
  have "store_ok B (magic cs) s'" using ok' store_ok_add [OF _ arr(1) fresh upd(1,2)] by blast
  moreover have "canonical B (magic cs) s' ch"
    using ok' canonical_add_side [OF _ arr(1) fresh arr(2) upd] by blast
  ultimately show "chain_ok B (cs\<lparr>cs_store := s'\<rparr>) ch"
    using ok' by (simp add: chain_ok_def tip_ok_def ledger_ok_def s')
  show "stored B (magic cs) s' (k, header b, Some b)" using stored_add [OF arr(1) fresh upd(1,2)] by simp
qed

lemma checked_next_Some: "BlockHeight_checked_next h = Some h' \<longleftrightarrow> unat (height_val h') = Suc (unat (height_val h))"
  unfolding BlockHeight_checked_next_def
  by (cases h; cases h') (auto simp: checked_add_eq_Some)

lemma genesis_height_iff: "height h = BlockHeight_GENESIS \<longleftrightarrow> hgt h = 0"
  by (cases "height h") (auto simp: BlockHeight_GENESIS_def unat_eq_0)

lemma check_parent_Some:
  assumes "check_parent cs h = Ok r" "0 < hgt h"
  shows "\<exists>p. stored_header (cs_store cs) (prev_hash h) (Orphan ''parent not found'') = Ok p
    \<and> BlockHeight_checked_next (height p) = Some (height h) \<and> r = Some p"
proof -
  have "height h \<noteq> BlockHeight_GENESIS" using assms(2) genesis_height_iff by simp
  then show ?thesis
    using assms(1) by (auto simp: check_parent_def simp del: get_recent_timestamps.simps split: if_splits)
qed

lemma new_block_checks:
  assumes "validate_new_block B E S cs b k now = Ok ()"
  shows "validate_header_syntax (header b) (magic cs) = Ok ()" "validate_genesis_identity cs (header b) k = Ok ()"
    "\<exists>p. check_parent cs (header b) = Ok p
      \<and> check_total_difficulty cs (header b) (case p of Some p \<Rightarrow> total_difficulty p | None \<Rightarrow> 0) = Ok ()"
    "validate_block_for_network B b (block_context B cs (height (header b)) now) (magic cs) = Ok ()"
  using assms unfolding validate_new_block_def Let_def and_then_eq_Ok map_err_eq_Ok by auto

lemma ordinary_identifier:
  assumes "compute_block_identifier B m (enc_header h) = Ok k" "known_network_magic m" "header_ok h"
    "\<not> (m = NETWORK_MAGIC_MAINNET \<and> hgt h = 0)"
  shows "k = compute_block_hash B (enc_header h)"
  using assms by (auto simp: compute_block_identifier_def canonical_header_identifier_def genesis_height_iff
      known_network_magic_def blake2b_256_def compute_block_hash_def header_round_trip split: if_splits)

lemma new_block_arrives:
  assumes ok: "chain_ok B cs ch" and hash: "\<And>x. length (blake2b B x) = 32"
    and b: "block_ok B b" "length (enc_block b) < USIZE_LIMIT"
    and id: "compute_block_identifier B (magic cs) (enc_header (header b)) = Ok k"
    and v: "validate_new_block B E S cs b k now = Ok ()"
  shows "block_arrives B (magic cs) (cs_store cs) k b"
proof -
  note ok' = ok [unfolded chain_ok_def] and checks = new_block_checks [OF v]
  have hd: "header_ok (header b)" using b(1) by (simp add: block_ok_def)
  have valid: "block_valid B (block_context B cs (height (header b)) now) (magic cs) b"
    using checks(4) validate_block_Ok [OF block_counts [OF b(1)]] by blast
  have net: "\<not> (magic cs = NETWORK_MAGIC_MAINNET \<and> hgt (header b) = 0)"
    using checks(2) genesis_height_iff [of "header b"] by (auto simp: validate_genesis_identity_def split: if_splits)
  have k: "k = compute_block_hash B (enc_header (header b))"
    using ordinary_identifier [OF id _ hd net] ok' by blast
  have "\<exists>h' ob'. stored B (magic cs) (cs_store cs) (prev_hash (header b), h', ob') \<and> hgt (header b) = Suc (hgt h')"
    if pos: "0 < hgt (header b)"
  proof -
    obtain r where "check_parent cs (header b) = Ok r" using checks(3) by blast
    then obtain p where p: "stored_header (cs_store cs) (prev_hash (header b)) (Orphan ''parent not found'') = Ok p"
        "BlockHeight_checked_next (height p) = Some (height (header b))"
      using check_parent_Some [OF _ pos] by blast
    obtain ob where "stored B (magic cs) (cs_store cs) (prev_hash (header b), p, ob)"
      using ok' p(1) stored_header_Ok by blast
    then show ?thesis using p(2) [unfolded checked_next_Some] by blast
  qed
  moreover have "hash256_ok k" using hash by (simp add: k hash256_ok_def compute_block_hash_def)
  ultimately show ?thesis using b valid net k unfolding block_arrives_def by blast
qed

lemma new_genesis_index:
  assumes "validate_new_block B E S cs b k now = Ok ()" "hgt (header b) = 0"
  shows "fmlookup (db_height (cs_store cs)) (u64_to_le 0) \<in> {None, Some (as_bytes k)}"
  using new_block_checks(2) [OF assms(1)] genesis_height_iff [of "header b"] assms(2)
  by (auto simp: validate_genesis_identity_def get_hash_at_height_def hash_value_def BlockHeight_GENESIS_def
      split: if_splits option.splits)

lemma extends_tip:
  assumes ok: "chain_ok B cs ch" and arr: "block_arrives B (magic cs) (cs_store cs) k b"
    and new: "as_bytes k \<notin> fmdom' (db_blocks (cs_store cs))"
    and direct: "hgt (header b) = 0 \<or> prev_hash (header b) = tip_hash cs"
    and gen: "hgt (header b) = 0 \<Longrightarrow> fmlookup (db_height (cs_store cs)) (u64_to_le 0) \<in> {None, Some (as_bytes k)}"
  shows "hgt (header b) = length ch" "ch \<noteq> [] \<Longrightarrow> prev_hash (header b) = fst (last ch)"
proof -
  have so: "store_ok B (magic cs) (cs_store cs)" and can: "canonical B (magic cs) (cs_store cs) ch" and tip: "tip_ok cs ch"
    using ok by (simp_all add: chain_ok_def)
  have "hgt (header b) = length ch \<and> (ch \<noteq> [] \<longrightarrow> prev_hash (header b) = fst (last ch))"
  proof (cases "hgt (header b) = 0")
    case True
    have "ch = []"
    proof (rule ccontr)
      assume "ch \<noteq> []"
      then have "fmlookup (db_height (cs_store cs)) (u64_to_le 0) = Some (as_bytes (fst (ch ! 0)))"
        and st: "stored B (magic cs) (cs_store cs) (ch ! 0)"
        using canonicalD(1,3) [OF can, of 0] by simp_all
      then have "as_bytes (fst (ch ! 0)) = as_bytes k" using gen [OF True] by simp
      then show False using st new by (cases "ch ! 0") (auto simp: stored.simps fmlookup_dom'_iff)
    qed
    then show ?thesis using True by simp
  next
    case False
    then obtain h' ob' where p: "stored B (magic cs) (cs_store cs) (tip_hash cs, h', ob')" "hgt (header b) = Suc (hgt h')"
      using arr direct by (auto simp: block_arrives_def)
    then have ne: "ch \<noteq> []" using store_empty [OF so] can by blast
    then have tl: "tip_hash cs = fst (last ch)" using tip by (simp add: tip_ok_def)
    obtain k1 h1 ob1 where e: "last ch = (k1, h1, ob1)" by (metis prod_cases3)
    have "stored B (magic cs) (cs_store cs) (last ch)" "hgt (fst (snd (last ch))) = length ch - 1"
      using canonicalD(1,2) [OF can, of "length ch - 1"] ne by (simp_all add: last_conv_nth)
    then have "hgt h' = length ch - 1" using p(1) tl e stored_unique by (metis fst_conv snd_conv)
    then show ?thesis using p(2) False direct tl ne by simp
  qed
  then show "hgt (header b) = length ch" "ch \<noteq> [] \<Longrightarrow> prev_hash (header b) = fst (last ch)" by blast+
qed

definition with_tip :: "chain_state \<Rightarrow> dom_store \<Rightarrow> hash256 \<Rightarrow> block_header \<Rightarrow> chain_state" where
  "with_tip cs s k h = cs\<lparr>cs_store := s, tip_hash := k, tip_height := height h, tip_difficulty := total_difficulty h\<rparr>"

lemma connect_direct_cases:
  assumes "connect_direct io cs b k hb body = (cs', q)"
  shows "cs' = cs \<and> \<not> is_ok q \<or>
    (\<exists>s. commit_block (io 0) (cs_store cs) (as_bytes k) (height_val (height (header b))) hb body
        (fst (build_utxo_changeset b)) (block_spent b) (extract_kernel_excesses b k) = Ok s
      \<and> (cs' = with_tip cs s k (header b) \<and> \<not> is_ok q \<or>
         (\<exists>s'. prune_retained_side_chains (io 1) s (height (header b)) (as_bytes k) = Ok s'
           \<and> cs' = (with_tip cs s k (header b))\<lparr>cs_store := s'\<rparr> \<and> q = Ok BestChain)))"
  using assms unfolding connect_direct_def Let_def build_utxo_changeset_def case_prod_conv try_in_cases fst_conv
  by (auto simp: with_tip_def)

lemma connect_direct_ok:
  assumes ok: "chain_ok B cs ch" and arr: "block_arrives B (magic cs) (cs_store cs) k b"
    and new: "as_bytes k \<notin> fmdom' (db_blocks (cs_store cs))"
    and direct: "hgt (header b) = 0 \<or> prev_hash (header b) = tip_hash cs"
    and gen: "hgt (header b) = 0 \<Longrightarrow> fmlookup (db_height (cs_store cs)) (u64_to_le 0) \<in> {None, Some (as_bytes k)}"
    and c: "connect_direct io cs b k (enc_header (header b)) (enc_block b) = (cs', q)"
  shows "cs' = cs \<and> \<not> is_ok q \<or> chain_ok B cs' (ch @ [(k, header b, Some b)])"
proof (cases "cs' = cs \<and> \<not> is_ok q")
  case False
  then obtain s where s: "commit_block (io 0) (cs_store cs) (as_bytes k) (height_val (height (header b))) (enc_header (header b))
        (enc_block b) (fst (build_utxo_changeset b)) (block_spent b) (extract_kernel_excesses b k) = Ok s"
      "cs' = with_tip cs s k (header b) \<or> (\<exists>s'. prune_retained_side_chains (io 1) s (height (header b)) (as_bytes k) = Ok s'
         \<and> cs' = (with_tip cs s k (header b))\<lparr>cs_store := s'\<rparr>)"
    using connect_direct_cases [OF c] by blast
  have tip: "chain_ok B (with_tip cs s k (header b)) (ch @ [(k, header b, Some b)])"
    using commit_tip_ok [OF ok arr extends_tip [OF ok arr new direct gen] s(1)] by (simp add: with_tip_def)
  show ?thesis
    using s(2) tip prune_ok [OF tip, of "io 1"] by (auto simp: with_tip_def)
qed simp

end
