(* ===== verification/Reorg.thy ===== *)
theory Reorg
  imports Chain_Invariant
begin

text \<open>
  Promotion of a heavier branch (\<^verbatim>\<open>promote_heavier_known_tip\<close> of chain_state.rs): the overlays
  undo the ledger down to the common ancestor and replay the new branch, the update lists
  write exactly the overlays, and the invariant of the chain state is preserved.
\<close>

section \<open>The view through an overlay\<close>

definition view :: "bytes set \<Rightarrow> (bytes, 'v option) fmap \<Rightarrow> bytes set" where
  "view D ov = {c. case fmlookup ov c of Some v \<Rightarrow> v \<noteq> None | None \<Rightarrow> c \<in> D}"

lemma view_simps [simp]:
  "view D fmempty = D" "view D (fmupd c None ov) = view D ov - {c}" "view D (fmupd c (Some e) ov) = insert c (view D ov)"
  by (auto simp: view_def)

lemma view_clear: "view D (foldl (\<lambda>m (c, _). fmupd c None m) ov xs) = view D ov - fst ` set xs"
  by (induction xs arbitrary: ov) auto

lemma lookup_utxo_view:
  "lookup_utxo s ov c = Ok found \<Longrightarrow> found \<noteq> None \<longleftrightarrow> c \<in> view (fmdom' (db_utxos s)) ov"
  by (auto simp: lookup_utxo_def get_utxo_def view_def fmlookup_dom'_iff split: option.splits)

lemma lookup_kernel_view:
  assumes "lookup_kernel s ov c = Ok found"
  shows "found \<noteq> None \<longleftrightarrow> c \<in> view (fmdom' (db_kernels s)) ov"
proof (cases "fmlookup ov c")
  case None
  have "get_kernel_block s c = Ok found" using assms None by (simp add: lookup_kernel_def)
  then have "found \<noteq> None \<longleftrightarrow> fmlookup (db_kernels s) c \<noteq> None"
    by (cases "fmlookup (db_kernels s) c"; cases found) (simp_all add: get_kernel_block_def hash_value_def split: if_splits)
  then show ?thesis using None by (simp add: view_def fmlookup_dom'_iff)
qed (use assms in \<open>simp add: lookup_kernel_def view_def\<close>)

lemma connect_spend_Ok:
  "connect_spend s mat b ov c = Ok ov' \<Longrightarrow> \<exists>e. lookup_utxo s ov c = Ok (Some e) \<and> ov' = fmupd c None ov"
  by (auto simp: connect_spend_def split: if_splits)

lemma connect_create_Ok:
  "connect_create s ov ce = Ok ov' \<Longrightarrow> lookup_utxo s ov (fst ce) = Ok None \<and> ov' = fmupd (fst ce) (Some (snd ce)) ov"
  by (auto simp: connect_create_def split: if_splits)

lemma connect_kernel_Ok:
  "connect_kernel s ov x = Ok ov' \<Longrightarrow> lookup_kernel s ov (fst x) = Ok None \<and> ov' = fmupd (fst x) (Some (snd x)) ov"
  by (auto simp: connect_kernel_def split: if_splits)

lemma apply_connect_Ok:
  "apply_connect s mat ov (h, b) = Ok ov' \<Longrightarrow> \<exists>u1. try_fold (connect_spend s mat b) (fst ov) (block_spent b) = Ok u1
    \<and> try_fold (connect_create s) u1 (block_new_entries b) = Ok (fst ov')
    \<and> try_fold (connect_kernel s) (snd ov) (extract_kernel_excesses b h) = Ok (snd ov')"
  by (auto simp: apply_connect_def split: prod.splits)

section \<open>Disconnecting and connecting through the overlays\<close>

lemma resurrect_view:
  "try_fold (resurrect_input B s a idx) ov cs = Ok ov' \<Longrightarrow> view D ov' = view D ov \<union> set cs"
  by (induction cs arbitrary: ov) (auto simp: resurrect_input_def)

lemma created_set: "fst ` set (block_new_entries b) = set (block_created b)"
  by (simp add: block_created_def)

lemma kernel_set: "fst ` set (extract_kernel_excesses b h) = set (block_kernels b)"
  by (metis kernel_keys list.set_map)

lemma apply_disconnect_view:
  assumes "apply_disconnect B s a idx ov (h, b) = Ok ov'"
  shows "view D (fst ov') = view D (fst ov) - set (block_created b) \<union> set (block_spent b)"
    and "view K (snd ov') = view K (snd ov) - set (block_kernels b)"
  using assms resurrect_view [of B s a idx]
  by (auto simp: apply_disconnect_def view_clear created_set kernel_set split: prod.splits)

lemma disconnect_view:
  assumes "try_fold (apply_disconnect B s a idx) ov ds = Ok ov'" "\<forall>d \<in> set ds. body_distinct (snd d)"
    and "ledger L (map snd (rev ds)) = Some (view D (fst ov))"
  shows "view D (fst ov') = L \<and> view K (snd ov') = view K (snd ov) - (\<Union>d \<in> set ds. set (block_kernels (snd d)))"
  using assms
proof (induction ds arbitrary: ov)
  case (Cons d ds)
  obtain h b where d: "d = (h, b)" by (cases d)
  obtain ov1 where o1: "apply_disconnect B s a idx ov (h, b) = Ok ov1" "try_fold (apply_disconnect B s a idx) ov1 ds = Ok ov'"
    using Cons.prems(1) by (auto simp: d)
  obtain M where M: "ledger L (map snd (rev ds)) = Some M" "ledger_step M b = Some (view D (fst ov))"
    using Cons.prems(3) by (auto simp: d ledger_snoc bind_eq_Some_conv)
  have "view D (fst ov1) = M"
    using apply_disconnect_view(1) [OF o1(1)] ledger_step_undo [OF M(2)] Cons.prems(2) by (simp add: d)
  then show ?case using Cons.IH [OF o1(2)] Cons.prems(2) M(1) apply_disconnect_view(2) [OF o1(1), of K] by (auto simp: d)
qed simp

lemma connect_spend_view:
  assumes "try_fold (connect_spend s mat b) ov cs = Ok ov'"
  shows "set cs \<subseteq> view (fmdom' (db_utxos s)) ov \<and> view (fmdom' (db_utxos s)) ov' = view (fmdom' (db_utxos s)) ov - set cs"
  using assms
proof (induction cs arbitrary: ov)
  case (Cons c cs)
  obtain e where "lookup_utxo s ov c = Ok (Some e)" "try_fold (connect_spend s mat b) (fmupd c None ov) cs = Ok ov'"
    using Cons.prems by (auto dest!: connect_spend_Ok)
  then show ?case using Cons.IH lookup_utxo_view by fastforce
qed simp

lemma connect_create_view:
  assumes "try_fold (connect_create s) ov ces = Ok ov'"
  shows "fst ` set ces \<inter> view (fmdom' (db_utxos s)) ov = {} \<and> view (fmdom' (db_utxos s)) ov' = view (fmdom' (db_utxos s)) ov \<union> fst ` set ces"
  using assms
proof (induction ces arbitrary: ov)
  case (Cons ce ces)
  have l: "lookup_utxo s ov (fst ce) = Ok None" "try_fold (connect_create s) (fmupd (fst ce) (Some (snd ce)) ov) ces = Ok ov'"
    using Cons.prems by (auto dest!: connect_create_Ok)
  then have "fst ce \<notin> view (fmdom' (db_utxos s)) ov" using lookup_utxo_view by blast
  then show ?case using Cons.IH [OF l(2)] by auto
qed simp

lemma connect_kernel_view:
  assumes "try_fold (connect_kernel s) ov xs = Ok ov'"
  shows "distinct (map fst xs) \<and> fst ` set xs \<inter> view (fmdom' (db_kernels s)) ov = {}
    \<and> view (fmdom' (db_kernels s)) ov' = view (fmdom' (db_kernels s)) ov \<union> fst ` set xs"
  using assms
proof (induction xs arbitrary: ov)
  case (Cons x xs)
  have l: "lookup_kernel s ov (fst x) = Ok None" "try_fold (connect_kernel s) (fmupd (fst x) (Some (snd x)) ov) xs = Ok ov'"
    using Cons.prems by (auto dest!: connect_kernel_Ok)
  then have "fst x \<notin> view (fmdom' (db_kernels s)) ov" using lookup_kernel_view by blast
  then show ?case using Cons.IH [OF l(2)] by auto
qed simp

lemma connect_view:
  assumes "try_fold (apply_connect s mat) ov cs = Ok ov'" "\<forall>d \<in> set cs. body_distinct (snd d)"
  shows "ledger (view (fmdom' (db_utxos s)) (fst ov)) (map snd cs) = Some (view (fmdom' (db_utxos s)) (fst ov'))
    \<and> distinct (concat (map (block_kernels \<circ> snd) cs))
    \<and> set (concat (map (block_kernels \<circ> snd) cs)) \<inter> view (fmdom' (db_kernels s)) (snd ov) = {}
    \<and> view (fmdom' (db_kernels s)) (snd ov') = view (fmdom' (db_kernels s)) (snd ov) \<union> set (concat (map (block_kernels \<circ> snd) cs))"
  using assms
proof (induction cs arbitrary: ov)
  case (Cons d cs)
  obtain h b where d: "d = (h, b)" by (cases d)
  let ?D = "fmdom' (db_utxos s)" and ?K = "fmdom' (db_kernels s)"
  obtain u1 u2 k1 where st: "try_fold (connect_spend s mat b) (fst ov) (block_spent b) = Ok u1"
      "try_fold (connect_create s) u1 (block_new_entries b) = Ok u2"
      "try_fold (connect_kernel s) (snd ov) (extract_kernel_excesses b h) = Ok k1"
      "try_fold (apply_connect s mat) (u2, k1) cs = Ok ov'"
    using Cons.prems(1) by (auto simp: d dest!: apply_connect_Ok)
  have u: "set (block_spent b) \<subseteq> view ?D (fst ov)" "view ?D u1 = view ?D (fst ov) - set (block_spent b)"
      "set (block_created b) \<inter> view ?D u1 = {}" "view ?D u2 = view ?D u1 \<union> set (block_created b)"
    using connect_spend_view [OF st(1)] connect_create_view [OF st(2)] by (simp_all add: created_set)
  have bd: "body_distinct b" using Cons.prems(2) by (simp add: d)
  have step: "ledger_step (view ?D (fst ov)) b = Some (view ?D u2)"
    using u bd by (auto simp: ledger_step_def body_distinct_def)
  have k: "distinct (block_kernels b)" "set (block_kernels b) \<inter> view ?K (snd ov) = {}"
      "view ?K k1 = view ?K (snd ov) \<union> set (block_kernels b)"
    using connect_kernel_view [OF st(3)] by (simp_all add: kernel_set kernel_keys)
  show ?case using Cons.IH [OF st(4)] Cons.prems(2) step k by (auto simp: d)
qed simp

section \<open>The updates a promotion writes\<close>

lemma update_fold:
  assumes step: "\<And>out cd out'. f out cd = Ok out' \<Longrightarrow> out' = out @ [(fst cd, enc (snd cd))] \<or> out' = out \<and> Q cd"
    and "try_fold f out cds = Ok out'" "distinct (map fst cds)"
  shows "\<exists>ups. out' = out @ ups \<and> distinct (map fst ups) \<and> set (map fst ups) \<subseteq> set (map fst cds)
    \<and> (\<forall>c v. map_of cds c = Some v \<longrightarrow> map_of ups c = Some (enc v) \<or> map_of ups c = None \<and> Q (c, v))"
  using assms(2,3)
proof (induction cds arbitrary: out)
  case (Cons cd cds)
  obtain c v where cd: "cd = (c, v)" by (cases cd)
  obtain out1 where o1: "f out cd = Ok out1" "try_fold f out1 cds = Ok out'" using Cons.prems(1) by auto
  obtain ups where u: "out' = out1 @ ups" "distinct (map fst ups)" "set (map fst ups) \<subseteq> set (map fst cds)"
      "\<And>c v. map_of cds c = Some v \<Longrightarrow> map_of ups c = Some (enc v) \<or> map_of ups c = None \<and> Q (c, v)"
    using Cons.IH [OF o1(2)] Cons.prems(2) by auto
  have c: "c \<notin> set (map fst cds)" "c \<notin> set (map fst ups)" using Cons.prems(2) u(3) by (auto simp: cd)
  then have n: "map_of ups c = None" by (simp add: map_of_eq_None_iff)
  consider "out1 = out @ [(c, enc v)]" | "out1 = out" "Q (c, v)" using step [OF o1(1)] by (auto simp: cd)
  then show ?case
  proof cases
    case 1
    then show ?thesis using u c by (intro exI [of _ "(c, enc v) # ups"]) (auto simp: cd)
  next
    case 2
    then show ?thesis using u c n by (intro exI [of _ ups]) (auto simp: cd)
  qed
qed simp

lemma utxo_update_Ok:
  "utxo_update s out cd = Ok out' \<Longrightarrow> out' = out @ [(fst cd, map_option UtxoEntry_to_bytes (snd cd))]
    \<or> out' = out \<and> (fst cd \<in> fmdom' (db_utxos s) \<longleftrightarrow> snd cd \<noteq> None)"
  by (auto simp: utxo_update_def get_utxo_def fmlookup_dom'_iff split: option.splits if_splits)

lemma kernel_update_Ok:
  assumes "kernel_update s out cd = Ok out'"
  shows "out' = out @ [(fst cd, id (snd cd))] \<or> out' = out \<and> get_kernel_block s (fst cd) = Ok (snd cd)"
  using assms by (auto simp: kernel_update_def split: if_splits)

lemma utxo_updates_effect:
  assumes "build_utxo_updates s ov = Ok ups" "db' = foldl put_or_delete (db_utxos s) ups"
  shows "fmdom' db' = view (fmdom' (db_utxos s)) ov"
    and "fmlookup db' c = Some v \<Longrightarrow> fmlookup (db_utxos s) c = Some v \<or> (\<exists>e. v = UtxoEntry_to_bytes e)"
proof -
  obtain u where u: "ups = u" "distinct (map fst u)" "set (map fst u) \<subseteq> set (map fst (fm_entries ov))"
      "\<And>c v. fmlookup ov c = Some v \<Longrightarrow> map_of u c = Some (map_option UtxoEntry_to_bytes v)
        \<or> map_of u c = None \<and> (c \<in> fmdom' (db_utxos s) \<longleftrightarrow> v \<noteq> None)"
    using update_fold [where Q = "\<lambda>cd. fst cd \<in> fmdom' (db_utxos s) \<longleftrightarrow> snd cd \<noteq> None", OF utxo_update_Ok
        assms(1) [unfolded build_utxo_updates_def] distinct_fm_entries]
    by (auto simp: map_of_fm_entries)
  have look: "fmlookup db' c = (case map_of u c of Some v \<Rightarrow> v | None \<Rightarrow> fmlookup (db_utxos s) c)" for c
    unfolding assms(2) u(1) by (rule put_or_delete_fold [OF u(2)])
  have out: "map_of u c = None" if "fmlookup ov c = None" for c
  proof -
    have "c \<notin> set (map fst (fm_entries ov))" using that by (metis map_of_fm_entries map_of_eq_None_iff list.set_map)
    then show ?thesis using u(3) by (auto simp: map_of_eq_None_iff)
  qed
  have "fmlookup db' c \<noteq> None \<longleftrightarrow> c \<in> view (fmdom' (db_utxos s)) ov" for c
    using u(4) [of c] out [of c]
    by (cases "fmlookup ov c"; cases "the (fmlookup ov c)") (auto simp: look view_def fmlookup_dom'_iff split: option.splits)
  then show "fmdom' db' = view (fmdom' (db_utxos s)) ov" by (auto simp: fmlookup_dom'_iff)
  show "fmlookup (db_utxos s) c = Some v \<or> (\<exists>e. v = UtxoEntry_to_bytes e)" if "fmlookup db' c = Some v"
    using that u(4) [of c] out [of c]
    by (cases "fmlookup ov c"; cases "the (fmlookup ov c)") (auto simp: look split: option.splits)
qed

lemma kernel_updates_effect:
  assumes "build_kernel_updates s ov = Ok ups" "db' = foldl put_or_delete (db_kernels s) ups"
  shows "fmdom' db' = view (fmdom' (db_kernels s)) ov"
    and "fmlookup db' c = Some v \<Longrightarrow> fmlookup ov c = None \<and> fmlookup (db_kernels s) c = Some v \<or> fmlookup ov c = Some (Some v)"
proof -
  obtain u where u: "ups = u" "distinct (map fst u)" "set (map fst u) \<subseteq> set (map fst (fm_entries ov))"
      "\<And>c v. fmlookup ov c = Some v \<Longrightarrow> map_of u c = Some v \<or> map_of u c = None \<and> get_kernel_block s c = Ok v"
    using update_fold [where Q = "\<lambda>cd. get_kernel_block s (fst cd) = Ok (snd cd)" and enc = id, OF kernel_update_Ok
        assms(1) [unfolded build_kernel_updates_def] distinct_fm_entries]
    by (auto simp: map_of_fm_entries)
  have cur: "fmlookup (db_kernels s) c = v" if "get_kernel_block s c = Ok v" for c v
    using that by (cases "fmlookup (db_kernels s) c") (simp_all add: get_kernel_block_def hash_value_def split: if_splits)
  have look: "fmlookup db' c = (case map_of u c of Some v \<Rightarrow> v | None \<Rightarrow> fmlookup (db_kernels s) c)" for c
    unfolding assms(2) u(1) by (rule put_or_delete_fold [OF u(2)])
  have out: "map_of u c = None" if "fmlookup ov c = None" for c
  proof -
    have "c \<notin> set (map fst (fm_entries ov))" using that by (metis map_of_fm_entries map_of_eq_None_iff list.set_map)
    then show ?thesis using u(3) by (auto simp: map_of_eq_None_iff)
  qed
  have all: "fmlookup db' c = (case fmlookup ov c of Some v \<Rightarrow> v | None \<Rightarrow> fmlookup (db_kernels s) c)" for c
    using u(4) [of c] out [of c] cur [of c] by (cases "fmlookup ov c") (auto simp: look split: option.splits)
  then show "fmdom' db' = view (fmdom' (db_kernels s)) ov" by (auto simp: fmlookup_dom'_iff view_def split: option.splits)
  show "fmlookup ov c = None \<and> fmlookup (db_kernels s) c = Some v \<or> fmlookup ov c = Some (Some v)" if "fmlookup db' c = Some v"
    using that by (auto simp: all split: option.splits)
qed

section \<open>The height index after a promotion\<close>

lemma fold_clear: "fmlookup (foldl (\<lambda>m h. fmupd h None m) m hs) x = (if x \<in> set hs then Some None else fmlookup m x)"
  by (induction hs arbitrary: m) auto

lemma fold_index:
  assumes "distinct (map f bs)"
  shows "fmlookup (foldl (\<lambda>m b. fmupd (f b) (Some (g b)) m) m bs) x
    = (case find (\<lambda>b. f b = x) bs of Some b \<Rightarrow> Some (Some (g b)) | None \<Rightarrow> fmlookup m x)"
  using assms
proof (induction bs arbitrary: m)
  case (Cons b bs)
  have "find (\<lambda>b'. f b' = x) bs = None" if "f b = x" using Cons.prems that by (simp add: find_None_iff image_iff) metis
  then show ?case using Cons by (auto split: option.splits)
qed simp

lemma map_of_inj_key: "inj f \<Longrightarrow> map_of (map (\<lambda>(k, v). (f k, v)) xs) (f x) = map_of xs x"
  by (induction xs) (auto dest: injD)

lemma distinct_inj_key: "inj f \<Longrightarrow> distinct (map fst xs) \<Longrightarrow> distinct (map fst (map (\<lambda>(k, v). (f k, v)) xs))"
proof (induction xs)
  case (Cons x xs)
  then show ?case by (cases x) (force dest: injD)
qed simp

lemma u64_to_le_inj: "inj (u64_to_le :: u64 \<Rightarrow> bytes)"
  by (rule injI) (simp add: u64_to_le_inject)

lemma height_updates_effect:
  assumes "build_height_updates a n bs = Ok ups" "distinct (map (\<lambda>b. height_val (height (header (snd b)))) bs)"
    and "db' = foldl put_or_delete db (map (\<lambda>(h, v). (u64_to_le h, v)) ups)"
  shows "fmlookup db' (u64_to_le x) = (case find (\<lambda>b. height_val (height (header (snd b))) = x) bs of
      Some b \<Rightarrow> Some (as_bytes (fst b))
    | None \<Rightarrow> if unat a < unat x \<and> unat x \<le> unat n then None else fmlookup db (u64_to_le x))"
proof -
  obtain first where f: "checked_add a 1 = Some first"
    using assms(1) by (auto simp: build_height_updates_def Let_def)
  then have uf: "unat first = Suc (unat a)" by (auto simp: checked_add_eq_Some)
  let ?hs = "map of_nat [unat first ..< Suc (unat n)] :: u64 list"
  let ?M = "foldl (\<lambda>m b. fmupd (height_val (height (header (snd b)))) (Some (as_bytes (fst b))) m)
    (foldl (\<lambda>m h. fmupd h None m) fmempty ?hs) bs"
  have ups: "ups = fm_entries ?M" using assms(1) f by (simp add: build_height_updates_def Let_def case_prod_unfold)
  have hs: "y \<in> set ?hs \<longleftrightarrow> unat a < unat y \<and> unat y \<le> unat n" for y
  proof
    assume "y \<in> set ?hs"
    then obtain j where j: "y = of_nat j" "unat first \<le> j" "j \<le> unat n" by (auto simp: less_Suc_eq_le)
    moreover have "j < 2 ^ 64" using j(3) unat_less_pow [of n] by simp
    ultimately show "unat a < unat y \<and> unat y \<le> unat n" using uf by (simp add: unat_of_nat)
  next
    assume "unat a < unat y \<and> unat y \<le> unat n"
    then have "unat y \<in> set [unat first ..< Suc (unat n)]" using uf by auto
    then have "of_nat (unat y) \<in> set ?hs" by (metis imageI list.set_map)
    then show "y \<in> set ?hs" by (metis of_nat_unat ucast_id)
  qed
  have dist: "distinct (map fst (map (\<lambda>(h, v). (u64_to_le h, v)) ups))"
    unfolding ups by (rule distinct_inj_key [OF u64_to_le_inj distinct_fm_entries])
  have "fmlookup db' (u64_to_le x) = (case fmlookup ?M x of Some v \<Rightarrow> v | None \<Rightarrow> fmlookup db (u64_to_le x))"
    unfolding assms(3) put_or_delete_fold [OF dist] map_of_inj_key [OF u64_to_le_inj] by (simp add: ups)
  moreover have "fmlookup ?M x = (case find (\<lambda>b. height_val (height (header (snd b))) = x) bs of
      Some b \<Rightarrow> Some (Some (as_bytes (fst b)))
    | None \<Rightarrow> if unat a < unat x \<and> unat x \<le> unat n then Some None else None)"
    unfolding fold_index [OF assms(2)] fold_clear hs by (simp split: option.split)
  ultimately show ?thesis by (auto split: option.split)
qed

lemma branch_link:
  assumes "branch B m s k es a"
  shows "j < length es \<Longrightarrow> prev_hash (fst (snd (es ! j))) = (if Suc j < length es then fst (es ! Suc j) else a)"
    and "es \<noteq> [] \<Longrightarrow> fst (hd es) = k" "es = [] \<Longrightarrow> k = a"
proof -
  have "(\<forall>j < length es. prev_hash (fst (snd (es ! j))) = (if Suc j < length es then fst (es ! Suc j) else a))
      \<and> (es \<noteq> [] \<longrightarrow> fst (hd es) = k) \<and> (es = [] \<longrightarrow> k = a)"
    using assms
  proof (induction rule: branch.induct)
    case (branch_Cons k h ob es a)
    then show ?case by (auto simp: nth_Cons hd_conv_nth less_Suc_eq_0_disj split: nat.splits)
  qed simp
  then show "j < length es \<Longrightarrow> prev_hash (fst (snd (es ! j))) = (if Suc j < length es then fst (es ! Suc j) else a)"
    "es \<noteq> [] \<Longrightarrow> fst (hd es) = k" "es = [] \<Longrightarrow> k = a" by blast+
qed

lemma stored_same: "db_blocks s' = db_blocks s \<Longrightarrow> db_block_bodies s' = db_block_bodies s \<Longrightarrow> stored B m s' e = stored B m s e"
  by (cases e) (simp add: stored.simps)

lemma branch_rev_height:
  assumes "branch B m s t es (fst (ch ! i))" "canonical B m s ch" "store_ok B m s" "i < length ch" "fst (ch ! i) \<noteq> Hash256_ZERO"
    and "j < length es"
  shows "hgt (fst (snd (rev es ! j))) = Suc i + j" "stored B m s (rev es ! j)"
    and "prev_hash (fst (snd (rev es ! j))) = (if j = 0 then fst (ch ! i) else fst (rev es ! (j - 1)))"
proof -
  obtain k h ob where a: "ch ! i = (k, h, ob)" "stored B m s (k, h, ob)" "hgt h = i" using canonical_nth [OF assms(2,4)] by metis
  have "hgt (fst (snd (es ! (length es - Suc j)))) + (length es - Suc j) = hgt h + length es"
    using branch_heights(1) [OF assms(1) _ assms(3,5), of h ob "length es - Suc j"] a assms(6) by simp
  then show "hgt (fst (snd (rev es ! j))) = Suc i + j" using assms(6) a(3) by (simp add: rev_nth)
  show "stored B m s (rev es ! j)" using branch_stored [OF assms(1)] assms(6) by (metis length_rev nth_mem set_rev)
  show "prev_hash (fst (snd (rev es ! j))) = (if j = 0 then fst (ch ! i) else fst (rev es ! (j - 1)))"
    using branch_link(1) [OF assms(1), of "length es - Suc j"] assms(6) by (auto simp: rev_nth Suc_diff_Suc)
qed

lemma canonical_switch:
  assumes can: "canonical B m s ch" and so: "store_ok B m s" and i: "i < length ch"
    and br: "branch B m s t es (fst (ch ! i))" and nz: "fst (ch ! i) \<noteq> Hash256_ZERO"
    and same: "db_blocks s' = db_blocks s" "db_block_bodies s' = db_block_bodies s"
    and idx: "\<And>x :: u64. fmlookup (db_height s') (u64_to_le x) =
      (if unat x \<le> i then fmlookup (db_height s) (u64_to_le x)
       else if unat x \<le> i + length es then Some (as_bytes (fst (rev es ! (unat x - Suc i)))) else None)"
  shows "canonical B m s' (take (Suc i) ch @ rev es)"
proof -
  define ch' where "ch' = take (Suc i) ch @ rev es"
  note st = stored_same [OF same] and rh = branch_rev_height [OF br can so i nz]
  have len: "length ch' = Suc i + length es" using i by (simp add: ch'_def)
  have big: "j < 2 ^ 64" if "j < length ch'" for j
  proof (cases "es = []")
    case False
    then have "hgt (fst (snd (rev es ! (length es - 1)))) = Suc i + (length es - 1)" by (intro rh(1)) simp
    moreover have "hgt (fst (snd (rev es ! (length es - 1)))) < 2 ^ 64"
      using unat_less_pow [of "height_val (height (fst (snd (rev es ! (length es - 1)))))"] by simp
    moreover have "j \<le> Suc i + (length es - 1)" using that len False by (cases es) simp_all
    ultimately show ?thesis by linarith
  next
    case True
    then have "j < length ch" using that len i by simp
    then show ?thesis using canonical_length [OF can] by linarith
  qed
  have nth: "ch' ! j = (if j \<le> i then ch ! j else rev es ! (j - Suc i))" for j
    using i by (auto simp: ch'_def nth_append)
  have old: "j < length ch" if "j \<le> i" for j using that i by simp
  have new: "j - Suc i < length es" if "j < length ch'" "\<not> j \<le> i" for j using that len by auto
  have "canonical B m s' ch'"
  proof (rule canonicalI)
    show "stored B m s' (ch' ! j)" if "j < length ch'" for j
      using that canonicalD(1) [OF can old, of j] rh(2) [OF new, of j] by (simp add: nth st)
    show "hgt (fst (snd (ch' ! j))) = j" if "j < length ch'" for j
      using that canonicalD(2) [OF can old, of j] rh(1) [OF new, of j] by (cases "j \<le> i") (simp_all add: nth)
    show "fmlookup (db_height s') (u64_to_le (of_nat j)) = Some (as_bytes (fst (ch' ! j)))" if "j < length ch'" for j
    proof -
      have "unat (of_nat j :: u64) = j" using big [OF that] by (simp add: unat_of_nat)
      then show ?thesis using that len canonicalD(3) [OF can old, of j] by (simp add: nth idx)
    qed
    show "prev_hash (fst (snd (ch' ! Suc j))) = fst (ch' ! j)" if "Suc j < length ch'" for j
    proof -
      consider "Suc j \<le> i" | "j = i" | "i < j" by linarith
      then show ?thesis
      proof cases
        case 1
        then show ?thesis using canonicalD(4) [OF can, of j] old by (simp add: nth)
      next
        case 2
        then show ?thesis using rh(3) [of 0] that len by (simp add: nth)
      next
        case 3
        then show ?thesis using rh(3) [of "Suc j - Suc i"] that len by (simp add: nth)
      qed
    qed
    show "fmlookup (db_height s') (u64_to_le x) = None" if "length ch' \<le> unat x" for x :: u64
      using that len by (simp add: idx)
    show "ch' \<noteq> [] \<and> x = fst (ch' ! 0)" if "stored B m s' (x, h, ob)" "hgt h = 0" for x h ob
      using that canonical_genesis [OF can, of x h ob] len by (auto simp: nth st)
  qed
  then show ?thesis by (simp add: ch'_def)
qed

section \<open>A promotion\<close>

abbreviation bodies :: "chain_entry list \<Rightarrow> (hash256 \<times> block) list" where
  "bodies es \<equiv> map (\<lambda>(k, h, ob). (k, the ob)) es"

lemma bodies_blocks:
  assumes "\<forall>e \<in> set es. snd (snd e) \<noteq> None"
  shows "map snd (bodies es) = chain_blocks es" "concat (map (block_kernels \<circ> snd) (bodies es)) = chain_kernels es"
  using assms by (induction es) (auto simp: chain_blocks_def chain_kernels_def)

lemma bodies_stored:
  assumes "\<forall>e \<in> set es. snd (snd e) \<noteq> None \<and> stored B m s e" "d \<in> set (bodies es)"
  shows "body_distinct (snd d)" "hash256_ok (fst d)" "\<exists>h. (fst d, h, Some (snd d)) \<in> set es \<and> header (snd d) = h"
proof -
  obtain k h b where e: "(k, h, Some b) \<in> set es" "d = (k, b)" using assms by fastforce
  then have st: "stored B m s (k, h, Some b)" using assms(1) by blast
  show "body_distinct (snd d)" "hash256_ok (fst d)" "\<exists>h. (fst d, h, Some (snd d)) \<in> set es \<and> header (snd d) = h"
    using e stored_block(4,7) [OF st] stored_lookup(3) [OF st] by auto
qed

definition indexes :: "(bytes \<times> bytes \<Rightarrow> bool) \<Rightarrow> kernel_overlay \<Rightarrow> bool" where
  "indexes P ov \<longleftrightarrow> (\<forall>c v. fmlookup ov c = Some (Some v) \<longrightarrow> P (c, v))"

lemma indexes_upd: "indexes P ov \<Longrightarrow> (\<And>v. x = Some v \<Longrightarrow> P (c, v)) \<Longrightarrow> indexes P (fmupd c x ov)"
  by (auto simp: indexes_def)

lemma indexes_clear: "indexes P ov \<Longrightarrow> indexes P (foldl (\<lambda>m (x, _). fmupd x None m) ov xs)"
  by (induction xs arbitrary: ov) (auto intro: indexes_upd)

lemma disconnect_indexes:
  "try_fold (apply_disconnect B s a idx) ov ds = Ok ov' \<Longrightarrow> indexes P (snd ov) \<Longrightarrow> indexes P (snd ov')"
proof (induction ds arbitrary: ov)
  case (Cons d ds)
  obtain ov1 where o: "apply_disconnect B s a idx ov d = Ok ov1" "try_fold (apply_disconnect B s a idx) ov1 ds = Ok ov'"
    using Cons.prems(1) by auto
  have "indexes P (snd ov1)"
    using o(1) Cons.prems(2) by (auto simp: apply_disconnect_def indexes_clear split: prod.splits)
  then show ?case using Cons.IH [OF o(2)] by blast
qed simp

lemma connect_kernel_indexes:
  "try_fold (connect_kernel s) ov xs = Ok ov' \<Longrightarrow> indexes P ov \<Longrightarrow> \<forall>x \<in> set xs. P x
    \<Longrightarrow> indexes P ov' \<and> (fmlookup ov' c = None \<longrightarrow> fmlookup ov c = None)"
proof (induction xs arbitrary: ov)
  case (Cons x xs)
  obtain ov1 where o: "connect_kernel s ov x = Ok ov1" "try_fold (connect_kernel s) ov1 xs = Ok ov'" using Cons.prems(1) by auto
  note u = connect_kernel_Ok [OF o(1)]
  have "indexes P ov1" using u Cons.prems(2,3) by (auto intro: indexes_upd)
  then show ?case using Cons.IH [OF o(2)] Cons.prems(3) u by (auto split: if_splits)
qed simp

lemma connect_indexes:
  "try_fold (apply_connect s mat) ov cs = Ok ov' \<Longrightarrow> indexes P (snd ov)
    \<Longrightarrow> \<forall>d \<in> set cs. \<forall>x \<in> set (extract_kernel_excesses (snd d) (fst d)). P x
    \<Longrightarrow> indexes P (snd ov') \<and> (fmlookup (snd ov') c = None \<longrightarrow> fmlookup (snd ov) c = None)"
proof (induction cs arbitrary: ov)
  case (Cons d cs)
  obtain h b where d: "d = (h, b)" by (cases d)
  obtain ov1 where o: "apply_connect s mat ov (h, b) = Ok ov1" "try_fold (apply_connect s mat) ov1 cs = Ok ov'"
    using Cons.prems(1) by (auto simp: d)
  have "indexes P (snd ov1) \<and> (fmlookup (snd ov1) c = None \<longrightarrow> fmlookup (snd ov) c = None)"
    using apply_connect_Ok [OF o(1)] connect_kernel_indexes [OF _ Cons.prems(2)] Cons.prems(3) by (auto simp: d)
  then show ?case using Cons.IH [OF o(2)] Cons.prems(3) by simp
qed simp

lemma bodies_index:
  assumes "d \<in> set (bodies es)" "\<forall>e \<in> set es. snd (snd e) \<noteq> None" "x \<in> set (extract_kernel_excesses (snd d) (fst d))"
  shows "x \<in> set (chain_index es)"
  using assms by (force simp: chain_index_def)

lemma overlays_ledger:
  assumes led: "ledger_ok s ch" and s: "s = cs_store cs"
    and some: "\<forall>e \<in> set (drop (Suc i) ch @ es). snd (snd e) \<noteq> None \<and> stored B m s e"
    and ov: "reorg_overlays B cs a (bodies (rev (drop (Suc i) ch))) (bodies (rev es)) = Ok ov"
    and u: "build_utxo_updates s (fst ov) = Ok us" "db_utxos s' = foldl put_or_delete (db_utxos s) us"
    and k: "build_kernel_updates s (snd ov) = Ok ks" "db_kernels s' = foldl put_or_delete (db_kernels s) ks"
  shows "ledger_ok s' (take (Suc i) ch @ rev es)"
proof -
  let ?D = "fmdom' (db_utxos s)" and ?K = "fmdom' (db_kernels s)"
  let ?ds = "bodies (rev (drop (Suc i) ch))" and ?cs = "bodies (rev es)" and ?old = "take (Suc i) ch"
  define idx where "idx = foldl (\<lambda>m (_, b). record_block_outputs m b) fmempty ?ds"
  obtain ov1 where o1: "try_fold (apply_disconnect B s a idx) (fmempty, fmempty) ?ds = Ok ov1"
    and o2: "try_fold (apply_connect s (coinbase_maturity cs)) ov1 ?cs = Ok ov"
    using ov by (auto simp: reorg_overlays_def Let_def idx_def s)
  have dsd: "\<forall>d \<in> set ?ds. body_distinct (snd d)" and csd: "\<forall>d \<in> set ?cs. body_distinct (snd d) \<and> hash256_ok (fst d)"
    using some bodies_stored [of "rev (drop (Suc i) ch)" B m s] bodies_stored [of "rev es" B m s] by auto
  have bl: "chain_blocks ch = chain_blocks ?old @ chain_blocks (drop (Suc i) ch)"
    and kl: "chain_kernels ch = chain_kernels ?old @ chain_kernels (drop (Suc i) ch)"
    by (simp_all flip: chain_blocks_simps(3) chain_kernels_simps(3))
  obtain L where L: "ledger {} (chain_blocks ?old) = Some L" "ledger L (chain_blocks (drop (Suc i) ch)) = Some ?D"
    using led unfolding ledger_ok_def bl by (auto simp: ledger_append bind_eq_Some_conv)
  have "map snd (rev ?ds) = chain_blocks (drop (Suc i) ch)"
    using bodies_blocks(1) [of "drop (Suc i) ch"] some by (simp add: rev_map)
  then have v1: "view ?D (fst ov1) = L" "view ?K (snd ov1) = ?K - (\<Union>d \<in> set ?ds. set (block_kernels (snd d)))"
    using disconnect_view [OF o1 dsd, of L ?D ?K] L(2) by simp_all
  have ks: "(\<Union>d \<in> set ?ds. set (block_kernels (snd d))) = set (chain_kernels (drop (Suc i) ch))"
    using arg_cong [OF bodies_blocks(2) [of "drop (Suc i) ch"], of set] some by (simp add: image_comp comp_def)
  have kd: "distinct (chain_kernels ?old @ chain_kernels (drop (Suc i) ch))"
      "?K = set (chain_kernels ?old) \<union> set (chain_kernels (drop (Suc i) ch))"
    using led unfolding ledger_ok_def kl by simp_all
  have "?K - set (chain_kernels (drop (Suc i) ch)) = set (chain_kernels ?old)" using kd by auto
  then have v2: "view ?K (snd ov1) = set (chain_kernels ?old)" using v1(2) ks by simp
  have es: "\<forall>e \<in> set (rev es). snd (snd e) \<noteq> None" using some by simp
  note c = connect_view [OF o2, unfolded bodies_blocks [OF es]]
  have fin: "ledger {} (chain_blocks (?old @ rev es)) = Some (fmdom' (db_utxos s'))"
    using c csd L(1) v1(1) utxo_updates_effect(1) [OF u] by (simp add: ledger_append)
  have val: "\<exists>e. v = UtxoEntry_to_bytes e" if "fmlookup (db_utxos s') x = Some v" for x v
    using utxo_updates_effect(2) [OF u that] led unfolding ledger_ok_def by blast
  have kk: "distinct (chain_kernels (?old @ rev es))" "fmdom' (db_kernels s') = set (chain_kernels (?old @ rev es))"
    using c csd v2 kd(1) kernel_updates_effect(1) [OF k] by auto
  let ?P = "\<lambda>y. length (snd y) = 32 \<and> y \<in> set (chain_index (rev es))"
  have new: "\<forall>d \<in> set ?cs. \<forall>y \<in> set (extract_kernel_excesses (snd d) (fst d)). ?P y"
    using csd kernel_values bodies_index [OF _ es] by (metis hash256_ok_def)
  have "indexes ?P (snd ov1)" using disconnect_indexes [OF o1, of ?P] by (simp add: indexes_def)
  then have P: "indexes ?P (snd ov)" and keep: "fmlookup (snd ov) x = None \<Longrightarrow> fmlookup (snd ov1) x = None" for x
    using connect_indexes [OF o2 _ new] by blast+
  have "length v = 32 \<and> (x, v) \<in> set (chain_index (?old @ rev es))" if l: "fmlookup (db_kernels s') x = Some v" for x v
    using kernel_updates_effect(2) [OF k l]
  proof
    assume o: "fmlookup (snd ov) x = None \<and> fmlookup (db_kernels s) x = Some v"
    then have "x \<in> view ?K (snd ov1)" using keep by (simp add: view_def fmlookup_dom'_iff)
    then have "x \<notin> set (chain_kernels (drop (Suc i) ch))" using v2 kd(1) by auto
    moreover have "length v = 32 \<and> (x, v) \<in> set (chain_index ch)" using o led unfolding ledger_ok_def by blast
    moreover have "chain_index ch = chain_index ?old @ chain_index (drop (Suc i) ch)" by (simp flip: chain_index_simps(3))
    ultimately show ?thesis by (force simp flip: chain_index_keys)
  qed (use P in \<open>auto simp: indexes_def\<close>)
  then show ?thesis using fin val kk unfolding ledger_ok_def by blast
qed

lemma better_not_tip:
  assumes "chain_ok B cs ch" "ch \<noteq> []" "stored B (magic cs) (cs_store cs) (t, th, tob)"
    and "is_better_fork_choice_tip (total_difficulty th) t (tip_difficulty cs) (tip_hash cs)"
  shows "t \<noteq> tip_hash cs"
proof
  assume t: "t = tip_hash cs"
  have can: "canonical B (magic cs) (cs_store cs) ch" and tip: "tip_ok cs ch" using assms(1) by (simp_all add: chain_ok_def)
  have "stored B (magic cs) (cs_store cs) (last ch)" using canonicalD(1) [OF can, of "length ch - 1"] assms(2) by (simp add: last_conv_nth)
  then have "th = fst (snd (last ch))" using stored_unique assms(3) t tip assms(2) unfolding tip_ok_def by (metis prod.collapse)
  then have "total_difficulty th = tip_difficulty cs" using tip assms(2) by (simp add: tip_ok_def)
  then show False using assms(4) t by (simp add: is_better_fork_choice_tip_def)
qed

lemma reorg_ancestor_Ok:
  assumes ok: "chain_ok B cs ch" "ch \<noteq> []" and r: "reorg_ancestor cs t = Ok (anc, ah)"
  obtains i es where "i < length ch" "anc = fst (ch ! i)" "unat ah = i" "anc \<noteq> Hash256_ZERO"
    "branch B (magic cs) (cs_store cs) t es anc" "length es \<le> 1000" "length ch \<le> i + 1001" "\<forall>e \<in> set es. fst e \<noteq> anc"
proof -
  have so: "store_ok B (magic cs) (cs_store cs)" and can: "canonical B (magic cs) (cs_store cs) ch" and tip: "tip_ok cs ch"
    using ok(1) by (simp_all add: chain_ok_def)
  have tl: "tip_hash cs = fst (last ch)" using tip ok(2) by (simp add: tip_ok_def)
  have f: "find_common_ancestor (cs_store cs) (fst (last ch)) t = Ok (Some anc)" "anc \<noteq> Hash256_ZERO"
    using r by (auto simp: reorg_ancestor_def tl bind_eq_Some_conv split: if_splits)
  obtain i es where i: "i < length ch" "anc = fst (ch ! i)" "branch B (magic cs) (cs_store cs) t es anc" "length es \<le> 1000"
      "length ch \<le> i + 1001" "\<forall>e \<in> set es. fst e \<noteq> anc"
    using find_common_ancestor_Some [OF so can ok(2) f] by metis
  obtain k h ob where a: "ch ! i = (k, h, ob)" "stored B (magic cs) (cs_store cs) (k, h, ob)" "hgt h = i"
    using canonical_nth [OF can i(1)] by metis
  have "unat ah = i"
  proof (cases "anc = tip_hash cs")
    case True
    then have "i = length ch - 1"
      using canonical_keys_inject [OF can i(1), of "length ch - 1"] i(2) tl ok(2) by (simp add: last_conv_nth)
    moreover have "ah = height_val (tip_height cs)" using r True f by (simp add: reorg_ancestor_def tl)
    ultimately show ?thesis using tip_height_nat(2) [OF can tip ok(2)] by simp
  next
    case False
    then have "\<exists>h'. stored_header (cs_store cs) anc (Internal ''reorg ancestor header missing'') = Ok h' \<and> ah = height_val (height h')"
      using r f by (auto simp: reorg_ancestor_def tl split: if_splits)
    moreover have "stored_header (cs_store cs) anc (Internal ''reorg ancestor header missing'') = Ok h"
      using stored_header_Ok [OF so] a i(2) by auto
    ultimately show ?thesis using a(3) by auto
  qed
  then show ?thesis using that i f(2) by blast
qed

lemma reorg_ancestor_tip:
  assumes "store_ok B (magic cs) (cs_store cs)" "reorg_ancestor cs t = Ok (anc, ah)"
  shows "tip_hash cs \<noteq> Hash256_ZERO"
proof
  assume z: "tip_hash cs = Hash256_ZERO"
  have f: "find_common_ancestor (cs_store cs) Hash256_ZERO t = Ok (Some anc)" "anc \<noteq> Hash256_ZERO"
    using assms(2) by (auto simp: reorg_ancestor_def z bind_eq_Some_conv split: if_splits)
  have "our_walk s (Suc n) Hash256_ZERO {} = Ok {Hash256_ZERO}" for s n by simp
  then have "anc \<in> {Hash256_ZERO}"
    using f their_walk_branch [OF assms(1), of "{Hash256_ZERO}" "Suc (unat MAX_REORG_DEPTH_POLICY)" t anc]
    by (auto simp: find_common_ancestor_def Let_def simp del: our_walk.simps their_walk.simps split: if_splits)
  then show False using f(2) by simp
qed

lemma branch_bodies:
  assumes "canonical B m s ch" "store_ok B m s" "i < length ch" "fst (ch ! i) \<noteq> Hash256_ZERO"
    and "branch B m s t es (fst (ch ! i))" "e \<in> set es"
  shows "snd (snd e) \<noteq> None \<and> stored B m s e"
proof -
  obtain j where j: "j < length es" "rev es ! j = e" using assms(6) by (metis in_set_conv_nth length_rev set_rev)
  obtain k h ob where e: "e = (k, h, ob)" by (metis prod_cases3)
  have "hgt h = Suc i + j" "stored B m s (k, h, ob)"
    using branch_rev_height(1,2) [OF assms(5,1,2,3,4) j(1)] j(2) e by simp_all
  then show ?thesis using stored_above_genesis [of B m s k h ob] by (auto simp: e)
qed

lemma reorg_walks:
  assumes ok: "chain_ok B cs ch" "ch \<noteq> []" and a: "reorg_ancestor cs t = Ok (anc, ah)"
    and n: "BRANCH_WALK_STEPS \<le> n"
  obtains i es where "i < length ch" "unat ah = i" "anc = fst (ch ! i)" "anc \<noteq> Hash256_ZERO"
    "branch B (magic cs) (cs_store cs) t es anc" "length es \<le> 1000"
    "\<forall>e \<in> set (drop (Suc i) ch @ es). snd (snd e) \<noteq> None \<and> stored B (magic cs) (cs_store cs) e"
    "validate_branch_header_syntax (cs_store cs) (magic cs) anc n t = Ok ()"
    "collect_branch_blocks B (cs_store cs) anc n t = Ok (bodies es)"
    "collect_branch_blocks B (cs_store cs) anc n (tip_hash cs) = Ok (bodies (rev (drop (Suc i) ch)))"
proof -
  have so: "store_ok B (magic cs) (cs_store cs)" and can: "canonical B (magic cs) (cs_store cs) ch" and tip: "tip_ok cs ch"
    using ok(1) by (simp_all add: chain_ok_def)
  obtain i es where i: "i < length ch" "anc = fst (ch ! i)" "unat ah = i" "anc \<noteq> Hash256_ZERO"
    "branch B (magic cs) (cs_store cs) t es anc" "length es \<le> 1000" "length ch \<le> i + 1001" "\<forall>e \<in> set es. fst e \<noteq> anc"
    using reorg_ancestor_Ok [OF ok a] by metis
  have steps: "1000 \<le> n" using n by (simp add: BRANCH_WALK_STEPS_def MAX_REORG_DEPTH_POLICY_def)
  have nz: "fst (ch ! i) \<noteq> Hash256_ZERO" using i(2,4) by simp
  have es: "\<forall>e \<in> set es. snd (snd e) \<noteq> None \<and> stored B (magic cs) (cs_store cs) e"
    using branch_bodies [OF can so i(1) nz] i(2,5) by blast
  have tl: "tip_hash cs = fst (ch ! (length ch - 1))" using tip ok(2) by (simp add: tip_ok_def last_conv_nth)
  have tnz: "fst (ch ! (length ch - 1)) \<noteq> Hash256_ZERO" using reorg_ancestor_tip [OF so a] tl by simp
  have b1: "branch B (magic cs) (cs_store cs) (tip_hash cs) (rev (drop (Suc i) ch)) anc"
    using canonical_branch [OF can, of "length ch - 1" i] i(1,2) tnz tl ok(2) by simp
  have old: "\<forall>e \<in> set (drop (Suc i) ch). snd (snd e) \<noteq> None \<and> stored B (magic cs) (cs_store cs) e"
    using branch_bodies [OF can so i(1) nz, of "tip_hash cs" "rev (drop (Suc i) ch)"] b1 i(2) by auto
  have fresh: "\<forall>e \<in> set (rev (drop (Suc i) ch)). fst e \<noteq> anc"
  proof
    fix e assume "e \<in> set (rev (drop (Suc i) ch))"
    then obtain j where "j < length (drop (Suc i) ch)" "e = drop (Suc i) ch ! j" by (metis in_set_conv_nth set_rev)
    then have "Suc i + j < length ch" "e = ch ! (Suc i + j)" using i(1) by simp_all
    then show "fst e \<noteq> anc" using canonical_keys_inject [OF can i(1), of "Suc i + j"] i(2) by auto
  qed
  have "collect_branch_blocks B (cs_store cs) anc n (tip_hash cs) = Ok (bodies (rev (drop (Suc i) ch)))"
    using branch_collect [OF b1 fresh] old i(1,7) steps by simp
  moreover have "collect_branch_blocks B (cs_store cs) anc n t = Ok (bodies es)"
    using branch_collect [OF i(5,8)] es i(6) steps by simp
  moreover have "validate_branch_header_syntax (cs_store cs) (magic cs) anc n t = Ok ()"
    using branch_syntax_valid [OF i(5,8)] es i(6) steps by simp
  ultimately show ?thesis using i es old by (intro that [of i es]) auto
qed

lemma reorg_branches_Ok:
  assumes ok: "chain_ok B cs ch" "ch \<noteq> []"
    and r: "reorg_branches B cs t th now = Ok (ah, ds, cs')"
  obtains i es where "i < length ch" "unat ah = i" "fst (ch ! i) \<noteq> Hash256_ZERO"
    "branch B (magic cs) (cs_store cs) t es (fst (ch ! i))"
    "ds = bodies (rev (drop (Suc i) ch))" "cs' = bodies (rev es)"
    "\<forall>e \<in> set (drop (Suc i) ch @ es). snd (snd e) \<noteq> None \<and> stored B (magic cs) (cs_store cs) e"
    "is_better_fork_choice_tip (total_difficulty th) t (tip_difficulty cs) (tip_hash cs)"
    "length es \<le> 1000" "360 \<le> length ch - 1 \<Longrightarrow> length ch - Suc i < 360"
proof -
  have can: "canonical B (magic cs) (cs_store cs) ch" and tip: "tip_ok cs ch" using ok(1) by (simp_all add: chain_ok_def)
  obtain anc depth br where a: "reorg_ancestor cs t = Ok (anc, ah)"
    and better: "is_better_fork_choice_tip (total_difficulty th) t (tip_difficulty cs) (tip_hash cs)"
    and depth: "checked_sub (height_val (tip_height cs)) ah = Some depth"
      "check_rolling_finality (height_val (tip_height cs)) depth = Ok ()"
    and ds: "collect_branch_blocks B (cs_store cs) anc BRANCH_WALK_STEPS (tip_hash cs) = Ok ds"
    and br: "collect_branch_blocks B (cs_store cs) anc BRANCH_WALK_STEPS t = Ok br" "cs' = rev br"
    using r by (auto simp: reorg_branches_def Let_def split: if_splits prod.splits)
  obtain i es where i: "i < length ch" "unat ah = i" "anc = fst (ch ! i)" "anc \<noteq> Hash256_ZERO"
    "branch B (magic cs) (cs_store cs) t es anc" "length es \<le> 1000"
    "\<forall>e \<in> set (drop (Suc i) ch @ es). snd (snd e) \<noteq> None \<and> stored B (magic cs) (cs_store cs) e"
    "collect_branch_blocks B (cs_store cs) anc BRANCH_WALK_STEPS t = Ok (bodies es)"
    "collect_branch_blocks B (cs_store cs) anc BRANCH_WALK_STEPS (tip_hash cs) = Ok (bodies (rev (drop (Suc i) ch)))"
    using reorg_walks [OF ok a order_refl] by metis
  have "length ch - Suc i < 360" if "360 \<le> length ch - 1"
    using depth tip_height_nat(2) [OF can tip ok(2)] that i(2)
    by (auto simp: check_rolling_finality_def MAX_REORG_DEPTH_def checked_sub_eq_Some word_le_nat_alt split: if_splits)
  then show ?thesis using i ds br better by (intro that [of i es]) (auto simp: rev_map)
qed

lemma promote_cases:
  assumes "promote_heavier_known_tip B io cs t now = (cs', q)"
  shows "cs' = cs \<and> \<not> is_ok q \<or>
    (\<exists>th ah ds bs us ks ov hs s. stored_header (cs_store cs) t (Internal ''reorg target header missing'') = Ok th
      \<and> reorg_branches B cs t th now = Ok (ah, ds, bs) \<and> reorg_overlays B cs ah ds bs = Ok ov
      \<and> build_height_updates ah (height_val (tip_height cs)) bs = Ok hs
      \<and> build_utxo_updates (cs_store cs) (fst ov) = Ok us \<and> build_kernel_updates (cs_store cs) (snd ov) = Ok ks
      \<and> apply_reorg (io 0) (cs_store cs) (as_bytes t) hs us ks = Ok s
      \<and> (cs' = with_tip cs s t th \<and> \<not> is_ok q \<or>
         (\<exists>s'. prune_retained_side_chains (io 1) s (height th) (as_bytes t) = Ok s'
           \<and> cs' = (with_tip cs s t th)\<lparr>cs_store := s'\<rparr> \<and> q = Ok (build_reorg_delta ah ds bs))))"
  using assms unfolding promote_heavier_known_tip_def Let_def try_in_cases split_paired_all case_prod_beta
  by (auto simp: with_tip_def)

lemma find_height_nth:
  assumes "\<And>j. j < length bs \<Longrightarrow> unat (f (bs ! j)) = n + j"
  shows "find (\<lambda>b. f b = x) bs = (if n \<le> unat x \<and> unat x < n + length bs then Some (bs ! (unat x - n)) else None)"
  using assms
proof (induction bs arbitrary: n)
  case (Cons b bs)
  have b: "unat (f b) = n" using Cons.prems [of 0] by simp
  have IH: "find (\<lambda>b. f b = x) bs = (if Suc n \<le> unat x \<and> unat x < Suc n + length bs then Some (bs ! (unat x - Suc n)) else None)"
    using Cons.prems [of "Suc j" for j] by (intro Cons.IH) simp
  have "f b = x \<longleftrightarrow> unat x = n" using b by (metis word_unat_eq_iff)
  then show ?case using b by (auto simp: IH nth_Cons')
qed simp

lemma bodies_heights:
  assumes "canonical B m s ch" "store_ok B m s" "i < length ch" "fst (ch ! i) \<noteq> Hash256_ZERO" "branch B m s t es (fst (ch ! i))"
    and "j < length (bodies (rev es))"
  shows "hgt (header (snd (bodies (rev es) ! j))) = Suc i + j" "fst (bodies (rev es) ! j) = fst (rev es ! j)"
proof -
  have j: "j < length es" using assms(6) by simp
  obtain k h ob where e: "rev es ! j = (k, h, ob)" by (metis prod_cases3)
  have "e \<in> set es \<Longrightarrow> snd (snd e) \<noteq> None" for e using branch_bodies [OF assms(1-5)] by blast
  then obtain b where b: "ob = Some b" using e j by (metis length_rev not_None_eq nth_mem set_rev snd_conv)
  have st: "stored B m s (k, h, Some b)" and "hgt h = Suc i + j"
    using branch_rev_height(1,2) [OF assms(5,1-4) j] e b by simp_all
  then show "hgt (header (snd (bodies (rev es) ! j))) = Suc i + j" "fst (bodies (rev es) ! j) = fst (rev es ! j)"
    using stored_block(4) [OF st] j e b by simp_all
qed

lemma reorg_index:
  assumes can: "canonical B m s ch" and so: "store_ok B m s" and i: "i < length ch" and nz: "fst (ch ! i) \<noteq> Hash256_ZERO"
    and br: "branch B m s t es (fst (ch ! i))"
    and up: "build_height_updates ah n (bodies (rev es)) = Ok hs" "unat ah = i" "unat n = length ch - 1"
    and db: "db' = foldl put_or_delete (db_height s) (map (\<lambda>(h, v). (u64_to_le h, v)) hs)"
  shows "fmlookup db' (u64_to_le x) = (if unat x \<le> i then fmlookup (db_height s) (u64_to_le x)
       else if unat x \<le> i + length es then Some (as_bytes (fst (rev es ! (unat x - Suc i)))) else None)"
proof -
  define bs where "bs = bodies (rev es)"
  define f where "f = (\<lambda>b :: hash256 \<times> block. height_val (height (header (snd b))))"
  have len: "length bs = length es" by (simp add: bs_def)
  have h: "unat (f (bs ! j)) = Suc i + j" and k: "fst (bs ! j) = fst (rev es ! j)" if "j < length bs" for j
    using bodies_heights [OF can so i nz br, of j] that unfolding bs_def f_def by blast+
  have dist: "distinct (map f bs)"
    unfolding distinct_conv_nth
  proof (intro allI impI)
    fix j j' assume "j < length (map f bs)" "j' < length (map f bs)" "j \<noteq> j'"
    then show "map f bs ! j \<noteq> map f bs ! j'" using h [of j] h [of j'] by (metis add_left_cancel length_map nth_map)
  qed
  have fd: "find (\<lambda>b. f b = x) bs = (if Suc i \<le> unat x \<and> unat x < Suc i + length bs then Some (bs ! (unat x - Suc i)) else None)"
    by (rule find_height_nth) (rule h)
  have eff: "fmlookup db' (u64_to_le x) = (case find (\<lambda>b. f b = x) bs of Some b \<Rightarrow> Some (as_bytes (fst b))
      | None \<Rightarrow> if i < unat x \<and> unat x \<le> length ch - 1 then None else fmlookup (db_height s) (u64_to_le x))"
    using height_updates_effect [OF up(1) _ db, of x] dist unfolding bs_def f_def up(2,3) by blast
  have none: "fmlookup (db_height s) (u64_to_le x) = None" if "length ch - 1 < unat x"
    using canonicalD(5) [OF can, of x] that by simp
  consider "unat x \<le> i" | "i < unat x" "unat x \<le> i + length es" | "i + length es < unat x" by linarith
  then show ?thesis
  proof cases
    case 2
    then show ?thesis using eff fd k [of "unat x - Suc i"] len by simp
  next
    case 3
    then show ?thesis using eff fd none len by (simp add: not_le)
  qed (use eff fd in simp)
qed

lemma promote_ok:
  assumes ok: "chain_ok B cs ch" "ch \<noteq> []" and p: "promote_heavier_known_tip B io cs t now = (cs', q)"
  shows "cs' = cs \<and> \<not> is_ok q \<or> (\<exists>i es. i < length ch \<and> chain_ok B cs' (take (Suc i) ch @ rev es)
    \<and> (360 \<le> length ch - 1 \<longrightarrow> length ch - Suc i < 360) \<and> tip_hash cs' = t
    \<and> is_better_fork_choice_tip (tip_difficulty cs') (tip_hash cs') (tip_difficulty cs) (tip_hash cs))"
proof (cases "cs' = cs \<and> \<not> is_ok q")
  case False
  let ?s = "cs_store cs"
  obtain th ah ds bs us ks ov hs s where
    th: "stored_header ?s t (Internal ''reorg target header missing'') = Ok th"
    and rb: "reorg_branches B cs t th now = Ok (ah, ds, bs)" and ov: "reorg_overlays B cs ah ds bs = Ok ov"
    and hs: "build_height_updates ah (height_val (tip_height cs)) bs = Ok hs"
    and us: "build_utxo_updates ?s (fst ov) = Ok us" and ks: "build_kernel_updates ?s (snd ov) = Ok ks"
    and s: "apply_reorg (io 0) ?s (as_bytes t) hs us ks = Ok s"
    and out: "cs' = with_tip cs s t th \<or>
         (\<exists>s'. prune_retained_side_chains (io 1) s (height th) (as_bytes t) = Ok s' \<and> cs' = (with_tip cs s t th)\<lparr>cs_store := s'\<rparr>)"
    using promote_cases [OF p] False by blast
  have so: "store_ok B (magic cs) ?s" and can: "canonical B (magic cs) ?s ch" and tip: "tip_ok cs ch" and led: "ledger_ok ?s ch"
    and net: "known_network_magic (magic cs)"
    using ok(1) by (simp_all add: chain_ok_def)
  obtain i es where i: "i < length ch" "unat ah = i" "fst (ch ! i) \<noteq> Hash256_ZERO"
    "branch B (magic cs) ?s t es (fst (ch ! i))" "ds = bodies (rev (drop (Suc i) ch))" "bs = bodies (rev es)"
    "\<forall>e \<in> set (drop (Suc i) ch @ es). snd (snd e) \<noteq> None \<and> stored B (magic cs) ?s e"
    and better: "is_better_fork_choice_tip (total_difficulty th) t (tip_difficulty cs) (tip_hash cs)"
    and fin: "360 \<le> length ch - 1 \<Longrightarrow> length ch - Suc i < 360"
    using reorg_branches_Ok [OF ok rb] by metis
  let ?ch = "take (Suc i) ch @ rev es"
  have ne: "?ch \<noteq> []" using i(1) by auto
  have sd: "db_blocks s = db_blocks ?s" "db_block_bodies s = db_block_bodies ?s" "db_tip s = Some (as_bytes t)"
    "db_height s = foldl put_or_delete (db_height ?s) (map (\<lambda>(h, v). (u64_to_le h, v)) hs)"
    "db_utxos s = foldl put_or_delete (db_utxos ?s) us" "db_kernels s = foldl put_or_delete (db_kernels ?s) ks"
    using s by (simp_all add: apply_reorg_def)
  have "ledger_ok s ?ch" by (rule overlays_ledger [OF led refl i(7) ov [unfolded i(5,6)] us sd(5) ks sd(6)])
  moreover have can': "canonical B (magic cs) s ?ch"
    by (rule canonical_switch [OF can so i(1,4,3) sd(1,2)])
      (rule reorg_index [OF can so i(1,3,4) hs [unfolded i(6)] i(2) tip_height_nat(2) [OF can tip ok(2)] sd(4)])
  moreover have "store_ok B (magic cs) s" using so by (simp only: store_ok_def sd(1) stored_same [OF sd(1,2)])
  moreover have "fst (last ?ch) = t \<and> fst (snd (last ?ch)) = th"
  proof -
    have "stored B (magic cs) s (last ?ch)" using canonical_last [OF can' ne] .
    then have l: "stored B (magic cs) ?s (last ?ch)" using stored_same [OF sd(1,2)] by blast
    have "fst (last ?ch) = t"
      using branch_link(2,3) [OF i(4)] i(1) by (cases "es = []") (simp_all add: last_append last_rev take_Suc_conv_app_nth)
    then show ?thesis using l th stored_header_Ok [OF so] stored_unique by (metis prod.collapse)
  qed
  ultimately have tipok: "chain_ok B (with_tip cs s t th) ?ch"
    using net ne by (simp only: chain_ok_def tip_ok_def with_tip_def) (simp add: sd(3))
  have "chain_ok B cs' ?ch" using out tipok prune_ok [OF tipok ne, of "io 1"] by (auto simp: with_tip_def)
  moreover have "tip_hash cs' = t" "tip_difficulty cs' = total_difficulty th" using out by (auto simp: with_tip_def)
  ultimately show ?thesis using i(1) fin better by metis
qed simp

end
