(* ===== verification/Chain_Reach.thy ===== *)
theory Chain_Reach
  imports Reorg
begin

text \<open>
  The life of a chain state: connecting blocks, replaying the canonical chain, opening and
  reopening a store, the first block, and the states reachable by them.  Every reachable state
  satisfies the invariant, whatever writes fail; pruning never fails by itself, and neither
  does reopening with the repair option when the configured genesis is the stored one.
\<close>

section \<open>Connecting a block\<close>

text \<open>How the canonical chain may change: not at all, by one block, or from a recent ancestor on.\<close>

definition chain_moves :: "chain_entry list \<Rightarrow> chain_entry list \<Rightarrow> bool" where
  "chain_moves ch ch' \<longleftrightarrow> ch' = ch \<or> (\<exists>e. ch' = ch @ [e])
    \<or> (\<exists>i es. i < length ch \<and> ch' = take (Suc i) ch @ rev es \<and> (360 \<le> length ch - 1 \<longrightarrow> length ch - Suc i < 360))"

definition tip_improves :: "chain_state \<Rightarrow> chain_state \<Rightarrow> bool" where
  "tip_improves cs cs' \<longleftrightarrow>
    tip_hash cs' = tip_hash cs \<and> tip_height cs' = tip_height cs \<and> tip_difficulty cs' = tip_difficulty cs
    \<or> is_better_fork_choice_tip (tip_difficulty cs') (tip_hash cs') (tip_difficulty cs) (tip_hash cs)"

lemma chain_ok_fields:
  assumes "chain_ok B cs ch"
  shows "known_network_magic (magic cs)" "store_ok B (magic cs) (cs_store cs)" "canonical B (magic cs) (cs_store cs) ch"
    "ledger_ok (cs_store cs) ch" "tip_ok cs ch"
  using assms by (simp_all add: chain_ok_def)

lemma connect_side_ok:
  assumes ok: "chain_ok B cs ch" and arr: "block_arrives B (magic cs) (cs_store cs) k b" "0 < hgt (header b)"
    and c: "connect_side B io cs b k (enc_header (header b)) (enc_block b) ext now = (cs', q)"
  shows "\<exists>ch'. chain_ok B cs' ch' \<and> chain_moves ch ch' \<and> tip_improves cs cs'"
proof -
  have ne: "ch \<noteq> []" using arr store_empty [OF chain_ok_fields(2) [OF ok]] chain_ok_fields(3) [OF ok]
    by (auto simp: block_arrives_def)
  have same: "chain_moves ch ch" "tip_improves cs cs" by (simp_all add: chain_moves_def tip_improves_def)
  show ?thesis
  proof (cases "store_known_block (io 0) (cs_store cs) (as_bytes k) (enc_header (header b)) (enc_block b)")
    case (Ok s)
    define cs1 where "cs1 = cs\<lparr>cs_store := s\<rparr>"
    have ok1: "chain_ok B cs1 ch" using store_known_ok(1) [OF ok arr Ok] by (simp add: cs1_def)
    have t1: "tip_improves cs cs1" by (simp add: tip_improves_def cs1_def)
    show ?thesis
    proof (cases "prune_retained_side_chains (io 1) s (tip_height cs1) (as_bytes (tip_hash cs1))")
      case p: (Ok s2)
      define cs2 where "cs2 = cs1\<lparr>cs_store := s2\<rparr>"
      have ok2: "chain_ok B cs2 ch" using prune_ok [OF ok1 ne] p by (simp add: cs1_def cs2_def)
      have same2: "tip_improves cs cs2" "\<And>x. tip_improves cs2 x \<longleftrightarrow> tip_improves cs x"
        by (simp_all add: tip_improves_def cs1_def cs2_def)
      show ?thesis
      proof (cases ext)
        case True
        obtain r where r: "promote_heavier_known_tip B (\<lambda>n. io (n + 2)) cs2 k now = (cs', r)"
          using c Ok p True by (auto simp: connect_side_def try_in_def cs1_def cs2_def split: prod.splits)
        consider "cs' = cs2" | i es where "i < length ch" "chain_ok B cs' (take (Suc i) ch @ rev es)"
            "360 \<le> length ch - 1 \<longrightarrow> length ch - Suc i < 360"
            "is_better_fork_choice_tip (tip_difficulty cs') (tip_hash cs') (tip_difficulty cs2) (tip_hash cs2)"
          using promote_ok [OF ok2 ne r] by blast
        then show ?thesis
        proof cases
          case 1
          then show ?thesis using ok2 same(1) same2(1) by blast
        next
          case (2 i es)
          then have "chain_moves ch (take (Suc i) ch @ rev es)" unfolding chain_moves_def by blast
          moreover have "tip_improves cs2 cs'" using 2(4) unfolding tip_improves_def by blast
          ultimately show ?thesis using 2(2) same2(2) by blast
        qed
      next
        case False
        then have "cs' = cs2" using c Ok p by (simp add: connect_side_def try_in_def cs1_def cs2_def)
        then show ?thesis using ok2 same same2 by blast
      qed
    qed (use c Ok ok1 t1 same in \<open>auto simp: connect_side_def try_in_def cs1_def\<close>)
  qed (use c ok same in \<open>auto simp: connect_side_def try_in_def\<close>)
qed

lemma connect_block_cases:
  assumes b: "block_ok B b" and c: "connect_block B E S io cs b now = (cs', q)"
  obtains (stop) "cs' = cs"
  | (go) k where "compute_block_identifier B (magic cs) (enc_header (header b)) = Ok k"
      "as_bytes k \<notin> fmdom' (db_blocks (cs_store cs))" "validate_new_block B E S cs b k now = Ok ()"
      "height (header b) = BlockHeight_GENESIS \<or> prev_hash (header b) = tip_hash cs
        \<Longrightarrow> is_better_fork_choice_tip (total_difficulty (header b)) k (tip_difficulty cs) (tip_hash cs)
          \<and> connect_direct io cs b k (enc_header (header b)) (enc_block b) = (cs', q)"
      "\<not> (height (header b) = BlockHeight_GENESIS \<or> prev_hash (header b) = tip_hash cs)
        \<Longrightarrow> connect_side B io cs b k (enc_header (header b)) (enc_block b)
          (is_better_fork_choice_tip (total_difficulty (header b)) k (tip_difficulty cs) (tip_hash cs)) now = (cs', q)"
proof -
  have hb: "to_bytes serialize_header (header b) = Ok (enc_header (header b))" "to_bytes serialize_block b = Ok (enc_block b)"
    using b by (auto simp: header.to_bytes_enc blk.to_bytes_enc block_ok_def)
  show ?thesis
  proof (cases "compute_block_identifier B (magic cs) (enc_header (header b))")
    case (Ok k)
    show ?thesis
    proof (cases "cs' = cs")
      case False
      then have "as_bytes k \<notin> fmdom' (db_blocks (cs_store cs))" "validate_new_block B E S cs b k now = Ok ()"
        using c Ok hb by (auto simp: connect_block_def Let_def try_in_cases get_block_header_def fmlookup_dom'_iff split: if_splits)
      then show ?thesis
        using go [OF Ok] c hb Ok False
        by (auto simp: connect_block_def Let_def try_in_def get_block_header_def fmlookup_dom'_iff split: if_splits)
    qed (rule stop)
  qed (use c hb stop in \<open>auto simp: connect_block_def Let_def try_in_def\<close>)
qed

lemma connect_block_ok:
  assumes ok: "chain_ok B cs ch" and hash: "\<And>x. length (blake2b B x) = 32"
    and b: "block_ok B b" "length (enc_block b) < USIZE_LIMIT"
    and c: "connect_block B E S io cs b now = (cs', q)"
  shows "\<exists>ch'. chain_ok B cs' ch' \<and> chain_moves ch ch' \<and> tip_improves cs cs'"
  using b(1) c
proof (cases rule: connect_block_cases)
  case stop
  then show ?thesis using ok by (auto simp: chain_moves_def tip_improves_def)
next
  case (go k)
  have arr: "block_arrives B (magic cs) (cs_store cs) k b" by (rule new_block_arrives [OF ok hash b go(1,3)])
  show ?thesis
  proof (cases "height (header b) = BlockHeight_GENESIS \<or> prev_hash (header b) = tip_hash cs")
    case True
    then have "cs' = cs \<and> \<not> is_ok q \<or> chain_ok B cs' (ch @ [(k, header b, Some b)])"
      using connect_direct_ok [OF ok arr go(2) _ new_genesis_index [OF go(3)]] go(4) genesis_height_iff by blast
    moreover have "tip_improves cs cs'"
      using connect_direct_cases [of io cs b k "enc_header (header b)" "enc_block b" cs' q] go(4) [OF True]
      by (auto simp: tip_improves_def with_tip_def)
    ultimately show ?thesis using ok by (auto simp: chain_moves_def)
  next
    case False
    then show ?thesis using connect_side_ok [OF ok arr _ go(5)] genesis_height_iff by blast
  qed
qed

section \<open>Replaying the canonical chain\<close>

lemma rebuild_remove_fold:
  "try_fold rebuild_remove db cs = Ok db' \<longleftrightarrow> distinct cs \<and> set cs \<subseteq> fmdom' db \<and> db' = fmdrop_set (set cs) db"
proof -
  have eq: "rebuild_remove = del_existing (CHAIN_CORRUPT ''canonical spend references missing UTXO'')"
    by (simp add: fun_eq_iff rebuild_remove_def del_existing_def)
  show ?thesis unfolding eq by (rule del_fold_Ok)
qed

lemma rebuild_insert_fold:
  "try_fold (rebuild_insert msg) db ces = Ok db' \<longleftrightarrow>
    distinct (map fst ces) \<and> set (map fst ces) \<inter> fmdom' db = {}
    \<and> db' = fmadd db (fmap_of_list (map (\<lambda>(c, e). (c, UtxoEntry_to_bytes e)) ces))"
proof -
  have eq: "try_fold (rebuild_insert msg) db ces
      = try_fold (put_no_overwrite (CHAIN_CORRUPT msg)) db (map (\<lambda>(c, e). (c, UtxoEntry_to_bytes e)) ces)"
  proof (induction ces arbitrary: db)
    case (Cons ce ces)
    have "rebuild_insert msg db ce = put_no_overwrite (CHAIN_CORRUPT msg) db (fst ce, UtxoEntry_to_bytes (snd ce))"
      by (simp add: rebuild_insert_def put_no_overwrite_def)
    then show ?case using Cons by (simp add: case_prod_unfold)
  qed simp
  show ?thesis unfolding eq put_fold_Ok by (simp add: comp_def case_prod_unfold)
qed

definition tx_spent :: "transaction \<Rightarrow> bytes list" where "tx_spent tx = map icommit (inputs tx)"
definition tx_created :: "transaction \<Rightarrow> bytes list" where "tx_created tx = map ocommit (outputs tx)"

lemma rebuild_tx_dom:
  assumes "distinct (tx_spent tx)" "distinct (tx_created tx)" "set (tx_spent tx) \<inter> set (tx_created tx) = {}"
  shows "(\<exists>db'. rebuild_tx b db tx = Ok db' \<and> fmdom' db' = D') \<longleftrightarrow>
    set (tx_spent tx) \<subseteq> fmdom' db \<and> set (tx_created tx) \<inter> fmdom' db = {}
    \<and> D' = fmdom' db - set (tx_spent tx) \<union> set (tx_created tx)"
proof -
  have new: "map fst (map (new_entry b False) (outputs tx)) = tx_created tx" by (simp add: tx_created_def new_entry_def comp_def)
  define kvs where "kvs = map (\<lambda>(c, e). (c, UtxoEntry_to_bytes e)) (map (new_entry b False) (outputs tx))"
  have keys: "fmdom' (fmap_of_list kvs) = set (tx_created tx)"
    using arg_cong [OF new, of set] by (simp add: fmdom'_fmap_of_list kvs_def image_comp comp_def case_prod_unfold)
  have eq: "rebuild_tx b db tx = Ok db' \<longleftrightarrow> set (tx_spent tx) \<subseteq> fmdom' db
      \<and> set (tx_created tx) \<inter> (fmdom' db - set (tx_spent tx)) = {}
      \<and> db' = fmadd (fmdrop_set (set (tx_spent tx)) db) (fmap_of_list kvs)" for db'
    using assms(1,2) unfolding rebuild_tx_def and_then_eq_Ok rebuild_remove_fold rebuild_insert_fold new tx_spent_def [symmetric]
      kvs_def [symmetric] by auto
  have dom: "fmdom' (fmadd (fmdrop_set (set (tx_spent tx)) db) (fmap_of_list kvs)) = fmdom' db - set (tx_spent tx) \<union> set (tx_created tx)"
    by (simp add: keys)
  show ?thesis unfolding eq using assms(3) dom by blast
qed

lemma rebuild_txs_dom:
  assumes "distinct (concat (map tx_spent txs))" "distinct (concat (map tx_created txs))"
    and "set (concat (map tx_spent txs)) \<inter> set (concat (map tx_created txs)) = {}"
  shows "(\<exists>db'. try_fold (rebuild_tx b) db txs = Ok db' \<and> fmdom' db' = D') \<longleftrightarrow>
    set (concat (map tx_spent txs)) \<subseteq> fmdom' db \<and> set (concat (map tx_created txs)) \<inter> fmdom' db = {}
    \<and> D' = fmdom' db - set (concat (map tx_spent txs)) \<union> set (concat (map tx_created txs))"
  using assms
proof (induction txs arbitrary: db)
  case (Cons tx txs)
  define S C S' C' where d: "S = set (tx_spent tx)" "C = set (tx_created tx)"
    "S' = set (concat (map tx_spent txs))" "C' = set (concat (map tx_created txs))"
  have dj: "S \<inter> S' = {}" "C \<inter> C' = {}" "(S \<union> S') \<inter> (C \<union> C') = {}" using Cons.prems by (auto simp: d)
  have one: "(\<exists>db1. rebuild_tx b db tx = Ok db1 \<and> fmdom' db1 = D1) \<longleftrightarrow> S \<subseteq> fmdom' db \<and> C \<inter> fmdom' db = {} \<and> D1 = fmdom' db - S \<union> C" for D1
    using Cons.prems dj(3) unfolding d(1,2) by (intro rebuild_tx_dom) auto
  have rest: "(\<exists>db'. try_fold (rebuild_tx b) db1 txs = Ok db' \<and> fmdom' db' = D') \<longleftrightarrow>
      S' \<subseteq> fmdom' db1 \<and> C' \<inter> fmdom' db1 = {} \<and> D' = fmdom' db1 - S' \<union> C'" for db1
    using Cons.prems unfolding d(3,4) by (intro Cons.IH) auto
  have "(\<exists>db'. try_fold (rebuild_tx b) db (tx # txs) = Ok db' \<and> fmdom' db' = D')
      \<longleftrightarrow> (\<exists>db1. rebuild_tx b db tx = Ok db1 \<and> (\<exists>db'. try_fold (rebuild_tx b) db1 txs = Ok db' \<and> fmdom' db' = D'))"
    by auto
  also have "\<dots> \<longleftrightarrow> (\<exists>D1. (\<exists>db1. rebuild_tx b db tx = Ok db1 \<and> fmdom' db1 = D1) \<and> S' \<subseteq> D1 \<and> C' \<inter> D1 = {} \<and> D' = D1 - S' \<union> C')"
    unfolding rest by blast
  also have "\<dots> \<longleftrightarrow> S \<union> S' \<subseteq> fmdom' db \<and> (C \<union> C') \<inter> fmdom' db = {} \<and> D' = fmdom' db - (S \<union> S') \<union> (C \<union> C')"
    unfolding one using dj by blast
  finally show ?case by (simp add: d)
qed auto

lemma rebuild_block_dom:
  assumes "body_distinct b"
  shows "(\<exists>db'. rebuild_block db b = Ok db' \<and> fmdom' db' = D') \<longleftrightarrow> ledger_step (fmdom' db) b = Some D'"
proof -
  let ?c = "ocommit (cb_output (coinbase b))" and ?txs = "transactions b"
  have sp: "block_spent b = concat (map tx_spent ?txs)" and cr: "block_created b = ?c # concat (map tx_created ?txs)"
    by (simp_all add: block_spent_def tx_spent_def [abs_def] tx_created_def [abs_def] block_created_def block_new_entries_def new_entry_def map_concat comp_def)
  note bd = assms [unfolded body_distinct_def sp cr]
  define db1 where "db1 = fmupd ?c (UtxoEntry_to_bytes (snd (new_entry b True (cb_output (coinbase b))))) db"
  have one: "rebuild_block db b = (if ?c \<in> fmdom' db then Err (CHAIN_CORRUPT ''duplicate coinbase UTXO commitment'')
      else try_fold (rebuild_tx b) db1 ?txs)"
    by (auto simp: rebuild_block_def rebuild_insert_def db1_def new_entry_def fmlookup_dom'_iff)
  have dom: "fmdom' db1 = insert ?c (fmdom' db)" by (simp add: db1_def)
  have txs: "(\<exists>db'. try_fold (rebuild_tx b) db1 ?txs = Ok db' \<and> fmdom' db' = D') \<longleftrightarrow>
    set (concat (map tx_spent ?txs)) \<subseteq> fmdom' db1 \<and> set (concat (map tx_created ?txs)) \<inter> fmdom' db1 = {}
    \<and> D' = fmdom' db1 - set (concat (map tx_spent ?txs)) \<union> set (concat (map tx_created ?txs))"
    using bd by (intro rebuild_txs_dom) auto
  show ?thesis
  proof (cases "?c \<in> fmdom' db")
    case False
    then have "(\<exists>db'. rebuild_block db b = Ok db' \<and> fmdom' db' = D') \<longleftrightarrow> (\<exists>db'. try_fold (rebuild_tx b) db1 ?txs = Ok db' \<and> fmdom' db' = D')"
      by (simp add: one)
    then show ?thesis unfolding txs dom ledger_step_def sp cr using bd False by auto
  qed (simp add: one ledger_step_def cr)
qed

lemma canonical_block_entry:
  assumes can: "canonical B m s ch" and net: "known_network_magic m" and i: "i < length ch"
  shows "canonical_block B m s (of_nat i) = Ok (case snd (snd (ch ! i)) of None \<Rightarrow> None | Some b \<Rightarrow> Some (b, fst (ch ! i)))"
proof -
  obtain k h ob where e: "ch ! i = (k, h, ob)" "stored B m s (k, h, ob)" "hgt h = i" using canonical_nth [OF can i] by metis
  have idx: "get_hash_at_height s (of_nat i) = Ok (Some (as_bytes k))" using canonical_of_height [OF can i] e(1) by simp
  have n: "i < 2 ^ 64" using i canonical_length [OF can] by linarith
  show ?thesis
  proof (cases ob)
    case None
    then obtain body where b: "fmlookup (db_block_bodies s) (as_bytes k) = Some body" "m = NETWORK_MAGIC_MAINNET" "i = 0"
        "is_ok (validate_mainnet_genesis_identity B body)"
      using e(2,3) by (auto simp: stored.simps)
    then show ?thesis using idx None e(1) by (simp add: canonical_block_def get_block_body_def BlockHeight_GENESIS_def)
  next
    case (Some b)
    have st: "stored B m s (k, h, Some b)" using e(2) Some by simp
    have ng: "\<not> (m = NETWORK_MAGIC_MAINNET \<and> hgt h = 0)" using st by (auto simp: stored.simps)
    moreover have "unat (of_nat i :: u64) = i" using n by (simp add: unat_of_nat)
    ultimately have no: "\<not> ((of_nat i :: u64) = 0 \<and> m = NETWORK_MAGIC_MAINNET)" using e(3) by auto
    have hb: "header_ok h" using stored_lookup(2) [OF st] .
    have "compute_block_identifier B m (enc_header h) = Ok k"
      using ng net hb stored_block(5) [OF st] genesis_height_iff [of h]
      by (auto simp: compute_block_identifier_def canonical_header_identifier_def known_network_magic_def
          compute_block_hash_def blake2b_256_def)
    then show ?thesis
      using idx stored_block(1,2,4) [OF st] no hb e(1) Some
      by (auto simp: canonical_block_def BlockHeight_GENESIS_def header.to_bytes_enc)
  qed
qed

definition rebuild_entry :: "database \<Rightarrow> chain_entry \<Rightarrow> database dom_result" where
  "rebuild_entry db e = (case snd (snd e) of None \<Rightarrow> Ok db | Some b \<Rightarrow> rebuild_block db b)"

lemma rebuild_entry_simps [simp]:
  "rebuild_entry db (k, h, None) = Ok db" "rebuild_entry db (k, h, Some b) = rebuild_block db b"
  by (simp_all add: rebuild_entry_def)

lemma chain_blocks_None [simp]: "chain_blocks ((k, h, None) # ch) = chain_blocks ch"
  by (simp add: chain_blocks_def)

lemma heights_of_chain: "ch \<noteq> [] \<Longrightarrow> length ch \<le> 2 ^ 64 \<Longrightarrow> heights_upto (of_nat (length ch - 1)) = map of_nat [0 ..< length ch]"
  by (cases ch) (simp_all add: heights_upto_def unat_of_nat)

lemma try_fold_cong:
  "(\<And>db i. i < length xs \<Longrightarrow> f db (xs ! i) = g db (ys ! i)) \<Longrightarrow> length xs = length ys \<Longrightarrow> try_fold f db xs = try_fold g db ys"
proof (induction xs arbitrary: ys db)
  case (Cons x xs)
  then obtain y ys' where y: "ys = y # ys'" by (cases ys) auto
  have "f db x = g db y" for db using Cons.prems(1) [of 0] y by simp
  moreover have "try_fold f db xs = try_fold g db ys'" for db
    using Cons.prems(1) [of "Suc i" for i] Cons.prems(2) y by (intro Cons.IH) auto
  ultimately show ?case by (simp add: y)
qed simp

lemma reconstruct_entries:
  assumes can: "canonical B m s ch" and net: "known_network_magic m" and ne: "ch \<noteq> []"
  shows "reconstruct_canonical_utxo_set B s (BlockHeight (of_nat (length ch - 1))) m = try_fold rebuild_entry fmempty ch"
proof -
  have "rebuild_height B m s db (map of_nat [0 ..< length ch] ! i) = rebuild_entry db (ch ! i)" if "i < length ch" for db i
    using canonical_block_entry [OF can net that] that
    by (simp add: rebuild_height_def rebuild_entry_def split: option.splits)
  then show ?thesis
    unfolding reconstruct_canonical_utxo_set_def block_height.sel heights_of_chain [OF ne canonical_length [OF can]]
    by (intro try_fold_cong) simp_all
qed

lemma rebuild_entries_dom:
  assumes "\<forall>e \<in> set ch. stored B m s e"
  shows "(\<exists>db'. try_fold rebuild_entry db ch = Ok db' \<and> fmdom' db' = D) \<longleftrightarrow> ledger (fmdom' db) (chain_blocks ch) = Some D"
  using assms
proof (induction ch arbitrary: db)
  case (Cons e ch)
  obtain k h ob where e: "e = (k, h, ob)" by (metis prod_cases3)
  have IH: "(\<exists>db'. try_fold rebuild_entry db ch = Ok db' \<and> fmdom' db' = D) \<longleftrightarrow> ledger (fmdom' db) (chain_blocks ch) = Some D" for db
    using Cons by simp
  show ?case
  proof (cases ob)
    case None
    then show ?thesis using IH [of db] by (simp add: e)
  next
    case (Some b)
    have bd: "body_distinct b" using Cons.prems stored_block(7) e Some by auto
    have "(\<exists>db'. try_fold rebuild_entry db (e # ch) = Ok db' \<and> fmdom' db' = D)
        \<longleftrightarrow> (\<exists>db1. rebuild_block db b = Ok db1 \<and> ledger (fmdom' db1) (chain_blocks ch) = Some D)"
      by (auto simp: e Some simp flip: IH)
    also have "\<dots> \<longleftrightarrow> (\<exists>D1. ledger_step (fmdom' db) b = Some D1 \<and> ledger D1 (chain_blocks ch) = Some D)"
      unfolding rebuild_block_dom [OF bd, symmetric] by blast
    finally show ?thesis by (simp add: e Some bind_eq_Some_conv)
  qed
qed auto

definition encoded :: "database \<Rightarrow> bool" where
  "encoded db \<longleftrightarrow> (\<forall>c v. fmlookup db c = Some v \<longrightarrow> (\<exists>e. v = UtxoEntry_to_bytes e))"

lemma try_fold_keeps:
  "try_fold f db xs = Ok db' \<Longrightarrow> P db \<Longrightarrow> (\<And>db x db'. f db x = Ok db' \<Longrightarrow> P db \<Longrightarrow> P db') \<Longrightarrow> P db'"
  by (induction xs arbitrary: db) auto

lemma rebuild_insert_encoded: "rebuild_insert msg db ce = Ok db' \<Longrightarrow> encoded db \<Longrightarrow> encoded db'"
  by (auto simp: rebuild_insert_def encoded_def split: if_splits)

lemma rebuild_remove_encoded: "rebuild_remove db c = Ok db' \<Longrightarrow> encoded db \<Longrightarrow> encoded db'"
  by (auto simp: rebuild_remove_def encoded_def split: if_splits)

lemma rebuild_tx_encoded:
  assumes "rebuild_tx b db tx = Ok db'" "encoded db"
  shows "encoded db'"
proof -
  obtain db1 where 1: "try_fold rebuild_remove db (map icommit (inputs tx)) = Ok db1"
      "try_fold (rebuild_insert ''duplicate output UTXO commitment'') db1 (map (new_entry b False) (outputs tx)) = Ok db'"
    using assms(1) unfolding rebuild_tx_def and_then_eq_Ok by blast
  have "encoded db1" using 1(1) assms(2) by (rule try_fold_keeps) (rule rebuild_remove_encoded)
  with 1(2) show ?thesis by (rule try_fold_keeps) (rule rebuild_insert_encoded)
qed

lemma rebuild_entry_encoded:
  assumes "rebuild_entry db e = Ok db'" "encoded db"
  shows "encoded db'"
proof (cases "snd (snd e)")
  case (Some b)
  then obtain db1 where 1: "rebuild_insert ''duplicate coinbase UTXO commitment'' db (new_entry b True (cb_output (coinbase b))) = Ok db1"
      "try_fold (rebuild_tx b) db1 (transactions b) = Ok db'"
    using assms(1) unfolding rebuild_entry_def rebuild_block_def by auto
  have "encoded db1" using 1(1) assms(2) by (rule rebuild_insert_encoded)
  with 1(2) show ?thesis by (rule try_fold_keeps) (rule rebuild_tx_encoded)
qed (use assms in \<open>simp add: rebuild_entry_def\<close>)

lemma rebuild_values: "try_fold rebuild_entry fmempty ch = Ok db' \<Longrightarrow> encoded db'"
  by (erule try_fold_keeps) (simp add: encoded_def, rule rebuild_entry_encoded)

section \<open>Opening a store\<close>

lemma ensure_kernels_present:
  "try_fold ensure_kernel_index db kvs = Ok db' \<Longrightarrow> set (map fst kvs) \<subseteq> fmdom' db \<Longrightarrow> db' = db"
proof (induction kvs arbitrary: db)
  case (Cons kv kvs)
  obtain db1 where 1: "ensure_kernel_index db kv = Ok db1" "try_fold ensure_kernel_index db1 kvs = Ok db'" using Cons.prems(1) by auto
  have "db1 = db" using 1(1) Cons.prems(2) by (auto simp: ensure_kernel_index_def fmlookup_dom'_iff split: if_splits)
  then show ?case using Cons.IH 1(2) Cons.prems(2) by auto
qed simp

lemma entry_kernels: "(k, h, Some b) \<in> set ch \<Longrightarrow> set (block_kernels b) \<subseteq> set (chain_kernels ch)"
  by (force simp: chain_kernels_def chain_blocks_def)

lemma rebuild_kernel_keeps:
  assumes can: "canonical B m s ch" and net: "known_network_magic m" and led: "ledger_ok s ch"
    and "\<forall>i \<in> set js. i < length ch" "rebuild_kernel_loop B io m s (map of_nat js) = (s', r)"
  shows "s' = s"
  using assms(4,5)
proof (induction js)
  case (Cons i js)
  obtain k h ob where e: "ch ! i = (k, h, ob)" by (metis prod_cases3)
  have i: "i < length ch" using Cons.prems(1) by simp
  have keys: "set (map fst (extract_kernel_excesses b k)) \<subseteq> fmdom' (db_kernels s)" if "ob = Some b" for b
  proof -
    have "(k, h, Some b) \<in> set ch" using e that i nth_mem by metis
    then show ?thesis using led entry_kernels unfolding ledger_ok_def kernel_keys by blast
  qed
  have same: "fst (rebuild_kernel_height B io m s (of_nat i)) = s"
    using canonical_block_entry [OF can net i] e keys ensure_kernels_present
    by (auto simp: rebuild_kernel_height_def ensure_kernel_indices_def split: option.splits result.splits)
  obtain r1 where h: "rebuild_kernel_height B io m s (of_nat i) = (s, r1)" using same by (metis fst_conv surj_pair)
  show ?case using Cons h by (cases r1) auto
qed simp

lemma fmap_of_fm_entries: "fmap_of_list (fm_entries m) = m"
  by (rule fmap_ext) (simp add: fmlookup_of_list)

lemma ensure_utxo_effect:
  assumes "ensure_canonical_utxo_set B io s tip m rep = Ok s'"
  shows "\<exists>md u. s' = s\<lparr>db_utxos := u, db_metadata := md\<rparr> \<and> reconstruct_canonical_utxo_set B s tip m = Ok u"
proof -
  obtain u where u: "reconstruct_canonical_utxo_set B s tip m = Ok u" using assms by (auto simp: ensure_canonical_utxo_set_def)
  consider "db_utxos s = u" | "replace_utxo_set io s u (digest_utxo_entries B u) = Ok s'" "rep"
    using assms u by (auto simp: ensure_canonical_utxo_set_def read_all_utxos_raw_def get_metadata_def Let_def split: if_splits)
  then show ?thesis
  proof cases
    case 1
    have "s' = s \<or> (\<exists>d. s' = s\<lparr>db_metadata := d\<rparr>)"
      using assms u 1 by (auto simp: ensure_canonical_utxo_set_def read_all_utxos_raw_def get_metadata_def Let_def
          persist_utxo_set_digest_def split: if_splits)
    then show ?thesis using 1 u by (metis dom_store.surjective dom_store.update_convs(5,7))
  next
    case 2
    then show ?thesis using u by (auto simp: replace_utxo_set_def put_fold_Ok fmap_of_fm_entries)
  qed
qed

lemma same_blocks_ok:
  assumes "store_ok B m s" "canonical B m s ch" "db_blocks s' = db_blocks s" "db_block_bodies s' = db_block_bodies s" "db_height s' = db_height s"
  shows "store_ok B m s' \<and> canonical B m s' ch"
  using assms by (simp only: store_ok_def canonical_def assms(3,5) stored_same [OF assms(3,4)])

lemma replayed_ok:
  assumes ok: "chain_ok B cs ch" "ch \<noteq> []"
    and e: "ensure_canonical_utxo_set B io (cs_store cs) (tip_height cs) (magic cs) rep = Ok s'"
  shows "chain_ok B (cs\<lparr>cs_store := s'\<rparr>) ch"
proof -
  note f = chain_ok_fields [OF ok(1)]
  obtain md u where u: "s' = (cs_store cs)\<lparr>db_utxos := u, db_metadata := md\<rparr>"
      "reconstruct_canonical_utxo_set B (cs_store cs) (tip_height cs) (magic cs) = Ok u"
    using ensure_utxo_effect [OF e] by blast
  have r: "try_fold rebuild_entry fmempty ch = Ok u"
    using u(2) reconstruct_entries [OF f(3,1) ok(2)] tip_height_nat(1) [OF f(3,5) ok(2)] by simp
  have st: "\<forall>e \<in> set ch. stored B (magic cs) (cs_store cs) e" using canonicalD(1) [OF f(3)] by (metis in_set_conv_nth)
  have "ledger {} (chain_blocks ch) = Some (fmdom' u)" using rebuild_entries_dom [OF st, of fmempty "fmdom' u"] r by auto
  then have "ledger_ok s' ch" using f(4) rebuild_values [OF r] by (simp add: ledger_ok_def u(1) encoded_def)
  moreover have "store_ok B (magic cs) s' \<and> canonical B (magic cs) s' ch"
    by (rule same_blocks_ok [OF f(2,3)]) (simp_all add: u(1))
  ultimately show ?thesis using f(1,5) by (simp add: chain_ok_def tip_ok_def u(1))
qed

lemma open_tip_Ok:
  assumes "open_tip B io s m rep hash = (s', Ok (th, hh, td))" "stored_header s (Hash256 hash) (CHAIN_CORRUPT ''chain_tip points at missing header'') = Ok h"
    and "rebuild_kernel_index_from_canonical_chain B io s (height h) m = (s1, r1)"
  shows "\<exists>s2. ensure_canonical_utxo_set B (io (Suc (hgt h))) s1 (height h) m rep = Ok s2
    \<and> prune_retained_side_chains (io (Suc (Suc (hgt h)))) s2 (height h) hash = Ok s'
    \<and> th = Hash256 hash \<and> hh = height h \<and> td = total_difficulty h"
  using assms unfolding open_tip_def by (auto simp: try_in_cases split: if_splits)

lemma open_inner_Ok:
  assumes "open_inner B io s g m rep = (s', Ok cs')" "get_chain_tip s = Ok (Some hash)"
  shows "\<exists>th hh td. open_tip B io s m rep hash = (s', Ok (th, hh, td))
    \<and> cs_store cs' = s' \<and> tip_hash cs' = th \<and> tip_height cs' = hh \<and> tip_difficulty cs' = td \<and> magic cs' = m"
  using assms unfolding open_inner_def Let_def
  by (cases "open_tip B io s m rep hash") (auto simp: try_in_cases)

lemma height_of_canonical:
  assumes "canonical B m s ch"
  shows "get_hash_at_height s x = Ok (if unat x < length ch then Some (as_bytes (fst (ch ! unat x))) else None)"
proof (cases "unat x < length ch")
  case True
  have "of_nat (unat x) = x" by (metis of_nat_unat ucast_id)
  then show ?thesis using canonical_of_height [OF assms True] True by simp
qed (use canonicalD(5) [OF assms, of x] in \<open>simp add: get_hash_at_height_def hash_value_def\<close>)

lemma open_facts:
  assumes ok: "chain_ok B cs ch" "ch \<noteq> []"
  obtains h where "get_chain_tip (cs_store cs) = Ok (Some (as_bytes (tip_hash cs)))"
    "\<And>e. stored_header (cs_store cs) (Hash256 (as_bytes (tip_hash cs))) e = Ok h"
    "height h = tip_height cs" "total_difficulty h = tip_difficulty cs"
    "\<exists>body. get_block_body (cs_store cs) (as_bytes (tip_hash cs)) = Ok (Some body)"
    "get_hash_at_height (cs_store cs) (height_val (tip_height cs)) = Ok (Some (as_bytes (tip_hash cs)))"
    "heights_upto (height_val (tip_height cs)) = map of_nat [0 ..< length ch]"
proof -
  note f = chain_ok_fields [OF ok(1)]
  let ?s = "cs_store cs" and ?t = "as_bytes (tip_hash cs)"
  obtain k h ob where l: "last ch = (k, h, ob)" by (metis prod_cases3)
  have tip: "db_tip ?s = Some ?t" "tip_hash cs = k" "height h = tip_height cs" "total_difficulty h = tip_difficulty cs"
    using f(5) ok(2) l by (simp_all add: tip_ok_def)
  have st: "stored B (magic cs) ?s (k, h, ob)" using canonical_last [OF f(3) ok(2)] l by simp
  have "length ?t = 32" using stored_lookup(3) [OF st] tip(2) by (simp add: hash256_ok_def)
  then have 1: "get_chain_tip ?s = Ok (Some ?t)" using tip(1) by (simp add: get_chain_tip_def hash_value_def)
  have 2: "stored_header ?s (Hash256 ?t) e = Ok h" for e using stored_header_stored [OF st] tip(2) by simp
  have 3: "\<exists>body. get_block_body ?s ?t = Ok (Some body)"
    using st tip(2) by (cases ob) (auto simp: stored.simps get_block_body_def)
  have n: "tip_height cs = BlockHeight (of_nat (length ch - 1))" "unat (height_val (tip_height cs)) = length ch - 1"
    using tip_height_nat [OF f(3,5) ok(2)] by simp_all
  have "get_hash_at_height ?s (height_val (tip_height cs)) = Ok (Some ?t)"
    using height_of_canonical [OF f(3), of "height_val (tip_height cs)"] n(2) ok(2) tip(2) l by (simp add: last_conv_nth)
  moreover have "heights_upto (height_val (tip_height cs)) = map of_nat [0 ..< length ch]"
    using heights_of_chain [OF ok(2) canonical_length [OF f(3)]] n(1) by simp
  ultimately show ?thesis using that [OF 1 2 tip(3,4) 3] by blast
qed

lemma kernels_kept:
  assumes "chain_ok B cs ch" "ch \<noteq> []"
  shows "fst (rebuild_kernel_index_from_canonical_chain B io (cs_store cs) (tip_height cs) (magic cs)) = cs_store cs"
proof -
  note f = chain_ok_fields [OF assms(1)]
  have hs: "heights_upto (height_val (tip_height cs)) = map of_nat [0 ..< length ch]" using open_facts [OF assms] .
  obtain s1 r1 where "rebuild_kernel_loop B io (magic cs) (cs_store cs) (map of_nat [0 ..< length ch]) = (s1, r1)" by fastforce
  then show ?thesis
    using rebuild_kernel_keeps [OF f(3,1,4), of "[0 ..< length ch]" io s1 r1]
    by (simp add: rebuild_kernel_index_from_canonical_chain_def hs)
qed

lemma prune_empty:
  assumes "chain_ok B cs []"
  shows "prune_retained_side_chains io (cs_store cs) BlockHeight_GENESIS (replicate 32 0) = Ok (cs_store cs)"
proof -
  note f = chain_ok_fields [OF assms]
  have "fmlookup (db_blocks (cs_store cs)) k = None" for k
    using store_empty [OF f(2,3)] store_ok_lookup [OF f(2)] by (metis hash256.sel not_None_eq)
  then have "fm_entries (db_blocks (cs_store cs)) = []"
    by (intro fm_entries_Nil [THEN iffD2] fmap_ext) simp
  then show ?thesis by (simp add: prune_retained_side_chains_def read_all_block_headers_raw_def)
qed

lemma no_tip:
  assumes "chain_ok B cs []"
  shows "get_chain_tip (cs_store cs) = Ok None"
  using chain_ok_fields(5) [OF assms] by (simp add: tip_ok_def get_chain_tip_def hash_value_def)

lemma open_tip_stops:
  assumes "open_tip B io s m rep hash = (s', r)"
    and "stored_header s (Hash256 hash) (CHAIN_CORRUPT ''chain_tip points at missing header'') = Ok h"
    and "fst (rebuild_kernel_index_from_canonical_chain B io s (height h) m) = s"
  shows "s' = s \<or> (\<exists>s2. ensure_canonical_utxo_set B (io (Suc (hgt h))) s (height h) m rep = Ok s2
    \<and> (s' = s2 \<or> prune_retained_side_chains (io (Suc (Suc (hgt h)))) s2 (height h) hash = Ok s'))"
  using assms unfolding open_tip_def
  by (cases "rebuild_kernel_index_from_canonical_chain B io s (height h) m") (auto simp: try_in_cases split: if_splits)

lemma open_inner_store:
  assumes "open_inner B io s g m rep = (s', r)" "get_chain_tip s = Ok (Some hash)"
  shows "s' = s \<or> s' = fst (open_tip B io s m rep hash)"
  using assms unfolding open_inner_def Let_def
  by (cases "open_tip B io s m rep hash") (auto simp: try_in_cases split: prod.splits)

text \<open>Whatever the outcome of an attempt to open, the store it leaves behind keeps the invariant.\<close>

lemma open_store_ok:
  assumes ok: "chain_ok B cs ch" and o: "open_inner B io (cs_store cs) g (magic cs) rep = (s, r)"
  shows "chain_ok B (cs\<lparr>cs_store := s\<rparr>) ch"
proof (cases "ch = []")
  case True
  then have ok': "chain_ok B cs []" using ok by simp
  have "s = cs_store cs"
    using o by (auto simp: open_inner_def no_tip [OF ok'] prune_empty [OF ok'] try_in_cases try_in_simps Let_def)
  then show ?thesis using ok by simp
next
  case False
  let ?s = "cs_store cs" and ?t = "as_bytes (tip_hash cs)"
  obtain h where h: "get_chain_tip ?s = Ok (Some ?t)" "\<And>e. stored_header ?s (Hash256 ?t) e = Ok h" "height h = tip_height cs"
    using open_facts [OF ok False] by metis
  obtain st rt where op: "open_tip B io ?s (magic cs) rep ?t = (st, rt)" by fastforce
  have keep: "fst (rebuild_kernel_index_from_canonical_chain B io ?s (height h) (magic cs)) = ?s"
    using kernels_kept [OF ok False] h(3) by simp
  consider "s = ?s" | "s = st" using open_inner_store [OF o h(1)] op by auto
  then show ?thesis
  proof cases
    case 2
    consider "st = ?s" | s2 n where "ensure_canonical_utxo_set B (io n) ?s (tip_height cs) (magic cs) rep = Ok s2"
        "st = s2 \<or> prune_retained_side_chains (io (Suc n)) s2 (tip_height cs) ?t = Ok st"
      using open_tip_stops [OF op h(2) keep] h(3) by auto
    then show ?thesis
    proof cases
      case (2 s2 n)
      have ok2: "chain_ok B (cs\<lparr>cs_store := s2\<rparr>) ch" by (rule replayed_ok [OF ok False 2(1)])
      then show ?thesis using prune_ok [OF ok2 False] 2(2) \<open>s = st\<close> by auto
    qed (use ok 2 in simp)
  qed (use ok in simp)
qed

lemma open_fields:
  assumes ok: "chain_ok B cs ch" and o: "open_inner B io (cs_store cs) g (magic cs) rep = (s, Ok cs')"
  shows "cs_store cs' = s \<and> tip_hash cs' = tip_hash cs \<and> tip_height cs' = tip_height cs \<and> tip_difficulty cs' = tip_difficulty cs
    \<and> magic cs' = magic cs"
proof (cases "ch = []")
  case True
  then have ok': "chain_ok B cs []" using ok by simp
  show ?thesis using o chain_ok_fields(5) [OF ok']
    by (auto simp: open_inner_def no_tip [OF ok'] prune_empty [OF ok'] try_in_cases try_in_simps Let_def tip_ok_def)
next
  case False
  obtain h where h: "get_chain_tip (cs_store cs) = Ok (Some (as_bytes (tip_hash cs)))"
      "\<And>e. stored_header (cs_store cs) (Hash256 (as_bytes (tip_hash cs))) e = Ok h"
      "height h = tip_height cs" "total_difficulty h = tip_difficulty cs"
    using open_facts [OF ok False] by metis
  obtain s1 r1 where "rebuild_kernel_index_from_canonical_chain B io (cs_store cs) (height h) (magic cs) = (s1, r1)" by fastforce
  then show ?thesis using open_inner_Ok [OF o h(1)] open_tip_Ok [OF _ h(2)] h(3,4) by fastforce
qed

lemma open_ok:
  assumes ok: "chain_ok B cs ch" and o: "open_inner B io (cs_store cs) g (magic cs) rep = (s, Ok cs')"
  shows "chain_ok B cs' ch \<and> tip_improves cs cs' \<and> magic cs' = magic cs"
  using open_store_ok [OF ok o] open_fields [OF ok o] by (auto simp: chain_ok_def tip_ok_def tip_improves_def split: if_splits)

section \<open>The first block\<close>

lemma fresh_ok:
  assumes "chain_open B io empty_store g m = (s, Ok cs)"
  shows "chain_ok B cs [] \<and> magic cs = m"
proof -
  define cs0 where "cs0 = \<lparr>cs_store = empty_store, tip_hash = Hash256_ZERO, tip_height = BlockHeight_GENESIS, tip_difficulty = 0,
    genesis_hash = g, cs_anchor = undefined, magic = m, coinbase_maturity = 0\<rparr>"
  have "known_network_magic m"
    using assms by (auto simp: chain_open_def open_inner_def try_in_cases genesis_anchor_def
        pow_params_for_network_def known_network_magic_def split: if_splits)
  then have "chain_ok B cs0 []"
    by (simp add: chain_ok_def cs0_def store_ok_def canonical_def ledger_ok_def tip_ok_def empty_store_def stored.simps)
  moreover have "open_inner B io (cs_store cs0) g (magic cs0) False = (s, Ok cs)" using assms by (simp add: chain_open_def cs0_def)
  ultimately show ?thesis using open_ok by (fastforce simp: cs0_def)
qed

text \<open>
  The built-in first block of Testnet and Regtest is committed without validation; that it is
  valid depends on the foreign prover and signer.
\<close>

definition genesis_valid :: "'p::ab_group_add backend \<Rightarrow> genesis_signer \<Rightarrow> u32 \<Rightarrow> bool" where
  "genesis_valid B S m \<longleftrightarrow> (\<forall>cid g. build_legacy_canonical_genesis B S m cid = Ok g \<longrightarrow>
    (\<exists>b ctx. cg_block g = Some b \<and> block_ok B b \<and> length (enc_block b) < USIZE_LIMIT \<and> block_valid B ctx m b))"

lemma create_genesis_cases:
  assumes "create_genesis_block B S io cs = (cs', q)"
  shows "cs' = cs \<or> (\<exists>cid g gh new spent kern s. build_canonical_genesis B S (magic cs) cid = Ok g
    \<and> from_bytes deserialize_header (cg_header_bytes g) = Ok gh
    \<and> (case cg_block g of Some b \<Rightarrow> Ok (genesis_canonical_changeset b (cg_hash g))
        | None \<Rightarrow> map_ok (\<lambda>_. ([], [], [])) (validate_mainnet_genesis_identity B (cg_block_bytes g))) = Ok (new, spent, kern)
    \<and> commit_block io (cs_store cs) (as_bytes (cg_hash g)) 0 (cg_header_bytes g) (cg_block_bytes g) new spent kern = Ok s
    \<and> cs' = cs\<lparr>cs_store := s, tip_hash := cg_hash g, tip_height := BlockHeight_GENESIS, tip_difficulty := total_difficulty gh\<rparr>)"
  using assms unfolding create_genesis_block_def
  by (auto simp: try_in_cases split: if_splits prod.splits) blast+

lemma mainnet_genesis_ok:
  assumes ok: "chain_ok B cs []" and hash: "\<And>x. length (blake2b B x) = 32" and m: "magic cs = NETWORK_MAGIC_MAINNET"
    and g: "construct_mainnet_identity B = Ok g" "from_bytes deserialize_header (cg_header_bytes g) = Ok gh"
    and c: "commit_block io (cs_store cs) (as_bytes (cg_hash g)) 0 (cg_header_bytes g) (cg_block_bytes g) [] [] [] = Ok s"
  shows "chain_ok B (cs\<lparr>cs_store := s, tip_hash := cg_hash g, tip_height := BlockHeight_GENESIS, tip_difficulty := total_difficulty gh\<rparr>)
    [(cg_hash g, gh, None)]"
proof -
  note f = chain_ok_fields [OF ok]
  obtain ident where id: "validate_mainnet_header B (cg_header_bytes g) = Ok ()" "identity_hash B ident = Ok (cg_hash g)"
      "is_ok (validate_mainnet_genesis_identity B (cg_block_bytes g))"
    using g(1) by (auto simp: construct_mainnet_identity_def Let_def MainnetGenesisIdentity_new_def)
  have "length (cg_header_bytes g) = 256" using id(1) by (auto simp: validate_mainnet_header_def BLOCK_HEADER_BYTES_def split: if_splits)
  then have hb: "cg_header_bytes g = enc_header gh" "header_ok gh" using g(2) by (simp_all add: header.from_bytes_iff USIZE_LIMIT_def)
  have hd: "height gh = BlockHeight_GENESIS" "prev_hash gh = Hash256_ZERO"
    using id(1) g(2) by (auto simp: validate_mainnet_header_def split: if_splits)
  obtain x where "Hash256 (blake2b B x) = cg_hash g" using id(2) by (auto simp: identity_hash_def blake2b_256_tagged_def)
  then have k: "hash256_ok (cg_hash g)" using hash by (metis hash256_ok_def hash256.sel)
  have fresh: "fmlookup (db_blocks (cs_store cs)) x = None" for x
    using store_empty [OF f(2,3)] store_ok_lookup [OF f(2)] by (metis hash256.sel not_None_eq)
  have s: "db_blocks s = fmupd (as_bytes (cg_hash g)) (enc_header gh) (db_blocks (cs_store cs))"
      "db_block_bodies s = fmupd (as_bytes (cg_hash g)) (cg_block_bytes g) (db_block_bodies (cs_store cs))"
      "db_height s = fmupd (u64_to_le 0) (as_bytes (cg_hash g)) (db_height (cs_store cs))" "db_tip s = Some (as_bytes (cg_hash g))"
      "db_utxos s = db_utxos (cs_store cs)" "db_kernels s = db_kernels (cs_store cs)"
    using c unfolding commit_block_Ok hb(1) by (auto intro!: fmap_ext)
  have stored: "stored B (magic cs) s (x, h, ob) \<longleftrightarrow> (x, h, ob) = (cg_hash g, gh, None)" for x h ob
  proof
    assume st: "stored B (magic cs) s (x, h, ob)"
    then have x: "x = cg_hash g" using fresh by (auto simp: stored.simps s(1) hash256.expand split: if_splits)
    then have "enc_header h = enc_header gh" "header_ok h" using st by (simp_all add: stored.simps s(1))
    then have "h = gh" using enc_header_inject hb(2) by blast
    moreover have "ob = None" using st m hd(1) \<open>h = gh\<close> by (cases ob) (auto simp: stored.simps BlockHeight_GENESIS_def)
    ultimately show "(x, h, ob) = (cg_hash g, gh, None)" using x by simp
  qed (use hb k m hd id(3) in \<open>auto simp: stored.simps s BlockHeight_GENESIS_def\<close>)
  have "store_ok B (magic cs) s"
    unfolding store_ok_def stored using fresh hd(1) by (auto simp: s(1) BlockHeight_GENESIS_def split: if_splits)
  moreover have "canonical B (magic cs) s [(cg_hash g, gh, None)]"
    using canonicalD(5) [OF f(3)] hd by (intro canonicalI) (auto simp: stored s(3) BlockHeight_GENESIS_def u64_to_le_inject)
  moreover have "ledger_ok s [(cg_hash g, gh, None)]" using f(4) by (simp add: ledger_ok_def s chain_kernels_def)
  ultimately show ?thesis using f(1) hd by (simp add: chain_ok_def tip_ok_def s(4))
qed

lemma legacy_genesis_ok:
  assumes ok: "chain_ok B cs []" and hash: "\<And>x. length (blake2b B x) = 32" and m: "magic cs \<noteq> NETWORK_MAGIC_MAINNET"
    and g: "build_legacy_canonical_genesis B S (magic cs) cid = Ok g" "from_bytes deserialize_header (cg_header_bytes g) = Ok gh"
    and b: "cg_block g = Some b" "block_ok B b" "length (enc_block b) < USIZE_LIMIT" "block_valid B ctx (magic cs) b"
    and c: "commit_block io (cs_store cs) (as_bytes (cg_hash g)) 0 (cg_header_bytes g) (cg_block_bytes g)
      (fst (build_utxo_changeset b)) (block_spent b) (extract_kernel_excesses b (cg_hash g)) = Ok s"
  shows "chain_ok B (cs\<lparr>cs_store := s, tip_hash := cg_hash g, tip_height := BlockHeight_GENESIS, tip_difficulty := total_difficulty gh\<rparr>)
    [(cg_hash g, header b, Some b)]"
proof -
  have h: "height (header b) = BlockHeight_GENESIS" "to_bytes serialize_header (header b) = Ok (cg_header_bytes g)"
      "to_bytes serialize_block b = Ok (cg_block_bytes g)" "cg_hash g = blake2b_256 B (cg_header_bytes g)"
    using g(1) b(1) by (auto simp: build_legacy_canonical_genesis_def Let_def canonical_header_def split: prod.splits if_splits)
  have enc: "cg_header_bytes g = enc_header (header b)" "cg_block_bytes g = enc_block b"
    using h(2,3) b(2) header.to_bytes_enc [of "header b"] blk.to_bytes_enc [OF b(2)] by (simp_all add: block_ok_def)
  have gh: "gh = header b" using g(2) b(2) enc(1) by (simp add: block_ok_def)
  have "block_arrives B (magic cs) (cs_store cs) (cg_hash g) b"
    using b m h(1,4) hash enc(1) by (auto simp: block_arrives_def compute_block_hash_def blake2b_256_def hash256_ok_def BlockHeight_GENESIS_def)
  then show ?thesis
    using commit_tip_ok [OF ok, of "cg_hash g" b io s] c h(1) by (simp add: enc gh BlockHeight_GENESIS_def)
qed

lemma create_genesis_ok:
  assumes ok: "chain_ok B cs []" and hash: "\<And>x. length (blake2b B x) = 32"
    and gv: "magic cs = NETWORK_MAGIC_MAINNET \<or> genesis_valid B S (magic cs)"
    and c: "create_genesis_block B S io cs = (cs', q)"
  shows "\<exists>ch. chain_ok B cs' ch"
proof (cases "cs' = cs")
  case False
  obtain cid g gh new spent kern s where g: "build_canonical_genesis B S (magic cs) cid = Ok g"
    "from_bytes deserialize_header (cg_header_bytes g) = Ok gh"
    "(case cg_block g of Some b \<Rightarrow> Ok (genesis_canonical_changeset b (cg_hash g))
        | None \<Rightarrow> map_ok (\<lambda>_. ([], [], [])) (validate_mainnet_genesis_identity B (cg_block_bytes g))) = Ok (new, spent, kern)"
    "commit_block io (cs_store cs) (as_bytes (cg_hash g)) 0 (cg_header_bytes g) (cg_block_bytes g) new spent kern = Ok s"
    "cs' = cs\<lparr>cs_store := s, tip_hash := cg_hash g, tip_height := BlockHeight_GENESIS, tip_difficulty := total_difficulty gh\<rparr>"
    using create_genesis_cases [OF c] False by blast
  show ?thesis
  proof (cases "magic cs = NETWORK_MAGIC_MAINNET")
    case True
    then have cm: "construct_mainnet_identity B = Ok g" using g(1) by (simp add: build_canonical_genesis_def)
    then have "cg_block g = None" by (auto simp: construct_mainnet_identity_def Let_def)
    then have "new = []" "spent = []" "kern = []" using g(3) by auto
    then show ?thesis using mainnet_genesis_ok [OF ok hash True cm g(2)] g(4,5) by blast
  next
    case False
    then have lg: "build_legacy_canonical_genesis B S (magic cs) cid = Ok g"
      using g(1) by (auto simp: build_canonical_genesis_def split: if_splits)
    then obtain b ctx where b: "cg_block g = Some b" "block_ok B b" "length (enc_block b) < USIZE_LIMIT" "block_valid B ctx (magic cs) b"
      using gv False unfolding genesis_valid_def by blast
    have "new = fst (build_utxo_changeset b)" "spent = block_spent b" "kern = extract_kernel_excesses b (cg_hash g)"
      using g(3) b(1) by (auto simp: genesis_canonical_changeset_def build_utxo_changeset_def Let_def)
    then show ?thesis using legacy_genesis_ok [OF ok hash False lg g(2) b] g(4,5) by blast
  qed
qed (use ok in blast)

section \<open>Pruning succeeds\<close>

lemma is_ok_try_map: "(\<And>x. x \<in> set xs \<Longrightarrow> is_ok (f x)) \<Longrightarrow> is_ok (try_map f xs)"
  by (induction xs) (auto simp: is_ok_iff)

lemma is_ok_try_fold: "(\<And>a x. x \<in> set xs \<Longrightarrow> is_ok (f a x)) \<Longrightarrow> is_ok (try_fold f a xs)"
proof (induction xs arbitrary: a)
  case (Cons x xs)
  have "is_ok (f a x)" using Cons.prems by simp
  then obtain a' where "f a x = Ok a'" by (auto simp: is_ok_iff)
  then show ?case using Cons by simp
qed (simp add: is_ok_iff)

lemma our_walk_total:
  assumes "store_ok B m s" "stored B m s (k, h, ob)"
  shows "is_ok (our_walk s n k S)"
  using assms(2)
proof (induction n arbitrary: k h ob S)
  case (Suc n)
  show ?case
  proof (cases "k = Hash256_ZERO \<or> prev_hash h = Hash256_ZERO")
    case False
    then have "0 < hgt h" using stored_link [OF Suc.prems] by auto
    then obtain h' ob' where "stored B m s (prev_hash h, h', ob')" using stored_parent [OF assms(1) Suc.prems] by blast
    then show ?thesis using Suc.IH False stored_header_stored [OF Suc.prems] by (simp add: Let_def)
  qed (use stored_header_stored [OF Suc.prems] in \<open>auto simp: Let_def is_ok_iff\<close>)
qed (simp add: is_ok_iff)

lemma their_walk_total:
  assumes "store_ok B m s"
  shows "is_ok (their_walk s S n k)"
proof (induction n arbitrary: k)
  case (Suc n)
  show ?case
  proof (cases "fmlookup (db_blocks s) (as_bytes k)")
    case None
    then show ?thesis by (simp add: get_block_header_def is_ok_iff)
  next
    case (Some bs)
    then obtain h ob where st: "stored B m s (k, h, ob)" using store_ok_lookup [OF assms] by metis
    show ?thesis using Suc [of "prev_hash h"] stored_lookup [OF st] by (auto simp: is_ok_iff)
  qed
qed (simp add: is_ok_iff)

lemma find_common_ancestor_total:
  assumes "store_ok B m s" "stored B m s (k, h, ob)"
  shows "is_ok (find_common_ancestor s k t)"
proof (cases "k = t")
  case False
  obtain S where "our_walk s (Suc (unat MAX_REORG_DEPTH_POLICY)) k {} = Ok S"
    using our_walk_total [OF assms] by (metis is_ok_iff)
  then show ?thesis using False their_walk_total [OF assms(1)] by (simp add: find_common_ancestor_def Let_def del: our_walk.simps their_walk.simps)
qed (simp add: find_common_ancestor_def is_ok_iff)

lemma load_retention_total:
  assumes "store_ok B m s" "cached_headers s H"
  shows "is_ok (load_retention_header s H x)"
proof (cases "fmlookup (db_blocks s) x")
  case None
  then show ?thesis using assms(2) by (simp add: load_retention_header_def cached_headers_def get_block_header_def is_ok_iff)
next
  case (Some bs)
  then obtain h ob where "stored B m s (Hash256 x, h, ob)" using store_ok_lookup [OF assms(1), of "Hash256 x"] by auto
  then have "load_retention_header s H (as_bytes (Hash256 x)) = Ok (Some h)" using load_retention_stored [OF assms(2)] by blast
  then show ?thesis by (simp add: is_ok_iff)
qed

lemma candidate_tip_total:
  assumes ok: "store_ok B m s" "stored B m s (Hash256 tk, th, tob)" "cached_headers s H"
  shows "is_ok (candidate_tip s H n tk cp hh)"
proof -
  obtain x h where hh: "hh = (x, h)" by (cases hh)
  obtain found where f: "find_common_ancestor s (Hash256 tk) (Hash256 x) = Ok found"
    using find_common_ancestor_total [OF ok(1,2)] by (metis is_ok_iff)
  have l: "\<exists>r. load_retention_header s H y = Ok r" for y using load_retention_total [OF ok(1,3)] by (simp add: is_ok_iff)
  show ?thesis
  proof (cases found)
    case (Some a)
    obtain r where "load_retention_header s H (as_bytes a) = Ok r" using l by blast
    then show ?thesis using f Some by (cases r) (auto simp: candidate_tip_def hh Let_def is_ok_iff)
  qed (use f in \<open>simp add: candidate_tip_def hh is_ok_iff\<close>)
qed

lemma keep_walk_total:
  assumes "store_ok B m s" "cached_headers s H"
  shows "is_ok (keep_walk s H n k X)"
proof (induction n arbitrary: k X)
  case 0
  then show ?case by (simp add: keep_walk.simps is_ok_iff)
next
  case (Suc n)
  obtain r where "load_retention_header s H (as_bytes k) = Ok r" using load_retention_total [OF assms] by (metis is_ok_iff)
  then show ?case using Suc by (cases r) (auto simp: keep_walk.simps [of s H "Suc n"] is_ok_iff Let_def)
qed

lemma canonical_hashes_total:
  assumes "canonical B m s ch" "\<forall>i \<in> set js. i < length ch"
  shows "is_ok (canonical_hashes_loop s X (map of_nat js))"
  using assms(2)
proof (induction js arbitrary: X)
  case (Cons i js)
  then show ?case using canonical_of_height [OF assms(1), of i] by simp
qed (simp add: is_ok_iff)

lemma prune_total:
  assumes ok: "chain_ok B cs ch" "ch \<noteq> []"
  shows "is_ok (prune_retained_side_chains None (cs_store cs) (tip_height cs) (as_bytes (tip_hash cs)))"
proof -
  let ?s = "cs_store cs" and ?H = "fm_entries (db_blocks (cs_store cs))"
  note f = chain_ok_fields [OF ok(1)]
  have key: "length k = 32" "\<exists>h. from_bytes deserialize_header v = Ok h" if "(k, v) \<in> set ?H" for k v
  proof -
    have lk: "fmlookup (db_blocks ?s) (as_bytes (Hash256 k)) = Some v" using that by simp
    then obtain h ob where st: "stored B (magic cs) ?s (Hash256 k, h, ob)" using store_ok_lookup [OF f(2)] by blast
    show "length k = 32" using stored_lookup(3) [OF st] by (simp add: hash256_ok_def)
    show "\<exists>h. from_bytes deserialize_header v = Ok h" using lk stored_lookup(2) [OF st] st by (auto simp: stored.simps)
  qed
  have "is_ok (read_all_block_headers_raw ?s)"
    unfolding read_all_block_headers_raw_def using key(1) by (intro is_ok_try_map) (auto simp: is_ok_iff)
  then have H: "read_all_block_headers_raw ?s = Ok ?H" using read_all_headers by (metis is_ok_iff)
  have hs: "heights_upto (height_val (tip_height cs)) = map of_nat [0 ..< length ch]"
    using heights_of_chain [OF ok(2) canonical_length [OF f(3)]] tip_height_nat(1) [OF f(3,5) ok(2)] by simp
  obtain C where C: "canonical_hashes ?s (tip_height cs) = Ok C"
    using canonical_hashes_total [OF f(3), of "[0 ..< length ch]" "{}"] unfolding canonical_hashes_def hs by (auto simp: is_ok_iff)
  have "is_ok (try_map (\<lambda>(hash, bs). map_ok (Pair hash) (from_bytes deserialize_header bs)) (filter (\<lambda>(hash, _). hash \<notin> C) ?H))"
    using key(2) by (intro is_ok_try_map) (auto simp: is_ok_iff)
  then obtain nc where nc: "try_map (\<lambda>(hash, bs). map_ok (Pair hash) (from_bytes deserialize_header bs))
      (filter (\<lambda>(hash, _). hash \<notin> C) ?H) = Ok nc" by (auto simp: is_ok_iff)
  have cached: "cached_headers ?s ?H" by (simp add: cached_headers_def)
  obtain th tob where tip: "stored B (magic cs) ?s (Hash256 (as_bytes (tip_hash cs)), th, tob)"
    using canonical_last [OF f(3) ok(2)] f(5) ok(2) by (metis hash256.collapse prod.collapse tip_ok_def)
  obtain tips where tips: "try_map (candidate_tip ?s ?H (tip_height cs) (as_bytes (tip_hash cs))
      (set (map (\<lambda>(_, h). as_bytes (prev_hash h)) nc))) nc = Ok tips"
    using is_ok_try_map candidate_tip_total [OF f(2) tip cached] by (metis is_ok_iff)
  have "is_ok (try_fold (\<lambda>keep t. keep_walk ?s ?H (unat MAX_RETAINED_SIDE_BRANCH_LENGTH) (Hash256 (rt_hash t)) keep) C
      (take MAX_RETAINED_SIDE_BRANCH_TIPS (sort_by compare_side_tips (List.map_filter id tips))))"
    by (rule is_ok_try_fold) (rule keep_walk_total [OF f(2) cached])
  then obtain keep where "try_fold (\<lambda>keep t. keep_walk ?s ?H (unat MAX_RETAINED_SIDE_BRANCH_LENGTH) (Hash256 (rt_hash t)) keep) C
      (take MAX_RETAINED_SIDE_BRANCH_TIPS (sort_by compare_side_tips (List.map_filter id tips))) = Ok keep"
    by (auto simp: is_ok_iff)
  then show ?thesis
    using H C nc tips by (auto simp: prune_retained_side_chains_def Let_def prune_known_blocks_def commit_txn_def is_ok_iff)
qed

section \<open>Reopening succeeds\<close>

lemma ensure_kernels_total:
  "\<forall>kv \<in> set kvs. fmlookup db (fst kv) = Some (snd kv) \<Longrightarrow> try_fold ensure_kernel_index db kvs = Ok db"
  by (induction kvs) (simp_all add: ensure_kernel_index_def)

lemma rebuild_kernel_total:
  assumes can: "canonical B m s ch" and net: "known_network_magic m" and led: "ledger_ok s ch" and "\<forall>i \<in> set js. i < length ch"
  shows "rebuild_kernel_loop B (\<lambda>_. None) m s (map of_nat js) = (s, Ok ())"
  using assms(4)
proof (induction js)
  case (Cons i js)
  obtain k h ob where e: "ch ! i = (k, h, ob)" by (metis prod_cases3)
  have i: "i < length ch" using Cons.prems by simp
  have "rebuild_kernel_height B (\<lambda>_. None) m s (of_nat i) = (s, Ok ())"
  proof (cases ob)
    case (Some b)
    have "(k, h, Some b) \<in> set ch" using e Some i nth_mem by metis
    then have "set (extract_kernel_excesses b k) \<subseteq> set (chain_index ch)" by (force simp: chain_index_def)
    then have "\<forall>kv \<in> set (extract_kernel_excesses b k). fmlookup (db_kernels s) (fst kv) = Some (snd kv)"
      using index_exact [OF led] by auto
    then show ?thesis
      using canonical_block_entry [OF can net i] e Some
      by (simp add: rebuild_kernel_height_def ensure_kernel_indices_def ensure_kernels_total commit_txn_def)
  qed (use canonical_block_entry [OF can net i] e in \<open>simp add: rebuild_kernel_height_def\<close>)
  then show ?case using Cons by simp
qed simp

lemma repair_total:
  assumes ok: "chain_ok B cs ch" "ch \<noteq> []"
  shows "is_ok (ensure_canonical_utxo_set B None (cs_store cs) (tip_height cs) (magic cs) True)"
proof -
  note f = chain_ok_fields [OF ok(1)]
  have st: "\<forall>e \<in> set ch. stored B (magic cs) (cs_store cs) e" using canonicalD(1) [OF f(3)] by (metis in_set_conv_nth)
  obtain u where "try_fold rebuild_entry fmempty ch = Ok u"
    using rebuild_entries_dom [OF st, of fmempty "fmdom' (db_utxos (cs_store cs))"] f(4) by (auto simp: ledger_ok_def)
  then have "reconstruct_canonical_utxo_set B (cs_store cs) (tip_height cs) (magic cs) = Ok u"
    using reconstruct_entries [OF f(3,1) ok(2)] tip_height_nat(1) [OF f(3,5) ok(2)] by simp
  moreover have "is_ok (try_fold (put_no_overwrite (Internal ''rewrite utxo'')) fmempty (fm_entries u))"
    using put_fold_Ok [of "Internal ''rewrite utxo''" fmempty "fm_entries u"] distinct_fm_entries by (auto simp: is_ok_iff)
  ultimately show ?thesis
    by (auto simp: ensure_canonical_utxo_set_def read_all_utxos_raw_def get_metadata_def Let_def persist_utxo_set_digest_def
        replace_utxo_set_def commit_txn_def is_ok_iff)
qed

lemma open_tip_total:
  assumes ok: "chain_ok B cs ch" "ch \<noteq> []"
  shows "\<exists>s. open_tip B (\<lambda>_. None) (cs_store cs) (magic cs) True (as_bytes (tip_hash cs))
    = (s, Ok (tip_hash cs, tip_height cs, tip_difficulty cs))"
proof -
  note f = chain_ok_fields [OF ok(1)]
  obtain h where h: "\<And>e. stored_header (cs_store cs) (Hash256 (as_bytes (tip_hash cs))) e = Ok h"
      "height h = tip_height cs" "total_difficulty h = tip_difficulty cs"
      "\<exists>body. get_block_body (cs_store cs) (as_bytes (tip_hash cs)) = Ok (Some body)"
      "get_hash_at_height (cs_store cs) (height_val (tip_height cs)) = Ok (Some (as_bytes (tip_hash cs)))"
      "heights_upto (height_val (tip_height cs)) = map of_nat [0 ..< length ch]"
    using open_facts [OF ok] by metis
  have k: "rebuild_kernel_index_from_canonical_chain B (\<lambda>_. None) (cs_store cs) (tip_height cs) (magic cs) = (cs_store cs, Ok ())"
    using rebuild_kernel_total [OF f(3,1,4), of "[0 ..< length ch]"] h(6) by (simp add: rebuild_kernel_index_from_canonical_chain_def)
  obtain s2 where e: "ensure_canonical_utxo_set B None (cs_store cs) (tip_height cs) (magic cs) True = Ok s2"
    using repair_total [OF ok] by (auto simp: is_ok_iff)
  have ok2: "chain_ok B (cs\<lparr>cs_store := s2\<rparr>) ch" by (rule replayed_ok [OF ok e])
  obtain s3 where p: "prune_retained_side_chains None s2 (tip_height cs) (as_bytes (tip_hash cs)) = Ok s3"
    using prune_total [OF ok2 ok(2)] by (auto simp: is_ok_iff)
  show ?thesis using h(1-5) k e p by (auto simp: open_tip_def try_in_simps)
qed

lemma genesis_anchor_total:
  assumes "known_network_magic m"
  shows "is_ok (genesis_anchor m)"
proof -
  have "is_ok (genesis_anchor NETWORK_MAGIC_MAINNET)" "is_ok (genesis_anchor NETWORK_MAGIC_TESTNET)" "is_ok (genesis_anchor NETWORK_MAGIC_REGTEST)"
    by code_simp+
  then show ?thesis using assms by (auto simp: known_network_magic_def)
qed

lemma open_total:
  assumes ok: "chain_ok B cs ch"
  shows "is_ok (snd (open_inner B (\<lambda>_. None) (cs_store cs) g (magic cs) True))
    \<longleftrightarrow> validate_persisted_genesis_identity (cs_store cs) g = Ok ()"
proof -
  note f = chain_ok_fields [OF ok]
  obtain anchor where a: "genesis_anchor (magic cs) = Ok anchor"
    using genesis_anchor_total [OF f(1)] by (auto simp: is_ok_iff)
  show ?thesis
  proof (cases "ch = []")
    case True
    then have ok': "chain_ok B cs []" using ok by simp
    show ?thesis
      by (cases "validate_persisted_genesis_identity (cs_store cs) g")
        (auto simp: open_inner_def no_tip [OF ok'] prune_empty [OF ok'] try_in_simps Let_def a)
  next
    case False
    obtain s where t: "get_chain_tip (cs_store cs) = Ok (Some (as_bytes (tip_hash cs)))"
        "open_tip B (\<lambda>_. None) (cs_store cs) (magic cs) True (as_bytes (tip_hash cs)) = (s, Ok (tip_hash cs, tip_height cs, tip_difficulty cs))"
      using open_facts [OF ok False] open_tip_total [OF ok False] by metis
    have "fst (open_inner B (\<lambda>_. None) (cs_store cs) g (magic cs) True) = s"
      by (cases "validate_persisted_genesis_identity s g") (simp_all add: open_inner_def t a try_in_simps Let_def)
    then have "chain_ok B (cs\<lparr>cs_store := s\<rparr>) ch" using open_store_ok [OF ok] by (metis prod.collapse)
    then have "canonical B (magic cs) s ch" using chain_ok_fields(3) by fastforce
    then have eq: "validate_persisted_genesis_identity s g = validate_persisted_genesis_identity (cs_store cs) g"
      by (simp add: validate_persisted_genesis_identity_def height_of_canonical [OF f(3)] height_of_canonical)
    show ?thesis
      by (cases "validate_persisted_genesis_identity (cs_store cs) g") (simp_all add: open_inner_def t a try_in_simps Let_def eq)
  qed
qed

section \<open>Reachable states\<close>

text \<open>
  The life of a chain state: opened on an empty store, given its first block, handed blocks in
  any order with any outcome of the disk, and reopened, with or without repair.  An attempt to
  reopen that fails may have written to the store; what it leaves behind is the store of the
  next state.
\<close>

inductive reachable :: "'p::ab_group_add backend \<Rightarrow> pow_env \<Rightarrow> genesis_signer \<Rightarrow> chain_state \<Rightarrow> bool" for B E S where
  open_fresh: "chain_open B io empty_store g m = (s, Ok cs) \<Longrightarrow> reachable B E S cs"
| first_block: "chain_open B io empty_store g m = (s, Ok cs) \<Longrightarrow> m = NETWORK_MAGIC_MAINNET \<or> genesis_valid B S m
    \<Longrightarrow> create_genesis_block B S io' cs = (cs', q) \<Longrightarrow> reachable B E S cs'"
| connect: "reachable B E S cs \<Longrightarrow> block_ok B b \<Longrightarrow> length (enc_block b) < USIZE_LIMIT
    \<Longrightarrow> connect_block B E S io cs b now = (cs', q) \<Longrightarrow> reachable B E S cs'"
| reopen: "reachable B E S cs \<Longrightarrow> open_inner B io (cs_store cs) g (magic cs) rep = (s, Ok cs') \<Longrightarrow> reachable B E S cs'"
| reopen_failed: "reachable B E S cs \<Longrightarrow> open_inner B io (cs_store cs) g (magic cs) rep = (s, r) \<Longrightarrow> \<not> is_ok r
    \<Longrightarrow> reachable B E S (cs\<lparr>cs_store := s\<rparr>)"

inductive_cases reachableE: "reachable B E S cs"

lemma reachable_ok:
  assumes "reachable B E S cs" "\<And>x. length (blake2b B x) = 32"
  shows "\<exists>ch. chain_ok B cs ch"
  using assms(1)
proof (induction rule: reachable.induct)
  case (open_fresh io g m s cs)
  then show ?case using fresh_ok by blast
next
  case (first_block io g m s cs io' cs' q)
  then show ?case using create_genesis_ok [OF _ assms(2)] fresh_ok by metis
next
  case (connect cs b io now cs' q)
  then show ?case using connect_block_ok [OF _ assms(2)] by blast
next
  case (reopen cs io g rep s cs')
  then show ?case using open_ok by blast
next
  case (reopen_failed cs io g rep s r)
  then show ?case using open_store_ok by blast
qed

section \<open>What the invariant gives\<close>

lemma chain_block_heights:
  assumes "canonical B m s ch"
  shows "map (\<lambda>b. hgt (header b)) (chain_blocks ch) = (if m = NETWORK_MAGIC_MAINNET then [1 ..< length ch] else [0 ..< length ch])"
proof -
  have blk: "\<exists>b. snd (snd (ch ! i)) = Some b \<and> hgt (header b) = i" if i: "i < length ch" and n: "\<not> (m = NETWORK_MAGIC_MAINNET \<and> i = 0)" for i
  proof -
    obtain k h ob where e: "ch ! i = (k, h, ob)" "stored B m s (k, h, ob)" "hgt h = i" using canonical_nth [OF assms i] by metis
    obtain b where "ob = Some b" using n e(2,3) by (cases ob) (auto simp: stored.simps)
    then show ?thesis using e stored_block(4) [of B m s k h b] by auto
  qed
  have none: "snd (snd (ch ! 0)) = None" if m: "m = NETWORK_MAGIC_MAINNET" and ne: "ch \<noteq> []"
  proof -
    obtain k h ob where "ch ! 0 = (k, h, ob)" "stored B m s (k, h, ob)" "hgt h = 0" using canonical_nth [OF assms, of 0] ne by auto
    then show ?thesis using m by (cases ob) (auto simp: stored.simps)
  qed
  have gen: "map (\<lambda>b. hgt (header b)) (chain_blocks (drop j ch)) = [j ..< length ch]"
    if "j \<le> length ch" "\<not> (m = NETWORK_MAGIC_MAINNET \<and> j = 0)" for j
    using that
  proof (induction "length ch - j" arbitrary: j)
    case (Suc n)
    then have j: "j < length ch" by simp
    obtain k h ob where e: "ch ! j = (k, h, ob)" by (metis prod_cases3)
    obtain b where b: "ob = Some b" "hgt (header b) = j" using blk [OF j Suc.prems(2)] e by auto
    have "drop j ch = (k, h, Some b) # drop (Suc j) ch" using j e b by (simp add: Cons_nth_drop_Suc [symmetric])
    then show ?case using Suc.hyps(1) [of "Suc j"] Suc.hyps(2) j b(2) by (simp add: upt_conv_Cons)
  qed simp
  show ?thesis
  proof (cases "m = NETWORK_MAGIC_MAINNET \<and> ch \<noteq> []")
    case True
    then obtain e ch' where ch: "ch = e # ch'" by (cases ch) auto
    then have "snd (snd e) = None" using none True by simp
    then have "chain_blocks ch = chain_blocks (drop 1 ch)" using ch by (cases e) simp
    then show ?thesis using gen [of 1] True ch by simp
  qed (use gen [of 0] in auto)
qed

lemma chain_subsidies:
  assumes "canonical B m s ch"
  shows "sum_list (map block_subsidy (chain_blocks ch))
    = sum_list (map subsidy_at (if m = NETWORK_MAGIC_MAINNET then [1 ..< length ch] else [0 ..< length ch]))"
proof -
  have "block_subsidy b = subsidy_at (hgt (header b))" for b
    using unat_block_reward [of "height_val (height (header b))"] by (simp add: block_subsidy_def)
  then have "map block_subsidy (chain_blocks ch) = map subsidy_at (map (\<lambda>b. hgt (header b)) (chain_blocks ch))"
    by simp
  then show ?thesis unfolding chain_block_heights [OF assms] by simp
qed

lemma mainnet_subsidies:
  assumes "canonical B NETWORK_MAGIC_MAINNET s ch"
  shows "sum_list (map block_subsidy (chain_blocks ch)) \<le> 3299996676900000"
proof -
  have "{1 ..< length ch} = {1 .. length ch - 1}" by auto
  then have "sum_list (map block_subsidy (chain_blocks ch)) = (\<Sum>h = 1..length ch - 1. subsidy_at h)"
    unfolding chain_subsidies [OF assms] by (simp add: interv_sum_list_conv_sum_set_nat)
  then show ?thesis using subsidy_sum_le by simp
qed

end
