(* ===== verification/Chain_Facts.thy ===== *)
theory Chain_Facts
  imports Chain_Reach
begin

text \<open>
  What the chain invariant gives the rest of the node: fork choice as an order on tips, the
  uniqueness of the canonical chain, the supply, the blocks a reorganisation keeps, typed reads of
  the store, the end of the promotion walks, and acceptance of a good extension of the tip.
\<close>

section \<open>The fork-choice contract\<close>

text \<open>
  What a fork-choice rule promises to the node: of two different tips exactly one is better, and
  better is transitive.  Then the tip kept does not depend on the order of arrival.
\<close>

definition keep_better :: "('t \<Rightarrow> 't \<Rightarrow> bool) \<Rightarrow> 't \<Rightarrow> 't \<Rightarrow> 't" where
  "keep_better better current t = (if better t current then t else current)"

locale fork_choice =
  fixes better :: "'t \<Rightarrow> 't \<Rightarrow> bool"
  assumes irrefl: "\<not> better t t"
    and trans: "better a b \<Longrightarrow> better b c \<Longrightarrow> better a c"
    and total: "a \<noteq> b \<Longrightarrow> better a b \<or> better b a"
begin

lemma asym: "better a b \<Longrightarrow> \<not> better b a"
  using trans [of a b a] irrefl [of a] by blast

lemma keep_best: "foldl (keep_better better) t ts \<in> insert t (set ts) \<and> (\<forall>u \<in> insert t (set ts). u \<noteq> foldl (keep_better better) t ts \<longrightarrow> better (foldl (keep_better better) t ts) u)"
proof (induction ts arbitrary: t)
  case (Cons u ts)
  let ?b = "foldl (keep_better better) (keep_better better t u) ts"
  have in_b: "?b \<in> insert (keep_better better t u) (set ts)" and best: "\<And>v. v \<in> insert (keep_better better t u) (set ts) \<Longrightarrow> v \<noteq> ?b \<Longrightarrow> better ?b v"
    using Cons [of "keep_better better t u"] by blast+
  have loser: "better ?b v" if v: "v \<in> {t, u}" "v \<noteq> ?b" for v
  proof (cases "v = keep_better better t u")
    case False
    then have "better (keep_better better t u) v" using v(1) total asym unfolding keep_better_def by (auto split: if_splits)
    then show ?thesis using best [of "keep_better better t u"] trans by (cases "keep_better better t u = ?b") auto
  qed (use best [of v] v(2) in simp)
  have "?b \<in> insert t (set (u # ts))" using in_b by (auto simp: keep_better_def)
  then show ?case using loser best by auto
qed simp

lemma best_unique:
  assumes "a \<in> X" "b \<in> X" "\<forall>u \<in> X. u \<noteq> a \<longrightarrow> better a u" "\<forall>u \<in> X. u \<noteq> b \<longrightarrow> better b u"
  shows "a = b"
proof (rule ccontr)
  assume "a \<noteq> b"
  then have "better a b" "better b a" using assms by auto
  then show False using asym by blast
qed

lemma order_independent:
  assumes "insert t (set ts) = insert t' (set ts')"
  shows "foldl (keep_better better) t ts = foldl (keep_better better) t' ts'"
  using keep_best [of t ts] keep_best [of t' ts'] unfolding assms by (intro best_unique [of _ "insert t' (set ts')"]) blast+

end

definition better_tip :: "nat \<times> hash256 \<Rightarrow> nat \<times> hash256 \<Rightarrow> bool" where
  "better_tip a b = is_better_fork_choice_tip (fst a) (snd a) (fst b) (snd b)"

interpretation fc: fork_choice better_tip
proof
  fix a b c :: "nat \<times> hash256"
  show "\<not> better_tip a a" by (simp add: better_tip_def is_better_fork_choice_tip_def)
  show "better_tip a c" if "better_tip a b" "better_tip b c"
    using that less_trans [of "as_bytes (snd a)" "as_bytes (snd b)" "as_bytes (snd c)"]
    unfolding better_tip_def is_better_fork_choice_tip_def by linarith
  show "better_tip a b \<or> better_tip b a" if "a \<noteq> b"
  proof (cases "fst a = fst b")
    case True
    then have "as_bytes (snd a) \<noteq> as_bytes (snd b)" using that hash256.expand by (metis prod.expand)
    then show ?thesis using True unfolding better_tip_def is_better_fork_choice_tip_def by (metis linorder_neqE)
  next
    case False
    then show ?thesis unfolding better_tip_def is_better_fork_choice_tip_def by linarith
  qed
qed

section \<open>Consequences\<close>

lemma canonical_unique:
  assumes "canonical B m s ch" "canonical B m s ch'"
  shows "ch = ch'"
proof -
  have le: "length a \<le> length b" if a: "canonical B m s a" and b: "canonical B m s b" for a b
  proof (rule ccontr)
    assume "\<not> length a \<le> length b"
    then have i: "length b < length a" by simp
    then have "unat (of_nat (length b) :: u64) = length b" using canonical_length [OF a] by (simp add: unat_of_nat)
    then have "fmlookup (db_height s) (u64_to_le (of_nat (length b))) = None"
      using canonicalD(5) [OF b, of "of_nat (length b)"] by simp
    then show False using canonicalD(3) [OF a i] by simp
  qed
  have len: "length ch = length ch'" using le [OF assms] le [OF assms(2,1)] by simp
  show ?thesis
  proof (rule nth_equalityI [OF len])
    fix i assume i: "i < length ch"
    have i': "i < length ch'" using i len by simp
    obtain k h ob where e: "ch ! i = (k, h, ob)" "stored B m s (k, h, ob)" by (rule canonical_nth [OF assms(1) i])
    obtain k' h' ob' where e': "ch' ! i = (k', h', ob')" "stored B m s (k', h', ob')" by (rule canonical_nth [OF assms(2) i'])
    have "as_bytes k = as_bytes k'" using canonicalD(3) [OF assms(1) i] canonicalD(3) [OF assms(2) i'] e(1) e'(1) by simp
    then have "k = k'" by (rule hash256.expand)
    then show "ch ! i = ch' ! i" using e e' stored_unique [of B m s k h ob h' ob'] by simp
  qed
qed

lemma chain_supply:
  assumes ok: "chain_ok B cs ch" and law: "mul_law B" "h_point B = Ok H"
    and op: "\<forall>b \<in> set (chain_blocks ch). opens_block B H op ex b"
    and nb: "\<not> (\<exists>b \<in> set (chain_blocks ch). breaks_commitment B H op ex b)"
  shows "(\<Sum>c \<in> fmdom' (db_utxos (cs_store cs)). fst (op c)) = sum_list (map block_subsidy (chain_blocks ch))"
proof -
  note f = chain_ok_fields [OF ok]
  have "block_ok B b \<and> (\<exists>ctx. block_valid B ctx (magic cs) b)" if "b \<in> set (chain_blocks ch)" for b
  proof -
    obtain k h where "(k, h, Some b) \<in> set ch" using \<open>b \<in> set (chain_blocks ch)\<close> by (auto simp: chain_blocks_def split: option.splits)
    then have "stored B (magic cs) (cs_store cs) (k, h, Some b)" using canonicalD(1) [OF f(3)] by (metis in_set_conv_nth)
    then show ?thesis using stored_block(3,6) by blast
  qed
  then show ?thesis
    using ledger_supply [OF law, of "{}" "chain_blocks ch" "fmdom' (db_utxos (cs_store cs))" "magic cs" op ex] f(4) op nb
    by (simp add: ledger_ok_def)
qed

lemma moves_keep_prefix:
  assumes "chain_moves ch ch'" "i < length ch" "i \<le> length ch - 1 - 359"
  shows "i < length ch'" "ch' ! i = ch ! i"
proof -
  have "i < length ch' \<and> ch' ! i = ch ! i"
    using assms(1) unfolding chain_moves_def
  proof (elim disjE exE conjE)
    fix j es assume j: "j < length ch" "ch' = take (Suc j) ch @ rev es" "360 \<le> length ch - 1 \<longrightarrow> length ch - Suc j < 360"
    then have "i \<le> j" using assms(3) by auto
    then show ?thesis using j(1,2) by (simp add: nth_append)
  qed (use assms(2) in \<open>simp_all add: nth_append\<close>)
  then show "i < length ch'" "ch' ! i = ch ! i" by blast+
qed

lemma same_chain_store:
  assumes ok: "chain_ok B cs ch" "chain_ok B (cs\<lparr>cs_store := s\<rparr>) ch"
  shows "db_tip s = db_tip (cs_store cs) \<and> get_hash_at_height s = get_hash_at_height (cs_store cs)
    \<and> fmdom' (db_utxos s) = fmdom' (db_utxos (cs_store cs)) \<and> db_kernels s = db_kernels (cs_store cs)"
proof -
  note f = chain_ok_fields [OF ok(1)] and f' = chain_ok_fields [OF ok(2)]
  have can: "canonical B (magic cs) s ch" and led: "ledger_ok s ch" using f'(3,4) by simp_all
  have "get_hash_at_height s x = get_hash_at_height (cs_store cs) x" for x
    by (simp add: height_of_canonical [OF f(3)] height_of_canonical [OF can])
  moreover have "fmlookup (db_kernels s) x = fmlookup (db_kernels (cs_store cs)) x" for x
    using index_exact [OF f(4)] index_exact [OF led] by (metis not_None_eq)
  moreover have "db_tip s = db_tip (cs_store cs)" using f(5) f'(5) by (simp add: tip_ok_def split: if_splits)
  ultimately show ?thesis using f(4) led by (auto simp: ledger_ok_def fun_eq_iff intro: fmap_ext)
qed

lemma reopened_store:
  assumes "chain_ok B cs ch" "open_inner B io (cs_store cs) g (magic cs) rep = (s, r)"
  shows "db_tip s = db_tip (cs_store cs)" "get_hash_at_height s = get_hash_at_height (cs_store cs)"
    "fmdom' (db_utxos s) = fmdom' (db_utxos (cs_store cs))" "db_kernels s = db_kernels (cs_store cs)"
  using same_chain_store [OF assms(1) open_store_ok [OF assms]] by simp_all

lemma reopened_tip:
  assumes "chain_ok B cs ch" "open_inner B io (cs_store cs) g (magic cs) rep = (s, r)" "r = Ok cs'"
  shows "cs_store cs' = s" "tip_hash cs' = tip_hash cs" "tip_height cs' = tip_height cs" "tip_difficulty cs' = tip_difficulty cs"
  using open_fields [OF assms(1)] assms(2,3) by blast+

lemma reads_typed:
  assumes ok: "chain_ok B cs ch"
  shows "get_chain_tip (cs_store cs) = Ok (if ch = [] then None else Some (as_bytes (tip_hash cs)))"
    and "is_ok (get_hash_at_height (cs_store cs) x)" "is_ok (get_kernel_block (cs_store cs) c)" "is_ok (get_utxo (cs_store cs) c)"
    and "fmlookup (db_blocks (cs_store cs)) k = Some bs \<Longrightarrow> \<exists>h ob. stored B (magic cs) (cs_store cs) (Hash256 k, h, ob)
      \<and> from_bytes deserialize_header bs = Ok h"
proof -
  note f = chain_ok_fields [OF ok]
  show "get_chain_tip (cs_store cs) = Ok (if ch = [] then None else Some (as_bytes (tip_hash cs)))"
  proof (cases "ch = []")
    case False
    then have "hash256_ok (tip_hash cs)" using canonical_last [OF f(3)] f(5) stored_lookup(3) by (metis prod.collapse tip_ok_def)
    then show ?thesis using f(5) False by (simp add: tip_ok_def get_chain_tip_def hash_value_def hash256_ok_def)
  qed (use f(5) in \<open>simp add: tip_ok_def get_chain_tip_def hash_value_def\<close>)
  show "is_ok (get_hash_at_height (cs_store cs) x)" by (simp add: height_of_canonical [OF f(3)])
  show "is_ok (get_kernel_block (cs_store cs) c)"
    using f(4) by (cases "fmlookup (db_kernels (cs_store cs)) c") (auto simp: ledger_ok_def get_kernel_block_def hash_value_def is_ok_iff)
  show "is_ok (get_utxo (cs_store cs) c)"
    using f(4) by (cases "fmlookup (db_utxos (cs_store cs)) c") (fastforce simp: ledger_ok_def get_utxo_def is_ok_iff)+
  show "\<exists>h ob. stored B (magic cs) (cs_store cs) (Hash256 k, h, ob) \<and> from_bytes deserialize_header bs = Ok h"
    if "fmlookup (db_blocks (cs_store cs)) k = Some bs"
    using that f(2) unfolding store_ok_def by (fastforce simp: stored.simps)
qed

lemma walks_end:
  assumes ok: "chain_ok B cs ch" and r: "reorg_ancestor cs t = Ok (anc, ah)" and n: "BRANCH_WALK_STEPS \<le> n"
  shows "\<exists>ds es. validate_branch_header_syntax (cs_store cs) (magic cs) anc n t = Ok ()
    \<and> collect_branch_blocks B (cs_store cs) anc n t = Ok es \<and> length es \<le> 1000
    \<and> collect_branch_blocks B (cs_store cs) anc n (tip_hash cs) = Ok ds \<and> length ds = length ch - Suc (unat ah)"
proof -
  note f = chain_ok_fields [OF ok]
  have "ch \<noteq> []" using reorg_ancestor_tip [OF f(2) r] f(5) by (auto simp: tip_ok_def)
  then obtain i es where "unat ah = i" "length es \<le> 1000" "validate_branch_header_syntax (cs_store cs) (magic cs) anc n t = Ok ()"
      "collect_branch_blocks B (cs_store cs) anc n t = Ok (bodies es)"
      "collect_branch_blocks B (cs_store cs) anc n (tip_hash cs) = Ok (bodies (rev (drop (Suc i) ch)))"
    using reorg_walks [OF ok _ r n] by metis
  then show ?thesis by simp
qed

lemma direct_connects:
  assumes ok: "chain_ok B cs ch" and arr: "block_arrives B (magic cs) (cs_store cs) k b"
    and new: "as_bytes k \<notin> fmdom' (db_blocks (cs_store cs))" "as_bytes k \<notin> fmdom' (db_block_bodies (cs_store cs))"
    and direct: "hgt (header b) = 0 \<or> prev_hash (header b) = tip_hash cs"
    and gen: "hgt (header b) = 0 \<Longrightarrow> fmlookup (db_height (cs_store cs)) (u64_to_le 0) \<in> {None, Some (as_bytes k)}"
    and inputs: "validate_direct_extension_inputs cs b = Ok ()"
    and outs: "set (block_created b) \<inter> fmdom' (db_utxos (cs_store cs)) = {}"
    and kern: "distinct (block_kernels b)" "set (block_kernels b) \<inter> fmdom' (db_kernels (cs_store cs)) = {}"
  shows "\<exists>s. connect_direct (\<lambda>_. None) cs b k (enc_header (header b)) (enc_block b)
    = ((with_tip cs s k (header b)), Ok BestChain)"
proof -
  let ?s = "cs_store cs"
  have bd: "body_distinct b" using arr block_valid_distinct by (auto simp: block_arrives_def)
  have sp: "set (block_spent b) \<subseteq> fmdom' (db_utxos ?s)"
    using inputs unfolding validate_direct_extension_inputs_def for_each_eq_Ok
    by (auto simp: check_direct_input_def get_utxo_def fmlookup_dom'_iff split: option.splits)
  have "\<exists>s. commit_block None ?s (as_bytes k) (height_val (height (header b))) (enc_header (header b)) (enc_block b)
      (fst (build_utxo_changeset b)) (block_spent b) (extract_kernel_excesses b k) = Ok s"
    unfolding commit_block_Ok new_utxo_keys kernel_keys using new bd sp outs kern by (auto simp: body_distinct_def)
  then obtain s where s: "commit_block None ?s (as_bytes k) (height_val (height (header b))) (enc_header (header b)) (enc_block b)
      (fst (build_utxo_changeset b)) (block_spent b) (extract_kernel_excesses b k) = Ok s" by blast
  have ok1: "chain_ok B (with_tip cs s k (header b)) (ch @ [(k, header b, Some b)])"
    using commit_tip_ok [OF ok arr extends_tip [OF ok arr new(1) direct gen] s] by (simp add: with_tip_def)
  obtain s' where p: "prune_retained_side_chains None s (height (header b)) (as_bytes k) = Ok s'"
    using prune_total [OF ok1] by (auto simp: with_tip_def is_ok_iff)
  have f1: "for_each (check_fresh_output ?s) (map fst (block_new_entries b)) = Ok ()"
    using outs by (auto simp: for_each_eq_Ok check_fresh_output_def get_utxo_def block_created_def fmlookup_dom'_iff split: option.splits)
  have f2: "for_each (check_fresh_kernel ?s) (map fst (extract_kernel_excesses b k)) = Ok ()"
    using kern(2) by (auto simp: kernel_keys for_each_eq_Ok check_fresh_kernel_def get_kernel_block_def hash_value_def fmlookup_dom'_iff
        split: option.splits)
  have "connect_direct (\<lambda>_. None) cs b k (enc_header (header b)) (enc_block b) = (with_tip cs s' k (header b), Ok BestChain)"
    using s p by (simp add: connect_direct_def Let_def build_utxo_changeset_def try_in_simps with_tip_def inputs f1 f2 del: for_each_eq_Ok)
  then show ?thesis by blast
qed

lemma quotient_high_half:
  assumes "length n = 32"
  shows "be_to_nat n div t div 2 ^ 128 < 2 ^ 128"
proof -
  have "be_to_nat n div t \<le> be_to_nat n" by (rule div_le_dividend)
  also have "\<dots> < 2 ^ 128 * 2 ^ 128" using be_to_nat_less [of n] assms by simp
  finally show ?thesis by (rule less_mult_imp_div_less)
qed

lemma difficulty_positive:
  assumes "target_to_difficulty_for_network_height m h t = Ok d"
  shows "0 < d"
proof -
  obtain n :: bytes where n: "length n = 32"
      "and_then (Ok n) (\<lambda>numerator. let target_value = be_to_nat t in if target_value = 0 then Ok U128_MAX
        else let quotient = be_to_nat numerator div target_value in
          Ok (if u256_shr quotient 128 = 0 then max (low_u128 quotient) 1 else low_u128 (u256_shr quotient 128))) = (Ok d :: nat dom_result)"
  proof (cases "rescue_active m h")
    case True
    show ?thesis by (rule that [of "[0, 0xff, 0xff] @ replicate 29 0"])
        (use assms True in \<open>simp_all add: target_to_difficulty_for_network_height_def
          MAINNET_ASERT_RESCUE_MAX_COMPACT_TARGET_def to_target_constants\<close>)
  next
    case False
    have "length MAX_TARGET_BYTES = 32" by (simp add: MAX_TARGET_BYTES_def)
    then show ?thesis by (rule that) (use assms False in \<open>simp add: target_to_difficulty_for_network_height_def\<close>)
  qed
  then show ?thesis using quotient_high_half [OF n(1), of "be_to_nat t"] by (auto simp: U128_MAX_def u256_shr_def low_u128_def Let_def split: if_splits)
qed

lemma direct_improves:
  assumes ok: "chain_ok B cs ch" and arr: "block_arrives B (magic cs) (cs_store cs) k b"
    and new: "as_bytes k \<notin> fmdom' (db_blocks (cs_store cs))"
    and direct: "hgt (header b) = 0 \<or> prev_hash (header b) = tip_hash cs"
    and v: "validate_new_block B E S cs b k now = Ok ()"
  shows "is_better_fork_choice_tip (total_difficulty (header b)) k (tip_difficulty cs) (tip_hash cs)"
proof -
  note f = chain_ok_fields [OF ok]
  have e: "hgt (header b) = length ch" "ch \<noteq> [] \<Longrightarrow> prev_hash (header b) = fst (last ch)"
    using extends_tip [OF ok arr new direct new_genesis_index [OF v]] by blast+
  obtain p where p: "check_parent cs (header b) = Ok p"
      "check_total_difficulty cs (header b) (case p of Some p \<Rightarrow> total_difficulty p | None \<Rightarrow> 0) = Ok ()"
    using new_block_checks(3) [OF v] by blast
  have more: "parent < total_difficulty (header b)" if "check_total_difficulty cs (header b) parent = Ok ()" for parent
    using that difficulty_positive
    by (fastforce simp: check_total_difficulty_def checked_accumulated_difficulty_def split: if_splits)
  show ?thesis
  proof (cases "ch = []")
    case True
    then have "p = None" "tip_difficulty cs = 0"
      using p(1) e(1) f(5) genesis_height_iff [of "header b"] by (auto simp: check_parent_def tip_ok_def)
    then show ?thesis using more [OF p(2)] by (simp add: is_better_fork_choice_tip_def)
  next
    case False
    obtain t where t: "stored B (magic cs) (cs_store cs) (fst (last ch), t)" "last ch = (fst (last ch), t)"
      using canonical_last [OF f(3) False] by (metis prod.collapse)
    obtain h ob where h: "t = (h, ob)" by (cases t)
    have "0 < hgt (header b)" using e(1) False by simp
    then have "p = Some h"
      using check_parent_Some [OF p(1)] stored_header_stored [of B "magic cs" "cs_store cs" "fst (last ch)" h ob] e(2) t(1) h False by auto
    moreover have "tip_difficulty cs = total_difficulty h" using f(5) False t(2) h by (simp add: tip_ok_def) (metis fst_conv snd_conv)
    ultimately show ?thesis using more [OF p(2)] by (simp add: is_better_fork_choice_tip_def)
  qed
qed

lemma connect_block_direct:
  assumes ok: "chain_ok B cs ch" and hash: "\<And>x. length (blake2b B x) = 32"
    and b: "block_ok B b" "length (enc_block b) < USIZE_LIMIT"
    and id: "compute_block_identifier B (magic cs) (enc_header (header b)) = Ok k"
    and new: "as_bytes k \<notin> fmdom' (db_blocks (cs_store cs))" "as_bytes k \<notin> fmdom' (db_block_bodies (cs_store cs))"
    and v: "validate_new_block B E S cs b k now = Ok ()"
    and direct: "hgt (header b) = 0 \<or> prev_hash (header b) = tip_hash cs"
    and inputs: "validate_direct_extension_inputs cs b = Ok ()"
    and outs: "set (block_created b) \<inter> fmdom' (db_utxos (cs_store cs)) = {}"
    and kern: "distinct (block_kernels b)" "set (block_kernels b) \<inter> fmdom' (db_kernels (cs_store cs)) = {}"
  shows "\<exists>s. connect_block B E S (\<lambda>_. None) cs b now = (with_tip cs s k (header b), Ok BestChain)
    \<and> chain_ok B (with_tip cs s k (header b)) (ch @ [(k, header b, Some b)])"
proof -
  have arr: "block_arrives B (magic cs) (cs_store cs) k b" by (rule new_block_arrives [OF ok hash b id v])
  have hb: "to_bytes serialize_header (header b) = Ok (enc_header (header b))" "to_bytes serialize_block b = Ok (enc_block b)"
    using b by (auto simp: header.to_bytes_enc blk.to_bytes_enc block_ok_def)
  have "connect_block B E S (\<lambda>_. None) cs b now = connect_direct (\<lambda>_. None) cs b k (enc_header (header b)) (enc_block b)"
    using direct_improves [OF ok arr new(1) direct v] hb id new(1) v direct genesis_height_iff [of "header b"]
    by (auto simp: connect_block_def Let_def try_in_simps get_block_header_def fmlookup_dom'_iff)
  moreover obtain s where s: "connect_direct (\<lambda>_. None) cs b k (enc_header (header b)) (enc_block b)
      = (with_tip cs s k (header b), Ok BestChain)"
    using direct_connects [OF ok arr new direct new_genesis_index [OF v] inputs outs kern] by blast
  moreover have "chain_ok B (with_tip cs s k (header b)) (ch @ [(k, header b, Some b)])"
    using connect_direct_ok [OF ok arr new(1) direct new_genesis_index [OF v] s] by simp
  ultimately show ?thesis by metis
qed

section \<open>Overlays of a reorganization\<close>

lemma resurrect_index:
  assumes "try_fold (resurrect_input B s ah index) ov cs = Ok u" "fmlookup index c = Some e"
  shows "fmlookup u c = (if c \<in> set cs then Some (Some e) else fmlookup ov c)"
  using assms(1)
proof (induction cs arbitrary: ov)
  case (Cons d ds)
  then obtain ov1 where 1: "resurrect_input B s ah index ov d = Ok ov1" "try_fold (resurrect_input B s ah index) ov1 ds = Ok u" by auto
  have "fmlookup ov1 c = (if c = d then Some (Some e) else fmlookup ov c)"
    using 1(1) assms(2) by (auto simp: resurrect_input_def)
  then show ?case using Cons.IH [OF 1(2)] by auto
qed simp

lemma recorded_output:
  assumes "distinct (block_created b)" "(c, e) \<in> set (block_new_entries b)"
  shows "fmlookup (record_block_outputs m b) c = Some e"
proof -
  have "fmlookup (foldl (\<lambda>m (c, e). fmupd c e m) m xs) c = Some e" if "distinct (map fst xs)" "(c, e) \<in> set xs" for xs
    using that by (induction xs rule: rev_induct) (auto simp: image_iff)
  then show ?thesis using assms by (simp add: record_block_outputs_def block_created_def)
qed

lemma unrecorded_output:
  assumes "c \<notin> set (block_created b)"
  shows "fmlookup (record_block_outputs m b) c = fmlookup m c"
proof -
  have "fmlookup (foldl (\<lambda>m (c, e). fmupd c e m) m xs) c = fmlookup m c" if "c \<notin> fst ` set xs" for xs
    using that by (induction xs rule: rev_induct) auto
  then show ?thesis using assms by (simp add: record_block_outputs_def block_created_def)
qed

lemma cleared_other: "c \<notin> fst ` set xs \<Longrightarrow> fmlookup (foldl (\<lambda>m (c, _). fmupd c None m) m xs) c = fmlookup m c"
  by (induction xs arbitrary: m) auto

lemma try_fold_frame:
  "try_fold f a xs = Ok b \<Longrightarrow> (\<And>a x b. x \<in> set xs \<Longrightarrow> f a x = Ok b \<Longrightarrow> g b = g a) \<Longrightarrow> g b = g a"
proof (induction xs arbitrary: a)
  case (Cons x xs)
  then obtain a1 where "f a x = Ok a1" "try_fold f a1 xs = Ok b" by auto
  then show ?case using Cons.IH [of a1] Cons.prems(2) by (metis list.set_intros)
qed simp

lemma connect_untouched:
  assumes "apply_connect s maturity ov (k, b) = Ok ov'" "c \<notin> set (block_created b)" "c \<notin> set (block_spent b)"
  shows "fmlookup (fst ov') c = fmlookup (fst ov) c"
proof -
  obtain u1 u2 where u: "try_fold (connect_spend s maturity b) (fst ov) (block_spent b) = Ok u1"
      "try_fold (connect_create s) u1 (block_new_entries b) = Ok u2" "fst ov' = u2"
    using assms(1) by (auto simp: apply_connect_def Let_def split: prod.splits)
  have "fmlookup u1 c = fmlookup (fst ov) c"
    using u(1) by (rule try_fold_frame [where g = "\<lambda>m. fmlookup m c"])
      (use assms(3) in \<open>auto simp: connect_spend_def split: if_splits\<close>)
  moreover have "fmlookup u2 c = fmlookup u1 c"
    using u(2) by (rule try_fold_frame [where g = "\<lambda>m. fmlookup m c"])
      (use assms(2) in \<open>auto simp: connect_create_def block_created_def split: if_splits\<close>)
  ultimately show ?thesis using u(3) by simp
qed

lemma identity_first_byte: "identity_from_canonical_bytes B bs = Ok i \<Longrightarrow> bs ! 0 = 1"
  unfolding identity_from_canonical_bytes_def and_then_eq_Ok take_bytes_def MAINNET_GENESIS_IDENTITY_VERSION_def
  by (cases bs) (auto split: if_splits)

end
