(* ===== verification/Chain_Demo.thy ===== *)
theory Chain_Demo
  imports Chain_Facts
begin

text \<open>
  A concrete chain over the integer backend: a store opened on Testnet without a configured
  genesis identifier, and its first block, whose coinbase pays the subsidy.  The proof-of-work
  hash of the environment is constant.
\<close>

definition demo_env :: pow_env where
  "demo_env = \<lparr>rx_hash = (\<lambda>seed preimage. Ok (replicate 32 0)), fast_regtest_mining_requested = False\<rparr>"

definition demo_signer :: genesis_signer where
  "demo_signer = \<lparr>prove_with_nonce = (\<lambda>v blinding proof_nonce. Err (Internal ''no prover'')),
    schnorr_sign = (\<lambda>key message ctx. Err (Internal ''no signer''))\<rparr>"

definition demo_start :: chain_state where
  "demo_start = \<lparr>cs_store = empty_store, tip_hash = Hash256_ZERO, tip_height = BlockHeight_GENESIS, tip_difficulty = 0,
    genesis_hash = Hash256_ZERO, cs_anchor = (case genesis_anchor NETWORK_MAGIC_TESTNET of Ok a \<Rightarrow> a),
    magic = NETWORK_MAGIC_TESTNET, coinbase_maturity = coinbase_maturity_for_magic NETWORK_MAGIC_TESTNET\<rparr>"

definition demo_reward_coinbase :: coinbase_transaction where
  "demo_reward_coinbase = \<lparr>cb_output = \<lparr>to_commitment = demo_commit 23100000000, to_proof = replicate 739 0\<rparr>,
    cb_kernel = \<lparr>ck_features = 1, ck_explicit_value = 3300000000, ck_excess = demo_commit 0,
      ck_excess_signature = demo_signature\<rparr>,
    cb_offset = replicate 32 0\<rparr>"

definition demo_first_roots :: "hash256 \<times> hash256 \<times> hash256" where
  "demo_first_roots = (case compute_block_pmmr_roots demo_backend (BlockHeight 0) demo_reward_coinbase [] of
     Ok x \<Rightarrow> x | _ \<Rightarrow> (Hash256 [], Hash256 [], Hash256 []))"

definition demo_first :: block where
  "demo_first = \<lparr>header = demo_header\<lparr>version := required_block_version_for_network NETWORK_MAGIC_TESTNET 0,
      output_root := fst demo_first_roots, kernel_root := fst (snd demo_first_roots),
      rangeproof_root := snd (snd demo_first_roots)\<rparr>,
    coinbase = demo_reward_coinbase, transactions = []\<rparr>"

definition demo_now :: timestamp where "demo_now = Timestamp 100"

definition demo_first_hash :: hash256 where
  "demo_first_hash = compute_block_hash demo_backend (enc_header (header demo_first))"

lemma demo_open: "chain_open demo_backend (\<lambda>_. None) empty_store Hash256_ZERO NETWORK_MAGIC_TESTNET = (empty_store, Ok demo_start)"
proof -
  obtain a where "genesis_anchor NETWORK_MAGIC_TESTNET = Ok a"
    using network_magics_distinct(1) by (simp add: network_setup_simps to_target_constants network_magics_distinct(1) [symmetric])
  moreover have "fm_entries (db_blocks empty_store) = []" by (simp add: empty_store_def fm_entries_Nil)
  then have "prune_retained_side_chains None empty_store BlockHeight_GENESIS (replicate 32 0) = Ok empty_store"
    by (simp add: prune_retained_side_chains_def read_all_block_headers_raw_def)
  moreover have "get_chain_tip empty_store = Ok None" "\<And>h. get_hash_at_height empty_store h = Ok None"
    by (simp_all add: empty_store_def get_chain_tip_def get_hash_at_height_def hash_value_def)
  ultimately show ?thesis
    by (simp add: chain_open_def open_inner_def try_in_simps demo_start_def validate_persisted_genesis_identity_def)
qed

lemma demo_start_reachable: "reachable demo_backend demo_env demo_signer demo_start"
  by (rule open_fresh [OF demo_open])

lemma demo_start_ok: "chain_ok demo_backend demo_start []"
  using fresh_ok [OF demo_open] by blast

lemma demo_first_lists:
  "block_outputs demo_first = [demo_commit 23100000000]" "block_inputs demo_first = []"
  "block_excesses demo_first = [demo_commit 0]" "transactions demo_first = []" "height (header demo_first) = BlockHeight 0"
  "prev_hash (header demo_first) = Hash256_ZERO" "target (header demo_first) = CompactTarget 0x1e7fffff"
  "total_difficulty (header demo_first) = 1" "total_kernel_offset (header demo_first) = replicate 32 0"
  "hdr_timestamp (header demo_first) = Timestamp 7" "randomx_hash (pow (header demo_first)) = Hash256 (replicate 32 0)"
  "coinbase demo_first = demo_reward_coinbase"
  by (simp_all add: block_outputs_def block_inputs_def block_excesses_def demo_first_def demo_reward_coinbase_def
      demo_header_def Hash256_ZERO_def)

lemma demo_first_body_ok: "body_ok demo_backend demo_reward_coinbase []"
  by (simp add: body_ok_def coinbase_ok_def output_ok_def coinbase_kernel_ok_def
      demo_reward_coinbase_def demo_commit_ok dom_consts demo_signature_def)

lemma demo_first_header: "header_ok (header demo_first)"
proof -
  have small: "body_small demo_reward_coinbase []" by (rule body_ok_small [OF demo_first_body_ok])
  have bag: "hash256_ok (bag_items demo_backend its)" for its
    using length_bag_items [of demo_backend its] by (simp add: demo_fields hash256_ok_def)
  have leaves: "\<exists>r. pmmr_root_of demo_backend ls = Ok r \<and> hash256_ok r" if "length ls = 1" for ls
    using bag that by (auto simp: pmmr_root_of_items)
  have "\<exists>x y z. compute_block_pmmr_roots demo_backend (BlockHeight 0) demo_reward_coinbase [] = Ok (x, y, z)
      \<and> hash256_ok x \<and> hash256_ok y \<and> hash256_ok z"
    using compute_unbound_exact [OF small, of demo_backend] leaves [of "output_leaves demo_reward_coinbase []"]
      leaves [of "kernel_leaves demo_reward_coinbase []"] leaves [of "proof_leaves demo_reward_coinbase []"]
    by (auto simp: compute_block_pmmr_roots_def BlockHeight_GENESIS_def output_leaves_def kernel_leaves_def proof_leaves_def)
  then show ?thesis
    using demo_header_ok by (auto simp: demo_first_def demo_first_roots_def header_ok_def)
qed

lemma demo_first_ok: "block_ok demo_backend demo_first"
  using demo_first_header demo_first_body_ok by (simp add: block_ok_def demo_first_lists)

lemma demo_first_length: "length (enc_block demo_first) < USIZE_LIMIT"
proof -
  have "length (enc_header (header demo_first)) = 256" by (rule length_enc_header [OF demo_first_header])
  moreover have "length (enc_coinbase demo_reward_coinbase) = 915"
    by (simp add: enc_coinbase_def enc_output_def enc_vec_def enc_coinbase_kernel_def
        demo_reward_coinbase_def demo_commit_def demo_signature_def)
  ultimately show ?thesis
    by (simp add: enc_block_def enc_body_def enc_list_def USIZE_LIMIT_def demo_first_lists)
qed

lemma demo_first_hash_ok: "length (as_bytes demo_first_hash) = 32"
  by (simp add: demo_first_hash_def compute_block_hash_def demo_fields)

lemma demo_first_identifier:
  "compute_block_identifier demo_backend NETWORK_MAGIC_TESTNET (enc_header (header demo_first)) = Ok demo_first_hash"
  using demo_first_header
  by (simp add: compute_block_identifier_def canonical_header_identifier_def blake2b_256_def demo_first_hash_def
      compute_block_hash_def network_magics_distinct(1) [symmetric])

lemma demo_first_coinbase: "coinbase_valid demo_backend ctx demo_first"
proof -
  let ?out = "\<lparr>to_commitment = demo_commit 23100000000, to_proof = replicate 739 0\<rparr> :: transaction_output"
  have "validate_explicit_value (cb_kernel demo_reward_coinbase) (BlockHeight 0) 0 = Ok ()"
    using explicit_value_cases [of "cb_kernel demo_reward_coinbase" "BlockHeight 0" 0]
    by (simp add: demo_reward_coinbase_def block_reward_def halving_epoch_def HALVING_INTERVAL_def HALVING_EPOCHS_def
        reward_table_head)
  moreover have "range_proof_bytes ?out = Ok (to_proof ?out)" "recovery_capsule_of ?out = Ok None"
      "verify_output_proof demo_backend ?out (to_proof ?out) None = Ok True"
    by (rule demo_output_proof [where v = 23100000000]; simp)+
  moreover have "validate_coinbase_signature demo_backend demo_reward_coinbase chain = Ok ()" for chain
    by (simp add: validate_coinbase_signature_def demo_reward_coinbase_def demo_verify)
  ultimately have "CoinbaseTransaction_validate demo_backend demo_reward_coinbase (BlockHeight 0) 0 chain = Ok ()" for chain
    by (simp add: CoinbaseTransaction_validate_def demo_reward_coinbase_def dom_consts)
  then show ?thesis by (auto simp: coinbase_valid_def demo_first_lists block_fees_def intro!: exI [of _ 0])
qed

lemma demo_first_syntax: "validate_header_syntax (header demo_first) NETWORK_MAGIC_TESTNET = Ok ()"
  using curve_order_large
  by (simp add: validate_header_syntax_def demo_first_lists demo_first_def demo_header_def classify_header_link_def
      Hash256_ZERO_def kernel_offset_canonical_iff be_to_nat_zeros)

lemma demo_first_subsidy: "block_reward (BlockHeight 0) = Amount 3300000000"
  by (simp add: block_reward_def halving_epoch_def HALVING_INTERVAL_def HALVING_EPOCHS_def reward_table_head)

lemma demo_first_valid: "block_valid demo_backend ctx NETWORK_MAGIC_TESTNET demo_first"
proof -
  have "verify_block_balance_equation demo_backend (block_outputs demo_first) (block_inputs demo_first)
      (block_excesses demo_first) (replicate 32 0) 3300000000 = Ok True"
    by (simp add: verify_block_balance_equation_def sum_projective_def demo_first_lists demo_projective demo_h demo_fields)
  moreover have "validate_pmmr_roots demo_backend demo_first = Ok ()"
  proof -
    obtain x y z where "compute_block_pmmr_roots demo_backend (BlockHeight 0) demo_reward_coinbase [] = Ok (x, y, z)"
      using compute_roots_total [OF demo_first_body_ok, of "BlockHeight 0"] by auto
    then show ?thesis by (simp add: validate_pmmr_roots_def demo_first_lists demo_first_roots_def, simp add: demo_first_def demo_first_roots_def)
  qed
  ultimately show ?thesis
    using demo_first_syntax demo_first_coinbase
    by (simp add: block_valid_def demo_first_lists demo_first_subsidy)
qed

lemma demo_first_work:
  "target_to_difficulty_for_network_height NETWORK_MAGIC_TESTNET (BlockHeight 0) ([0, 0, 0xff, 0xff, 0x7f] @ replicate 27 0) = Ok 1"
proof -
  let ?t = "[0, 0, 0xff, 0xff, 0x7f] @ replicate 27 0 :: bytes"
  have t: "be_to_nat ?t = 16777087 * 256 ^ 27" unfolding be_to_nat_padded by (simp add: be_to_nat_Cons be_to_nat_def [of "[]"])
  then have "be_to_nat MAX_TARGET_BYTES < 2 * be_to_nat ?t" using max_target_value(1) by simp
  then have "be_to_nat MAX_TARGET_BYTES div be_to_nat ?t < 2" by (rule less_mult_imp_div_less)
  moreover have "(2 :: nat) ^ 112 \<le> be_to_nat ?t" unfolding t by simp
  ultimately show ?thesis
    using difficulty_exact [of ?t NETWORK_MAGIC_TESTNET "BlockHeight 0"] network_magics_distinct(1)
    by (auto simp: rescue_active_def max_def)
qed

lemma demo_first_accepted: "validate_new_block demo_backend demo_env demo_signer demo_start demo_first demo_first_hash demo_now = Ok ()"
proof -
  have block: "validate_block_for_network demo_backend demo_first (block_context demo_backend demo_start (BlockHeight 0) demo_now)
      NETWORK_MAGIC_TESTNET = Ok ()"
    using demo_first_valid validate_block_Ok [OF block_counts [OF demo_first_ok]] by blast
  have other: "replicate 32 0 \<noteq> GENESIS_HASH_TESTNET"
  proof
    assume "replicate 32 0 = GENESIS_HASH_TESTNET"
    from arg_cong [OF this, of hd] show False by (simp add: GENESIS_HASH_TESTNET_def)
  qed
  have "validate_genesis_body_identity demo_backend demo_signer demo_start demo_first = Ok ()"
    by (simp add: validate_genesis_body_identity_def demo_first_lists demo_start_def BlockHeight_GENESIS_def
        configured_genesis_hash_for_network_magic_def Hash256_ZERO_def other network_magics_distinct(1) [symmetric])
  moreover have "validate_pow_for_network demo_backend demo_env NETWORK_MAGIC_TESTNET (header demo_first) seed = Ok ()" for seed
    by (simp add: validate_pow_for_network_def demo_first_lists to_target_constants pow_check_for_network_def demo_env_def
        pow_validation_mode_for_network_def pow_validation_mode_for_network_inner_def classify_pow_validation_mode_def
        validate_pow_randomx_def hash_meets_target_def target_gt_iff be_to_nat_zeros)
  moreover have "check_total_difficulty demo_start (header demo_first) 0 = Ok ()"
    using demo_first_work
    by (simp add: check_total_difficulty_def demo_first_lists to_target_constants checked_accumulated_difficulty_def demo_start_def)
  moreover have "validate_genesis_identity demo_start (header demo_first) demo_first_hash = Ok ()"
    by (simp add: validate_genesis_identity_def demo_first_lists demo_start_def get_hash_at_height_def hash_value_def
        empty_store_def network_magics_distinct(1) [symmetric])
  moreover have "check_parent demo_start (header demo_first) = Ok None"
    by (simp add: check_parent_def demo_first_lists BlockHeight_GENESIS_def)
  moreover have "validate_future_timestamp_with_limit (header demo_first) demo_now (max_future_block_time demo_start) = Ok ()"
    by (simp add: validate_future_timestamp_with_limit_def demo_first_lists demo_now_def max_future_block_time_def demo_start_def
        TESTNET_MAX_FUTURE_BLOCK_TIME_def Timestamp_checked_add_secs_def checked_add_def less_timestamp_def)
  moreover have "is_ok (compute_randomx_seed_branch_aware (cs_store demo_start) 0 p)" for p
    by (simp add: compute_randomx_seed_branch_aware_def randomx_seed_height_def compute_randomx_seed_def Let_def
        get_hash_at_height_def hash_value_def demo_start_def empty_store_def)
  moreover have "magic demo_start = NETWORK_MAGIC_TESTNET" by (simp add: demo_start_def)
  ultimately show ?thesis
    using block demo_first_syntax
    by (auto simp: validate_new_block_def Let_def demo_first_lists is_ok_iff)
qed

definition demo_state :: chain_state where
  "demo_state = fst (connect_block demo_backend demo_env demo_signer (\<lambda>_. None) demo_start demo_first demo_now)"

definition demo_chain :: "chain_entry list" where
  "demo_chain = [(demo_first_hash, header demo_first, Some demo_first)]"

lemma demo_start_empty:
  "magic demo_start = NETWORK_MAGIC_TESTNET" "db_blocks (cs_store demo_start) = fmempty"
  "db_block_bodies (cs_store demo_start) = fmempty" "db_utxos (cs_store demo_start) = fmempty"
  "db_kernels (cs_store demo_start) = fmempty" "db_height (cs_store demo_start) = fmempty"
  by (simp_all add: demo_start_def empty_store_def)

lemma demo_first_direct: "hgt (header demo_first) = 0" "block_spent demo_first = []"
    "block_created demo_first = [commit_bytes (demo_commit 23100000000)]" "block_kernels demo_first = [commit_bytes (demo_commit 0)]"
    "validate_direct_extension_inputs demo_start demo_first = Ok ()"
  using demo_first_lists
  by (simp_all add: block_spent_def block_created_def block_new_entries_def new_entry_def demo_reward_coinbase_def block_kernels_def
      validate_direct_extension_inputs_def)

lemma demo_state_connected:
  "connect_block demo_backend demo_env demo_signer (\<lambda>_. None) demo_start demo_first demo_now = (demo_state, Ok BestChain)"
  "chain_ok demo_backend demo_state demo_chain" "tip_hash demo_state = demo_first_hash" "magic demo_state = NETWORK_MAGIC_TESTNET"
proof -
  have "\<exists>s. connect_block demo_backend demo_env demo_signer (\<lambda>_. None) demo_start demo_first demo_now
        = (with_tip demo_start s demo_first_hash (header demo_first), Ok BestChain)
      \<and> chain_ok demo_backend (with_tip demo_start s demo_first_hash (header demo_first))
          ([] @ [(demo_first_hash, header demo_first, Some demo_first)])"
    by (rule connect_block_direct [OF demo_start_ok demo_fields(7) demo_first_ok demo_first_length _ _ _ demo_first_accepted])
      (simp_all add: demo_start_empty demo_first_direct demo_first_identifier)
  then obtain s where "connect_block demo_backend demo_env demo_signer (\<lambda>_. None) demo_start demo_first demo_now
        = (with_tip demo_start s demo_first_hash (header demo_first), Ok BestChain)"
      "chain_ok demo_backend (with_tip demo_start s demo_first_hash (header demo_first)) demo_chain"
    unfolding demo_chain_def append_Nil by blast
  then show "connect_block demo_backend demo_env demo_signer (\<lambda>_. None) demo_start demo_first demo_now = (demo_state, Ok BestChain)"
    "chain_ok demo_backend demo_state demo_chain" "tip_hash demo_state = demo_first_hash" "magic demo_state = NETWORK_MAGIC_TESTNET"
    by (simp_all add: demo_state_def with_tip_def demo_start_empty)
qed

lemma demo_state_reachable: "reachable demo_backend demo_env demo_signer demo_state"
  by (rule reachable.connect [OF demo_start_reachable demo_first_ok demo_first_length demo_state_connected(1)])

lemma demo_state_work: "tip_difficulty demo_state = 1"
  using chain_ok_fields(5) [OF demo_state_connected(2)] demo_first_lists by (simp add: tip_ok_def demo_chain_def)

lemma demo_opens: "opens_block demo_backend 7 (\<lambda>c. (3300000000, 0)) (\<lambda>c. 0) demo_first"
  by (simp add: opens_block_def demo_first_lists opens_def opens_excess_def demo_projective demo_fields smul_int)

lemma demo_first_sound: "\<not> breaks_commitment demo_backend 7 (\<lambda>c. (3300000000, 0)) (\<lambda>c. 0) demo_first"
  by (simp add: breaks_commitment_def double_opening_def demo_first_direct demo_first_lists demo_first_subsidy value_sum_def blind_sum_def
      offset_scalar_def Let_def)

lemma demo_state_index: "get_hash_at_height (cs_store demo_state) 0 = Ok (Some (as_bytes demo_first_hash))"
  by (simp add: height_of_canonical [OF chain_ok_fields(3) [OF demo_state_connected(2)]] demo_chain_def)

lemma demo_not_zero: "demo_first_hash \<noteq> Hash256_ZERO"
proof
  assume "demo_first_hash = Hash256_ZERO"
  from arg_cong [OF this, of "\<lambda>h. as_bytes h ! 0"] have "as_bytes demo_first_hash ! 0 = 0"
    by (simp only: Hash256_ZERO_def hash256.sel) simp
  moreover have "as_bytes demo_first_hash ! 0 = u32_to_le (version (header demo_first)) ! 0"
    by (simp add: demo_first_hash_def compute_block_hash_def demo_backend_def enc_header_def nth_append del: take_append)
  moreover have "version (header demo_first) = 3 \<or> version (header demo_first) = 2"
    by (simp add: demo_first_def required_block_version_for_network_def dom_consts)
  ultimately show False by (auto simp: u32_to_le_def nat_to_le_numeral)
qed

section \<open>Blocks of a reorganization\<close>

definition demo_spending :: block where
  "demo_spending = demo_block\<lparr>transactions := [demo_tx\<lparr>inputs := [\<lparr>ti_commitment = demo_commit 23100000000\<rparr>]\<rparr>]\<rparr>"

definition demo_recreating :: block where
  "demo_recreating = \<lparr>header = (header demo_block)\<lparr>height := BlockHeight 2\<rparr>,
    coinbase = demo_coinbase\<lparr>cb_output := \<lparr>to_commitment = demo_commit 5, to_proof = replicate 739 0\<rparr>\<rparr>,
    transactions = [demo_tx\<lparr>inputs := [\<lparr>ti_commitment = demo_commit 93\<rparr>],
      outputs := [\<lparr>to_commitment = demo_commit 23100000000, to_proof = replicate 739 1\<rparr>]\<rparr>]\<rparr>"

definition demo_rival :: block where
  "demo_rival = demo_block\<lparr>transactions := []\<rparr>"

definition demo_late_entry :: utxo_entry where
  "demo_late_entry = \<lparr>ue_block_height = 2, is_coinbase = False, ue_proof = replicate 739 1\<rparr>"

lemma demo_entries:
  "block_new_entries demo_spending = [(commit_bytes (demo_commit 23100000007), \<lparr>ue_block_height = 1, is_coinbase = True, ue_proof = replicate 739 0\<rparr>),
    (commit_bytes (demo_commit 93), \<lparr>ue_block_height = 1, is_coinbase = False, ue_proof = replicate 739 0\<rparr>)]"
  "block_spent demo_spending = [commit_bytes (demo_commit 23100000000)]"
  "block_new_entries demo_recreating = [(commit_bytes (demo_commit 5), \<lparr>ue_block_height = 2, is_coinbase = True, ue_proof = replicate 739 0\<rparr>),
    (commit_bytes (demo_commit 23100000000), demo_late_entry)]"
  "block_spent demo_recreating = [commit_bytes (demo_commit 93)]"
  "block_new_entries demo_rival = [(commit_bytes (demo_commit 23100000007), \<lparr>ue_block_height = 1, is_coinbase = True, ue_proof = replicate 739 0\<rparr>)]"
  "block_spent demo_rival = []"
  "extract_kernel_excesses demo_spending k = [(commit_bytes (demo_commit 0), as_bytes k), (commit_bytes (demo_commit 0), as_bytes k)]"
  "extract_kernel_excesses demo_recreating k = [(commit_bytes (demo_commit 0), as_bytes k), (commit_bytes (demo_commit 0), as_bytes k)]"
  "extract_kernel_excesses demo_rival k = [(commit_bytes (demo_commit 0), as_bytes k)]"
  by (simp_all add: block_new_entries_def new_entry_def block_spent_def extract_kernel_excesses_def demo_spending_def demo_recreating_def
      demo_rival_def demo_block_def demo_coinbase_def demo_tx_def demo_late_entry_def)

lemma demo_find:
  "find_canonical_output_entry demo_backend (cs_store demo_state) 0 c
    = Ok (if c = commit_bytes (demo_commit 23100000000) then Some \<lparr>ue_block_height = 0, is_coinbase = True, ue_proof = replicate 739 0\<rparr> else None)"
proof -
  have st: "stored demo_backend NETWORK_MAGIC_TESTNET (cs_store demo_state) (demo_first_hash, header demo_first, Some demo_first)"
    using canonicalD(1) [OF chain_ok_fields(3) [OF demo_state_connected(2)], of 0] demo_state_connected(4) by (simp add: demo_chain_def)
  have "block_new_entries demo_first = [(commit_bytes (demo_commit 23100000000), \<lparr>ue_block_height = 0, is_coinbase = True, ue_proof = replicate 739 0\<rparr>)]"
    by (simp add: block_new_entries_def new_entry_def demo_first_lists demo_reward_coinbase_def)
  moreover have "\<not> is_ok (validate_mainnet_genesis_identity demo_backend (enc_block demo_first))"
  proof -
    have "enc_block demo_first ! 0 = u32_to_le (version (header demo_first)) ! 0"
      by (simp add: enc_block_def enc_header_def nth_append)
    moreover have "version (header demo_first) = 2"
      by (simp add: demo_first_def required_block_version_for_network_def dom_consts)
    ultimately have "enc_block demo_first ! 0 \<noteq> 1" by (simp add: u32_to_le_def nat_to_le_numeral)
    then show ?thesis using identity_first_byte by (auto simp: validate_mainnet_genesis_identity_def is_ok_iff)
  qed
  moreover have "get_hash_at_height (cs_store demo_state) 0 = Ok (Some (as_bytes demo_first_hash))"
    by (simp add: height_of_canonical [OF chain_ok_fields(3) [OF demo_state_connected(2)]] demo_chain_def)
  ultimately show ?thesis
    using stored_block(1,2) [OF st]
    by (simp add: find_canonical_output_entry_def heights_upto_def)
qed

definition demo_homes :: dom_store where
  "demo_homes = empty_store\<lparr>db_utxos := fmupd (commit_bytes (demo_commit 5)) (UtxoEntry_to_bytes demo_utxo) fmempty\<rparr>"

end
