(* ===== verification/Spec2Isabelle.thy ===== *)
theory Spec2Isabelle
  imports Fee_Policy Transaction Pmmr Pow Block Consensus Mempool Chain_Demo
begin

text \<open>
  Verification library for the DOM node (the crates under \<^verbatim>\<open>src/crates/dom-*\<close>), a Mimblewimble
  ledger: transactions and blocks carry Pedersen commitments, a block is valid when its
  aggregate balance equation holds, and the node keeps a canonical chain of valid blocks, the
  set of unspent outputs and a pool of unconfirmed transactions.

  \<^bold>\<open>Theories and sources.\<close>
  \<^item> Dom_Prelude: results (value, error or panic), the question mark operator, checked machine
    arithmetic, byte orders, loops over lists.
  \<^item> Dom_Core: dom-core/src/error.rs, constants.rs, types.rs: error classes, consensus
    constants, amounts, heights, the reward table, block versions, the start-up identity gates.
  \<^item> Fee_Policy: dom-core/src/fee_policy.rs: weights, fees and the admission test.
  \<^item> Serialization: dom-serialization/src/lib.rs: Writer, Reader with its list budget, the
    canonical encodings; the locale \<^verbatim>\<open>codec\<close> states what an encoder and decoder pair promises and
    is interpreted on every wire type of the development.
  \<^item> Crypto: dom-crypto/src: tagged hashes, scalars, keys, Schnorr verification and
    aggregation, balance equations, range-proof framing, recovery capsules.
  \<^item> Transaction, Block, Consensus: dom-consensus/src/transaction.rs, block.rs, lib.rs,
    block_full.rs, cutthrough.rs.
  \<^item> Pmmr: dom-pmmr/src/lib.rs.  Pow: dom-pow/src/lib.rs.
  \<^item> Utxo, Store: dom-store/src/utxo.rs, db.rs, peer_store.rs, block_store.rs.  Mempool:
    dom-mempool/src/lib.rs.
  \<^item> Genesis, Chain: dom-chain/src/genesis.rs, chain_state.rs, reorg.rs, and the first block of
    dom-node/src/miner.rs.  The state of \<^verbatim>\<open>ChainState\<close> is the record \<^verbatim>\<open>chain_state\<close> over the record
    \<^verbatim>\<open>dom_store\<close> of the databases; \<^verbatim>\<open>connect_block\<close>, \<^verbatim>\<open>promote_heavier_known_tip\<close> and \<^verbatim>\<open>open_inner\<close>
    are the handlers of the same names.
  \<^item> Ledger: the abstract ledger, a set of unspent commitments stepped by blocks, and its supply.
    Chain_Branch: the stored blocks as branches, the canonical chain, pruning.  Chain_Invariant: the
    invariant of a chain state and the direct extension.  Reorg: a promotion keeps the invariant.
    Chain_Reach: connecting, replaying, opening, the first block, and the reachable states.
    Chain_Facts: the locale \<^verbatim>\<open>fork_choice\<close> and what the invariant gives.  Chain_Demo: a concrete
    chain for the witnesses.

  \<^bold>\<open>How the parts interact.\<close>  A block arrives as bytes (Serialization, Block, Consensus), is
  validated by itself (Consensus, Transaction, Crypto, Pmmr) and against its parent and the
  difficulty rules (Chain, Pow), and is then written to the store (Store) as a direct extension, a
  side block or the end of a heavier branch.  The pool (Mempool) admits transactions against the
  unspent outputs and is emptied of what a block confirms.  The properties at the end of this
  theory are about every state reachable by opening a fresh store, creating the first block,
  connecting any well-formed blocks, and reopening, where any write may fail.

  \<^bold>\<open>Parameters.\<close>  Curve arithmetic, BLAKE2b, SHA-256, the Bulletproof library and the
  proof-of-work hash are third-party code: they are the fields of the record \<^verbatim>\<open>backend\<close>, and a
  theorem that relies on one names the documented law as a hypothesis (\<^verbatim>\<open>mul_law\<close>: scalar
  multiplication distributes; \<^verbatim>\<open>backend_total\<close>: compressed points have 33 bytes and the proof
  library returns).  Hash collisions and double openings are not assumed away: a theorem that
  needs them absent concludes with the collision or the double opening as the alternative.
  \<^verbatim>\<open>demo_backend\<close> is the concrete instance on the integers used by the witnesses.

  \<^bold>\<open>Integers.\<close>  Machine integers keep their width; an unchecked addition of the source panics on
  overflow, as the workspace builds with overflow checks.  \<^verbatim>\<open>usize\<close> is a natural number, with
  the 64-bit limit written where it matters.  The strings of errors are the format templates
  of the source without the interpolated values.

  \<^bold>\<open>What is shown.\<close>  No inflation by a transaction or a block for any openings, exactness of
  transaction, block, header and fee validation, canonical wire formats (a byte string is
  accepted exactly when it is the encoding of the decoded value), freedom from panics of block
  validation, binding of the accumulator roots, refinement of the flat mountain range to a
  forest of perfect trees, the difficulty adjustment as exact arithmetic, the invariant of the
  transaction pool and the exact outcome of admission, eviction and selection.  For every
  reachable chain state: the persisted unspent outputs and kernels are those of the canonical
  chain, their value is the issued subsidy, finalised heights never change, the tip never gets
  worse, a restart gives back the same state, reads of the store succeed, the walks of a
  promotion end, and a good extension of the tip is accepted.  Two theorems exhibit defects of
  the reorganization overlays.

  \<^bold>\<open>Loops.\<close>  Every loop is a structural recursion or has a termination proof by a measure
  (positions below \<open>2 ^ 64\<close> in the mountain range, the pool weight in the eviction loop).  The two
  loops of a promotion that follow parent pointers have no bound in the code; they take a number
  of steps, BRANCH_WALK_STEPS, and it is proved that it is enough and that more steps
  change nothing.

  \<^bold>\<open>Assumptions of the chain results.\<close>  BLAKE2b returns 32 bytes.  A block is of the type its
  decoder produces (\<^verbatim>\<open>block_ok\<close>).  For networks other than Mainnet the canonical genesis block
  built by the node has a valid coinbase (\<^verbatim>\<open>genesis_valid\<close>), since prover and signer are
  parameters.  A write transaction is atomic, as LMDB documents.

  \<^bold>\<open>Not modelled.\<close>  Of dom-chain: the batched header validation of the initial download and its
  driver.  Of dom-node: the asynchronous runtime, peer management, synchronisation and mining
  loops.  dom-wire, dom-rpc, dom-config, the wallets and command-line tools: sockets, files, user
  interfaces and random number generation around the parts above.  The interoperability crates
  (routes, relay, solver, actuators, adapters to other chains, scriptless contracts): clients of
  the node over RPC, with their own databases and foreign cryptography.  Contracts and programs of
  other virtual machines, tests, fuzz targets, model checkers and deployment files.
\<close>

section \<open>Properties of the reachable chain states\<close>

lemma reachable_chain:
  assumes "reachable B E S cs" "\<forall>x. length (blake2b B x) = 32"
  obtains ch where "chain_ok B cs ch"
  using reachable_ok [OF assms(1)] assms(2) by blast

text \<open>
  C2. Whatever blocks arrive and whatever writes fail, the persisted state is that of the
  canonical chain: the height index lists one chain of stored blocks from the first to the tip,
  the unspent outputs are exactly those the abstract ledger computes from its blocks, every
  kernel occurs once in it, and the kernel index is the set of its kernels.
\<close>
theorem reachable_ledger_exact:
  assumes "reachable B E S cs" "\<forall>x. length (blake2b B x) = 32"
  shows "\<exists>ch. canonical B (magic cs) (cs_store cs) ch \<and> tip_ok cs ch
    \<and> ledger {} (chain_blocks ch) = Some (fmdom' (db_utxos (cs_store cs)))
    \<and> distinct (chain_kernels ch) \<and> fmdom' (db_kernels (cs_store cs)) = set (chain_kernels ch)"
proof -
  obtain ch where "chain_ok B cs ch" using reachable_chain [OF assms] .
  then show ?thesis unfolding chain_ok_def ledger_ok_def by blast
qed

theorem reachable_ledger_exact_witness:
  "\<exists>ch. canonical demo_backend NETWORK_MAGIC_TESTNET (cs_store demo_state) ch \<and> tip_ok demo_state ch
    \<and> ledger {} (chain_blocks ch) = Some (fmdom' (db_utxos (cs_store demo_state)))
    \<and> distinct (chain_kernels ch) \<and> fmdom' (db_kernels (cs_store demo_state)) = set (chain_kernels ch)"
  using reachable_ledger_exact [OF demo_state_reachable] demo_fields(7) by (simp add: demo_state_connected(4))

text \<open>
  C1. The money supply: for any openings of the commitments of the canonical chain, the values of
  the persisted unspent outputs add up to the subsidies of its blocks, and on Mainnet to no
  more than the declared maximum supply, unless some block of the chain exhibits two openings
  of one commitment.
\<close>
theorem reachable_supply:
  assumes "reachable B E S cs" "\<forall>x. length (blake2b B x) = 32" "mul_law B" "h_point B = Ok H"
    and "canonical B (magic cs) (cs_store cs) ch" "\<forall>b \<in> set (chain_blocks ch). opens_block B H op ex b"
  shows "(\<Sum>c \<in> fmdom' (db_utxos (cs_store cs)). fst (op c)) = sum_list (map block_subsidy (chain_blocks ch))
      \<and> (magic cs = NETWORK_MAGIC_MAINNET \<longrightarrow> (\<Sum>c \<in> fmdom' (db_utxos (cs_store cs)). fst (op c)) \<le> unat MAX_SUPPLY_NOMS)
    \<or> (\<exists>b \<in> set (chain_blocks ch). breaks_commitment B H op ex b)"
proof -
  obtain ch' where ok: "chain_ok B cs ch'" using reachable_chain [OF assms(1,2)] .
  have "ch' = ch" using canonical_unique [OF chain_ok_fields(3) [OF ok] assms(5)] .
  then show ?thesis
    using chain_supply [OF ok assms(3,4), of op ex] assms(5,6) mainnet_subsidies [of B "cs_store cs" ch]
    by (auto simp: MAX_SUPPLY_NOMS_value)
qed

theorem reachable_supply_witness:
  "(\<Sum>c \<in> fmdom' (db_utxos (cs_store demo_state)). fst (3300000000 :: nat, 0 :: nat)) = 3300000000"
  using reachable_supply [OF demo_state_reachable _ demo_law demo_h, of demo_chain "\<lambda>c. (3300000000, 0)" "\<lambda>c. 0"]
    demo_fields(7) chain_ok_fields(3) [OF demo_state_connected(2)] demo_opens demo_first_sound
  by (simp add: demo_chain_def block_subsidy_def demo_first_lists demo_first_subsidy)

text \<open>
  C5. Rolling finality: connecting a block, whatever branch it belongs to, never changes the
  canonical block at a height that lies 359 or more below the tip, nor the first block.
\<close>
theorem rolling_finality:
  assumes "reachable B E S cs" "\<forall>x. length (blake2b B x) = 32" "block_ok B b" "length (enc_block b) < USIZE_LIMIT"
    and "connect_block B E S io cs b now = (cs', q)"
    and "get_hash_at_height (cs_store cs) x = Ok (Some k)" "unat x \<le> unat (height_val (tip_height cs)) - 359"
  shows "get_hash_at_height (cs_store cs') x = Ok (Some k)"
proof -
  obtain ch where ok: "chain_ok B cs ch" using reachable_chain [OF assms(1,2)] .
  then obtain ch' where ok': "chain_ok B cs' ch'" "chain_moves ch ch'" using connect_block_ok [OF ok _ assms(3,4,5)] assms(2) by blast
  note f = chain_ok_fields [OF ok]
  have x: "unat x < length ch" "k = as_bytes (fst (ch ! unat x))"
    using assms(6) by (auto simp: height_of_canonical [OF f(3)] split: if_splits)
  then have "ch \<noteq> []" by auto
  then have "unat x \<le> length ch - 1 - 359" using assms(7) tip_height_nat(2) [OF f(3,5)] by simp
  then show ?thesis
    using moves_keep_prefix [OF ok'(2) x(1)] x(2) by (simp add: height_of_canonical [OF chain_ok_fields(3) [OF ok'(1)]])
qed

theorem rolling_finality_witness:
  "get_hash_at_height (cs_store (fst (connect_block demo_backend demo_env demo_signer (\<lambda>_. None) demo_state demo_block demo_now))) 0
    = Ok (Some (as_bytes demo_first_hash))"
  using rolling_finality [OF demo_state_reachable _ demo_block_ok demo_block_length prod.collapse [symmetric] demo_state_index]
    demo_fields(7) by simp

text \<open>
  C8. Fork choice is monotone: after any attempt to connect a block the tip is either the same as
  before or strictly preferred by the fork-choice rule, whatever the outcome of the attempt is.
\<close>
theorem connect_never_worsens_tip:
  assumes "reachable B E S cs" "\<forall>x. length (blake2b B x) = 32" "block_ok B b" "length (enc_block b) < USIZE_LIMIT"
    and "connect_block B E S io cs b now = (cs', q)"
  shows "tip_hash cs' = tip_hash cs \<and> tip_height cs' = tip_height cs \<and> tip_difficulty cs' = tip_difficulty cs
    \<or> is_better_fork_choice_tip (tip_difficulty cs') (tip_hash cs') (tip_difficulty cs) (tip_hash cs)"
proof -
  obtain ch where ok: "chain_ok B cs ch" using reachable_chain [OF assms(1,2)] .
  then have "tip_improves cs cs'" using connect_block_ok [OF ok _ assms(3,4,5)] assms(2) by blast
  then show ?thesis by (simp add: tip_improves_def)
qed

theorem connect_never_worsens_tip_witness:
  "is_better_fork_choice_tip (tip_difficulty demo_state) (tip_hash demo_state) (tip_difficulty demo_start) (tip_hash demo_start)"
  using connect_never_worsens_tip [OF demo_start_reachable _ demo_first_ok demo_first_length demo_state_connected(1)]
    demo_fields(7) demo_state_work by (auto simp: demo_start_def)



text \<open>
  C7. A restart loses nothing.  Whatever writes fail on the way, with or without the repair
  option, and whether or not the attempt succeeds, opening the persisted store again leaves the
  same tip, the same height index, the same set of unspent outputs and the same kernel index in
  the store; when it succeeds, the new state has the tip of the old one.  And with the repair
  option and a working disk it succeeds exactly when the configured genesis hash fits the
  stored one.
\<close>
theorem reopen_exact:
  assumes "reachable B E S cs" "\<forall>x. length (blake2b B x) = 32"
  shows "(\<forall>io repair s r. open_inner B io (cs_store cs) g (magic cs) repair = (s, r) \<longrightarrow>
      db_tip s = db_tip (cs_store cs) \<and> get_hash_at_height s = get_hash_at_height (cs_store cs)
      \<and> fmdom' (db_utxos s) = fmdom' (db_utxos (cs_store cs)) \<and> db_kernels s = db_kernels (cs_store cs)
      \<and> (\<forall>cs'. r = Ok cs' \<longrightarrow> cs_store cs' = s \<and> tip_hash cs' = tip_hash cs
          \<and> tip_height cs' = tip_height cs \<and> tip_difficulty cs' = tip_difficulty cs))
    \<and> (is_ok (snd (open_with_utxo_repair B (\<lambda>_. None) (cs_store cs) g (magic cs)))
        \<longleftrightarrow> validate_persisted_genesis_identity (cs_store cs) g = Ok ())"
proof -
  obtain ch where ok: "chain_ok B cs ch" using reachable_chain [OF assms] .
  note store = reopened_store [OF ok] and tip = reopened_tip [OF ok]
  show ?thesis unfolding open_with_utxo_repair_def
    using open_total [OF ok] by (intro conjI allI impI) (erule store tip, assumption?)+
qed

theorem reopen_exact_witness:
  "\<exists>s cs'. open_inner demo_backend (\<lambda>_. None) (cs_store demo_state) Hash256_ZERO NETWORK_MAGIC_TESTNET True = (s, Ok cs')
    \<and> tip_hash cs' = demo_first_hash \<and> get_hash_at_height s 0 = Ok (Some (as_bytes demo_first_hash))
    \<and> db_kernels s = db_kernels (cs_store demo_state)"
proof -
  have g: "get_hash_at_height (cs_store demo_state) 0 = Ok (Some (as_bytes demo_first_hash))"
    by (rule demo_state_index)
  have v: "validate_persisted_genesis_identity (cs_store demo_state) Hash256_ZERO = Ok ()"
    using g by (simp add: validate_persisted_genesis_identity_def BlockHeight_GENESIS_def)
  note r = reopen_exact [OF demo_state_reachable, of Hash256_ZERO, unfolded demo_state_connected(3,4)]
  have ok: "is_ok (snd (open_with_utxo_repair demo_backend (\<lambda>_. None) (cs_store demo_state) Hash256_ZERO NETWORK_MAGIC_TESTNET))"
    using r v demo_fields(7) by simp
  then obtain s cs' where o: "open_inner demo_backend (\<lambda>_. None) (cs_store demo_state) Hash256_ZERO NETWORK_MAGIC_TESTNET True = (s, Ok cs')"
    unfolding open_with_utxo_repair_def by (metis is_ok_iff prod.collapse)
  have "\<forall>x. length (blake2b demo_backend x) = 32" using demo_fields(7) by simp
  from conjunct1 [OF r [OF this], rule_format, OF o]
  have "tip_hash cs' = demo_first_hash" "get_hash_at_height s = get_hash_at_height (cs_store demo_state)"
      "db_kernels s = db_kernels (cs_store demo_state)"
    by blast+
  then show ?thesis using o g by auto
qed

text \<open>
  C9. The walks of a promotion end: when a common ancestor was found, validating the candidate
  branch and collecting both branches stop at it within the step bound, and a larger bound
  gives the same results, so the unbounded loops of the code return; the collected old branch
  has exactly the blocks above the ancestor.
\<close>
theorem promotion_walks_end:
  assumes "reachable B E S cs" "\<forall>x. length (blake2b B x) = 32"
    and "reorg_ancestor cs t = Ok (anc, ah)" "BRANCH_WALK_STEPS \<le> n"
  shows "\<exists>ds es. validate_branch_header_syntax (cs_store cs) (magic cs) anc n t = Ok ()
    \<and> collect_branch_blocks B (cs_store cs) anc n t = Ok es \<and> length es \<le> 1000
    \<and> collect_branch_blocks B (cs_store cs) anc n (tip_hash cs) = Ok ds
    \<and> length ds = unat (height_val (tip_height cs)) - unat ah"
proof -
  obtain ch where ok: "chain_ok B cs ch" using reachable_chain [OF assms(1,2)] .
  note f = chain_ok_fields [OF ok]
  have "ch \<noteq> []" using reorg_ancestor_tip [OF f(2) assms(3)] f(5) by (auto simp: tip_ok_def)
  then have "length ch - Suc (unat ah) = unat (height_val (tip_height cs)) - unat ah"
    using tip_height_nat(2) [OF f(3,5)] by simp
  then show ?thesis using walks_end [OF ok assms(3,4)] by simp
qed

theorem promotion_walks_end_witness:
  "\<exists>ds es. validate_branch_header_syntax (cs_store demo_state) NETWORK_MAGIC_TESTNET demo_first_hash 1000 demo_first_hash = Ok ()
    \<and> collect_branch_blocks demo_backend (cs_store demo_state) demo_first_hash 1000 demo_first_hash = Ok es \<and> length es \<le> 1000
    \<and> collect_branch_blocks demo_backend (cs_store demo_state) demo_first_hash 1000 demo_first_hash = Ok ds
    \<and> length ds = unat (height_val (tip_height demo_state)) - unat (height_val (tip_height demo_state))"
proof -
  have "reorg_ancestor demo_state demo_first_hash = Ok (demo_first_hash, height_val (tip_height demo_state))"
    using demo_not_zero by (simp add: reorg_ancestor_def find_common_ancestor_def demo_state_connected(3))
  from promotion_walks_end [OF demo_state_reachable _ this, of 1000] show ?thesis
    using demo_fields(7) demo_state_connected(3,4) by (simp add: BRANCH_WALK_STEPS_def MAX_REORG_DEPTH_POLICY_def)
qed

text \<open>
  C6. Progress: a well-formed block that passes validation, builds on the tip, spends existing
  mature outputs, creates new outputs and carries new kernels is connected: without write
  failures the call returns success, and the block is the new tip and the canonical block at
  its height.
\<close>
theorem direct_extension_accepted:
  assumes "reachable B E S cs" "\<forall>x. length (blake2b B x) = 32" "block_ok B b" "length (enc_block b) < USIZE_LIMIT"
    and "compute_block_identifier B (magic cs) (enc_header (header b)) = Ok k"
    and "as_bytes k \<notin> fmdom' (db_blocks (cs_store cs))" "as_bytes k \<notin> fmdom' (db_block_bodies (cs_store cs))"
    and "validate_new_block B E S cs b k now = Ok ()" "height (header b) = BlockHeight 0 \<or> prev_hash (header b) = tip_hash cs"
    and "validate_direct_extension_inputs cs b = Ok ()" "set (block_created b) \<inter> fmdom' (db_utxos (cs_store cs)) = {}"
    and "distinct (block_kernels b)" "set (block_kernels b) \<inter> fmdom' (db_kernels (cs_store cs)) = {}"
  shows "\<exists>cs'. connect_block B E S (\<lambda>_. None) cs b now = (cs', Ok BestChain) \<and> tip_hash cs' = k
    \<and> tip_height cs' = height (header b)
    \<and> get_hash_at_height (cs_store cs') (height_val (height (header b))) = Ok (Some (as_bytes k))"
proof -
  obtain ch where ok: "chain_ok B cs ch" using reachable_chain [OF assms(1,2)] .
  have direct: "hgt (header b) = 0 \<or> prev_hash (header b) = tip_hash cs" using assms(9) by auto
  obtain s where s: "connect_block B E S (\<lambda>_. None) cs b now = (with_tip cs s k (header b), Ok BestChain)"
      "chain_ok B (with_tip cs s k (header b)) (ch @ [(k, header b, Some b)])"
    using connect_block_direct [OF ok _ assms(3-8) direct assms(10-13)] assms(2) by blast
  let ?cs = "with_tip cs s k (header b)"
  note f = chain_ok_fields [OF s(2)]
  have "hgt (header b) = length ch" using canonicalD(2) [OF f(3), of "length ch"] by simp
  then have "get_hash_at_height (cs_store ?cs) (height_val (height (header b))) = Ok (Some (as_bytes k))"
    by (simp add: height_of_canonical [OF f(3)])
  then show ?thesis using s(1) by (intro exI [of _ ?cs]) (simp add: with_tip_def)
qed

theorem direct_extension_accepted_witness:
  "\<exists>cs'. connect_block demo_backend demo_env demo_signer (\<lambda>_. None) demo_start demo_first demo_now = (cs', Ok BestChain)
    \<and> tip_hash cs' = demo_first_hash \<and> tip_height cs' = BlockHeight 0
    \<and> get_hash_at_height (cs_store cs') 0 = Ok (Some (as_bytes demo_first_hash))"
  using direct_extension_accepted [OF demo_start_reachable _ demo_first_ok demo_first_length, of demo_first_hash demo_now]
    demo_fields(7) demo_first_accepted demo_first_identifier demo_first_direct demo_first_lists(5) demo_start_empty by simp

text \<open>
  C10. The persisted records have the type their readers expect: on a reachable state every read
  of the tip, the height index, the kernel index and the unspent outputs succeeds, and every
  stored header decodes and has its body.
\<close>
theorem store_reads_typed:
  assumes "reachable B E S cs" "\<forall>x. length (blake2b B x) = 32"
  shows "is_ok (get_chain_tip (cs_store cs)) \<and> is_ok (get_hash_at_height (cs_store cs) x)
    \<and> is_ok (get_kernel_block (cs_store cs) c) \<and> is_ok (get_utxo (cs_store cs) c)
    \<and> (\<forall>k bs. get_block_header (cs_store cs) k = Ok (Some bs) \<longrightarrow>
         (\<exists>h body. from_bytes deserialize_header bs = Ok h \<and> get_block_body (cs_store cs) k = Ok (Some body)))"
proof -
  obtain ch where ok: "chain_ok B cs ch" using reachable_chain [OF assms(1,2)] .
  note r = reads_typed [OF ok]
  have "\<exists>h body. from_bytes deserialize_header bs = Ok h \<and> get_block_body (cs_store cs) k = Ok (Some body)"
    if "get_block_header (cs_store cs) k = Ok (Some bs)" for k bs
    using r(5) [of k bs] that by (auto simp: get_block_header_def get_block_body_def stored.simps)
  then show ?thesis using r(1-4) by (simp add: is_ok_iff)
qed

theorem store_reads_typed_witness:
  "is_ok (get_chain_tip (cs_store demo_state)) \<and> is_ok (get_hash_at_height (cs_store demo_state) 0)
    \<and> is_ok (get_kernel_block (cs_store demo_state) []) \<and> is_ok (get_utxo (cs_store demo_state) (commit_bytes (demo_commit 1)))"
  using store_reads_typed [OF demo_state_reachable] demo_fields(7) by blast

text \<open>
  C25. Disconnecting blocks can bring back the wrong record: a commitment that was created below
  the common ancestor, spent in the first disconnected block and created again in the second one is
  restored with the record of the second block, which no longer belongs to the chain, and not
  with the one of the canonical block that is still there.
\<close>
theorem resurrected_from_later_block:
  assumes "reorg_overlays B cs ah [(k2, d2), (k1, d1)] es = Ok (u, kern)"
    and "find_canonical_output_entry B (cs_store cs) ah c = Ok (Some e0)"
    and "c \<in> set (block_spent d1)" "c \<notin> set (block_created d1)"
    and "distinct (block_created d2)" "(c, e) \<in> set (block_new_entries d2)"
    and "\<forall>(k, b) \<in> set es. c \<notin> set (block_created b) \<and> c \<notin> set (block_spent b)"
  shows "fmlookup u c = Some (Some e) \<and> ue_block_height e = height_val (height (header d2))"
proof -
  define index where "index = record_block_outputs (record_block_outputs fmempty d2) d1"
  have idx: "fmlookup index c = Some e"
    unfolding index_def unrecorded_output [OF assms(4)] by (rule recorded_output [OF assms(5,6)])
  obtain ov1 ov2 where 2: "apply_disconnect B (cs_store cs) ah index ov1 (k1, d1) = Ok ov2"
      "try_fold (apply_connect (cs_store cs) (coinbase_maturity cs)) ov2 es = Ok (u, kern)"
    using assms(1) by (auto simp: reorg_overlays_def index_def Let_def)
  obtain cl where "try_fold (resurrect_input B (cs_store cs) ah index) cl (block_spent d1) = Ok (fst ov2)"
    using 2(1) by (auto simp: apply_disconnect_def Let_def split: prod.splits)
  from resurrect_index [OF this idx] have "fmlookup (fst ov2) c = Some (Some e)" using assms(3) by simp
  moreover have "fmlookup (fst (u, kern)) c = fmlookup (fst ov2) c"
    using 2(2) by (rule try_fold_frame [where g = "\<lambda>ov. fmlookup (fst ov) c"])
      (use assms(7) connect_untouched in \<open>fastforce\<close>)
  moreover have "ue_block_height e = height_val (height (header d2))"
    using assms(6) by (auto simp: block_new_entries_def new_entry_def)
  ultimately show ?thesis by simp
qed

theorem resurrected_from_later_block_witness:
  "\<exists>u kern. reorg_overlays demo_backend demo_state 0 [(Hash256 [2], demo_recreating), (Hash256 [1], demo_spending)]
      [(Hash256 [3], demo_rival)] = Ok (u, kern)
    \<and> fmlookup u (commit_bytes (demo_commit 23100000000)) = Some (Some demo_late_entry) \<and> ue_block_height demo_late_entry = 2"
proof -
  have "is_ok (reorg_overlays demo_backend demo_state 0 [(Hash256 [2], demo_recreating), (Hash256 [1], demo_spending)]
      [(Hash256 [3], demo_rival)])"
    by (simp add: reorg_overlays_def apply_disconnect_def apply_connect_def demo_entries resurrect_input_def demo_find
      connect_create_def connect_kernel_def lookup_utxo_def lookup_kernel_def record_block_outputs_def Let_def demo_commit_inject)
  then obtain u kern where r: "reorg_overlays demo_backend demo_state 0 [(Hash256 [2], demo_recreating), (Hash256 [1], demo_spending)]
      [(Hash256 [3], demo_rival)] = Ok (u, kern)" by (auto simp: is_ok_iff)
  have "fmlookup u (commit_bytes (demo_commit 23100000000)) = Some (Some demo_late_entry)
      \<and> ue_block_height demo_late_entry = height_val (height (header demo_recreating))"
    by (rule resurrected_from_later_block [OF r, of _ "\<lparr>ue_block_height = 0, is_coinbase = True, ue_proof = replicate 739 0\<rparr>"])
      (simp_all add: demo_find demo_entries block_created_def demo_commit_inject)
  then show ?thesis using r by (simp add: demo_late_entry_def)
qed



end
